(* ===== verification/Loko_Prelude.thy ===== *)
theory Loko_Prelude
  imports Main "HOL-Library.Word" "HOL-Library.Monad_Syntax"
begin

text \<open>
  Shared vocabulary of the LokoOS development.

  The workspace profile sets \<^verbatim>\<open>overflow-checks = true\<close> for release builds
  (\<^verbatim>\<open>src/Cargo.toml\<close>) and the dev profile has them on by default, and
  \<^verbatim>\<open>panic = "abort"\<close> in both, so an arithmetic overflow, a failed slice index and a failed
  \<^verbatim>\<open>assert!\<close> all have one observable effect: the computation stops. A Rust computation that
  may stop in that way has type \<open>'a run\<close>; \<open>Panic\<close> is the stop and \<open>Ret x\<close> a
  normal return of \<open>x\<close>. Rust's \<^verbatim>\<open>Result<T, E>\<close> is the sum \<open>'e + 'a\<close>
  (\<open>Inl\<close> the error), Rust's \<^verbatim>\<open>Option\<close> is HOL's \<open>option\<close>.

  A \<^verbatim>\<open>u64\<close> or \<^verbatim>\<open>usize\<close> quantity that is only counted with is a
  \<open>nat\<close> below \<open>2 ^ 64\<close>, with the overflow check of every addition, subtraction and
  multiplication written out by the operations below; a value whose bits matter (bitmap words,
  rights, page-table entries) is a \<open>word\<close>. The targets are 64-bit, so \<^verbatim>\<open>usize\<close>
  and \<^verbatim>\<open>u64\<close> have the same range and casts between them keep the value.
\<close>

unbundle bit_operations_syntax

named_theorems run_simps \<open>evaluation of panicking arithmetic inside its bounds\<close>

section \<open>Computations that may panic\<close>

type_synonym 'a run = "'a option"

abbreviation (input) Panic :: "'a run" where
  "Panic \<equiv> None"

abbreviation (input) Ret :: "'a \<Rightarrow> 'a run" where
  "Ret \<equiv> Some"

definition u64_ok :: "nat \<Rightarrow> bool" where
  "u64_ok n \<longleftrightarrow> n < 2 ^ 64"

definition add64 :: "nat \<Rightarrow> nat \<Rightarrow> nat run" where
  "add64 a b = (if a + b < 2 ^ 64 then Ret (a + b) else Panic)"

definition sub64 :: "nat \<Rightarrow> nat \<Rightarrow> nat run" where
  "sub64 a b = (if b \<le> a then Ret (a - b) else Panic)"

definition mul64 :: "nat \<Rightarrow> nat \<Rightarrow> nat run" where
  "mul64 a b = (if a * b < 2 ^ 64 then Ret (a * b) else Panic)"

definition saturating_add64 :: "nat \<Rightarrow> nat \<Rightarrow> nat" where
  "saturating_add64 a b = min (a + b) (2 ^ 64 - 1)"

definition saturating_mul64 :: "nat \<Rightarrow> nat \<Rightarrow> nat" where
  "saturating_mul64 a b = min (a * b) (2 ^ 64 - 1)"

definition checked_add64 :: "nat \<Rightarrow> nat \<Rightarrow> nat option" where
  "checked_add64 a b = (if a + b < 2 ^ 64 then Some (a + b) else None)"

definition checked_mul64 :: "nat \<Rightarrow> nat \<Rightarrow> nat option" where
  "checked_mul64 a b = (if a * b < 2 ^ 64 then Some (a * b) else None)"

definition div_ceil64 :: "nat \<Rightarrow> nat \<Rightarrow> nat" where
  "div_ceil64 a b = a div b + (if a mod b > 0 then 1 else 0)"

text \<open>A Rust \<^verbatim>\<open>for\<close> loop whose body updates the state and may panic.\<close>

primrec run_for :: "('x \<Rightarrow> 's \<Rightarrow> 's run) \<Rightarrow> 'x list \<Rightarrow> 's \<Rightarrow> 's run" where
  "run_for body [] s = Ret s"
| "run_for body (x # xs) s = do { s' \<leftarrow> body x s; run_for body xs s' }"

text \<open>\<^verbatim>\<open>Iterator::find\<close> with a predicate that may panic.\<close>

primrec run_find :: "('x \<Rightarrow> bool run) \<Rightarrow> 'x list \<Rightarrow> 'x option run" where
  "run_find p [] = Ret None"
| "run_find p (x # xs) = do { b \<leftarrow> p x; if b then Ret (Some x) else run_find p xs }"

text \<open>\<^verbatim>\<open>Iterator::filter(..).count()\<close> with a predicate that may panic.\<close>

primrec run_count :: "('x \<Rightarrow> bool run) \<Rightarrow> 'x list \<Rightarrow> nat run" where
  "run_count p [] = Ret 0"
| "run_count p (x # xs) =
     do { b \<leftarrow> p x; n \<leftarrow> run_count p xs; Ret (if b then Suc n else n) }"

section \<open>Evaluation inside the bounds\<close>

lemma add64_Ret [run_simps]: "a + b < 2 ^ 64 \<Longrightarrow> add64 a b = Ret (a + b)"
  by (simp add: add64_def)

lemma sub64_Ret [run_simps]: "b \<le> a \<Longrightarrow> sub64 a b = Ret (a - b)"
  by (simp add: sub64_def)

lemma mul64_Ret [run_simps]: "a * b < 2 ^ 64 \<Longrightarrow> mul64 a b = Ret (a * b)"
  by (simp add: mul64_def)

lemma add64_eq_Ret [simp]: "add64 a b = Some c \<longleftrightarrow> c = a + b \<and> a + b < 2 ^ 64"
  by (auto simp: add64_def)

lemma sub64_eq_Ret [simp]: "sub64 a b = Some c \<longleftrightarrow> c = a - b \<and> b \<le> a"
  by (auto simp: sub64_def)

lemma mul64_eq_Ret [simp]: "mul64 a b = Some c \<longleftrightarrow> c = a * b \<and> a * b < 2 ^ 64"
  by (auto simp: mul64_def)

lemma arith64_Panic [simp]:
  "add64 a b = None \<longleftrightarrow> 2 ^ 64 \<le> a + b" "sub64 a b = None \<longleftrightarrow> a < b"
  "mul64 a b = None \<longleftrightarrow> 2 ^ 64 \<le> a * b"
  by (auto simp: add64_def sub64_def mul64_def)

lemma checked_add64_None [simp]: "checked_add64 a b = None \<longleftrightarrow> 2 ^ 64 \<le> a + b"
  by (auto simp: checked_add64_def)

lemma saturating_add64_exact: "a + b < 2 ^ 64 \<Longrightarrow> saturating_add64 a b = a + b"
  by (simp add: saturating_add64_def)

section \<open>Loop rules\<close>

lemma run_for_append:
  "run_for body (xs @ ys) s = do { s' \<leftarrow> run_for body xs s; run_for body ys s' }"
  by (induction xs arbitrary: s) (auto simp: Option.bind_assoc)

lemma run_for_Ret_step:
  "run_for body xs s = Ret t \<Longrightarrow> x \<in> set xs \<Longrightarrow> \<exists>s' s''. body x s' = Ret s''"
  by (induction xs arbitrary: s) (auto split: bind_splits)

lemma run_for_sum:
  assumes "t < 2 ^ 64"
  shows "run_for (\<lambda>x t. add64 t (f x)) xs t =
    (if t + sum_list (map f xs) < 2 ^ 64 then Ret (t + sum_list (map f xs)) else Panic)"
  using assms
proof (induction xs arbitrary: t)
  case (Cons x xs)
  show ?case
  proof (cases "t + f x < 2 ^ 64")
    case True
    with Cons.IH [of "t + f x"] show ?thesis by (simp add: add64_def add.assoc)
  next
    case False
    then show ?thesis by (simp add: add64_def)
  qed
qed simp

lemma run_find_total:
  assumes "\<And>x. x \<in> set xs \<Longrightarrow> p x = Ret (q x)"
  shows "run_find p xs = Ret (find q xs)"
  using assms by (induction xs) auto

lemma run_count_total:
  assumes "\<And>x. x \<in> set xs \<Longrightarrow> p x = Ret (q x)"
  shows "run_count p xs = Ret (length (filter q xs))"
  using assms by (induction xs) auto

lemma run_find_Some_in:
  "run_find p xs = Ret (Some x) \<Longrightarrow> x \<in> set xs"
  by (induction xs) (auto split: bind_splits if_splits)

lemma run_find_Some_holds: "run_find p xs = Ret (Some x) \<Longrightarrow> p x = Ret True"
  by (induction xs) (auto split: bind_splits if_splits)

section \<open>Lists\<close>

lemma finite_below_Collect [simp]: "finite {k :: nat. k < n \<and> q k}"
  by (rule finite_subset [of _ "{..<n}"]) auto

lemma length_filter_upt: "length (filter q [0..<n]) = card {i. i < n \<and> q i}"
proof -
  have "distinct (filter q [0..<n])" by simp
  then have "length (filter q [0..<n]) = card (set (filter q [0..<n]))"
    by (simp only: distinct_card)
  also have "set (filter q [0..<n]) = {i. i < n \<and> q i}" by auto
  finally show ?thesis .
qed

lemma card_upd_True:
  fixes i n :: nat
  assumes "i < n" "\<not> q i"
  shows "card {k. k < n \<and> (q(i := True)) k} = Suc (card {k. k < n \<and> q k})"
proof -
  have "{k. k < n \<and> (q(i := True)) k} = insert i {k. k < n \<and> q k}"
    using assms by auto
  then show ?thesis using assms by simp
qed

lemma card_upd_False:
  fixes i n :: nat
  assumes "i < n" "q i"
  shows "card {k. k < n \<and> (q(i := False)) k} = card {k. k < n \<and> q k} - 1"
    and "0 < card {k. k < n \<and> q k}"
proof -
  have "{k. k < n \<and> (q(i := False)) k} = {k. k < n \<and> q k} - {i}"
    by auto
  with assms show "card {k. k < n \<and> (q(i := False)) k} = card {k. k < n \<and> q k} - 1"
    by simp
  show "0 < card {k. k < n \<and> q k}"
    using assms by (auto simp: card_gt_0_iff)
qed

lemma shifted_upt_subset: "(\<forall>i \<in> set [0..<n]. f + i \<in> A) \<longleftrightarrow> {f..<f + n} \<subseteq> A" for f :: nat
proof -
  have "(+) f ` set [0..<n] = {f..<f + n}" by (simp add: add.commute)
  then show ?thesis by (metis image_subset_iff)
qed

lemma find_upt_None_iff: "find q [i..<j] = None \<longleftrightarrow> (\<forall>k. i \<le> k \<and> k < j \<longrightarrow> \<not> q k)"
  by (auto simp: find_None_iff)

lemma find_upt_SomeD:
  assumes "find q [i..<j] = Some b"
  shows "i \<le> b" "b < j" "q b" "\<And>k. i \<le> k \<Longrightarrow> k < b \<Longrightarrow> \<not> q k"
proof -
  from assms obtain n where n: "n < length [i..<j]" "q ([i..<j] ! n)" "b = [i..<j] ! n"
      "\<forall>m<n. \<not> q ([i..<j] ! m)"
    by (auto simp: find_Some_iff)
  then have b: "b = i + n" "n < j - i" by auto
  with n show "i \<le> b" "b < j" "q b" by auto
  fix k assume "i \<le> k" "k < b"
  with b have "k - i < n" "[i..<j] ! (k - i) = k" by simp_all
  with n(4) show "\<not> q k" by metis
qed

section \<open>Memory as bytes\<close>

text \<open>\<^verbatim>\<open>ptr::write_bytes\<close> with zero and \<^verbatim>\<open>ptr::copy_nonoverlapping\<close> on bytes.\<close>

definition zero_bytes :: "(nat \<Rightarrow> 8 word) \<Rightarrow> nat \<Rightarrow> nat \<Rightarrow> nat \<Rightarrow> 8 word" where
  "zero_bytes mem start len p = (if start \<le> p \<and> p < start + len then 0 else mem p)"

definition copy_bytes :: "(nat \<Rightarrow> 8 word) \<Rightarrow> nat \<Rightarrow> 8 word list \<Rightarrow> nat \<Rightarrow> 8 word" where
  "copy_bytes mem start source p =
     (if start \<le> p \<and> p < start + length source then source ! (p - start) else mem p)"

section \<open>Bits of machine words\<close>

lemma word_and_single_bit:
  fixes w :: "64 word"
  assumes "n < 64"
  shows "w AND push_bit n 1 \<noteq> 0 \<longleftrightarrow> bit w n"
proof -
  have "w AND push_bit n 1 = (if bit w n then push_bit n 1 else 0)"
    by (rule bit_word_eqI) (auto simp: bit_simps)
  moreover have "push_bit n (1 :: 64 word) \<noteq> 0"
  proof -
    have "bit (push_bit n (1 :: 64 word)) n"
      using assms by (simp add: bit_simps)
    then show ?thesis by (metis bit_0_eq bot_apply bot_bool_def)
  qed
  ultimately show ?thesis by simp
qed

end
