(* ===== verification/Rust_Str.thy ===== *)
theory Rust_Str
  imports Loko_Prelude
begin

text \<open>
  Rust's \<^verbatim>\<open>&str\<close> as the sources use it. A string is the list of its Unicode scalar
  values; byte offsets, byte lengths and \<^verbatim>\<open>is_char_boundary\<close> are those of its UTF-8
  encoding, in which a scalar value takes one to four bytes. Slicing at an offset that is not a
  character boundary panics, which \<open>str_split_at\<close> reports as \<open>None\<close>.
\<close>

named_theorems str_simps \<open>splitting and joining of strings\<close>

section \<open>Strings and their UTF-8 lengths\<close>

type_synonym rchar = nat
type_synonym rstr = "rchar list"

definition str :: "string \<Rightarrow> rstr" where
  "str s = map of_char s"

definition char_len :: "rchar \<Rightarrow> nat" where
  "char_len c = (if c < 128 then 1 else if c < 2048 then 2 else if c < 65536 then 3 else 4)"

definition str_len :: "rstr \<Rightarrow> nat" where
  "str_len s = sum_list (map char_len s)"

fun str_split_at :: "rstr \<Rightarrow> nat \<Rightarrow> (rstr \<times> rstr) option" where
  "str_split_at s 0 = Some ([], s)"
| "str_split_at [] (Suc n) = None"
| "str_split_at (c # s) (Suc n) =
     (if Suc n < char_len c then None
      else map_option (\<lambda>(a, b). (c # a, b)) (str_split_at s (Suc n - char_len c)))"

definition is_char_boundary :: "rstr \<Rightarrow> nat \<Rightarrow> bool" where
  "is_char_boundary s n \<longleftrightarrow> str_split_at s n \<noteq> None"

text \<open>\<^verbatim>\<open>&s[..n]\<close> and \<^verbatim>\<open>&s[n..]\<close>.\<close>

definition str_to :: "rstr \<Rightarrow> nat \<Rightarrow> rstr run" where
  "str_to s n = map_option fst (str_split_at s n)"

definition str_from :: "rstr \<Rightarrow> nat \<Rightarrow> rstr run" where
  "str_from s n = map_option snd (str_split_at s n)"

section \<open>The string methods of the standard library the sources call\<close>

definition is_ascii :: "rstr \<Rightarrow> bool" where
  "is_ascii s \<longleftrightarrow> list_all (\<lambda>c. c < 128) s"

definition to_ascii_lowercase :: "rchar \<Rightarrow> rchar" where
  "to_ascii_lowercase c = (if 65 \<le> c \<and> c \<le> 90 then c + 32 else c)"

definition eq_ignore_ascii_case :: "rstr \<Rightarrow> rstr \<Rightarrow> bool" where
  "eq_ignore_ascii_case a b \<longleftrightarrow> map to_ascii_lowercase a = map to_ascii_lowercase b"

text \<open>\<^verbatim>\<open>char::is_control\<close>: the general category Cc.\<close>

definition is_control :: "rchar \<Rightarrow> bool" where
  "is_control c \<longleftrightarrow> c < 32 \<or> (127 \<le> c \<and> c < 160)"

definition contains_char :: "rstr \<Rightarrow> rchar \<Rightarrow> bool" where
  "contains_char s c \<longleftrightarrow> c \<in> set s"

fun contains_str :: "rstr \<Rightarrow> rstr \<Rightarrow> bool" where
  "contains_str [] pat \<longleftrightarrow> pat = []"
| "contains_str (c # s) pat \<longleftrightarrow> take (length pat) (c # s) = pat \<or> contains_str s pat"

definition starts_with :: "rstr \<Rightarrow> rstr \<Rightarrow> bool" where
  "starts_with s pat \<longleftrightarrow> take (length pat) s = pat"

definition ends_with_char :: "rstr \<Rightarrow> rchar \<Rightarrow> bool" where
  "ends_with_char s c \<longleftrightarrow> s \<noteq> [] \<and> last s = c"

fun strip_prefix_char :: "rstr \<Rightarrow> rchar \<Rightarrow> rstr option" where
  "strip_prefix_char [] d = None"
| "strip_prefix_char (c # s) d = (if c = d then Some s else None)"

definition strip_suffix_char :: "rstr \<Rightarrow> rchar \<Rightarrow> rstr option" where
  "strip_suffix_char s d = (if s \<noteq> [] \<and> last s = d then Some (butlast s) else None)"

text \<open>\<^verbatim>\<open>str::split(char)\<close>: always at least one piece.\<close>

fun split_char :: "rchar \<Rightarrow> rstr \<Rightarrow> rstr list" where
  "split_char d [] = [[]]"
| "split_char d (c # s) =
     (if c = d then [] # split_char d s
      else (c # hd (split_char d s)) # tl (split_char d s))"

text \<open>\<^verbatim>\<open>str::rfind(char)\<close>: the byte offset of the last occurrence.\<close>

fun rfind_char :: "rstr \<Rightarrow> rchar \<Rightarrow> nat option" where
  "rfind_char [] d = None"
| "rfind_char (c # s) d =
     (case rfind_char s d of
        Some n \<Rightarrow> Some (char_len c + n)
      | None \<Rightarrow> (if c = d then Some 0 else None))"

text \<open>The inverse of \<^const>\<open>split_char\<close>, used in specifications only.\<close>

fun join_with :: "rchar \<Rightarrow> rstr list \<Rightarrow> rstr" where
  "join_with d [] = []"
| "join_with d [p] = p"
| "join_with d (p # q # ps) = p @ d # join_with d (q # ps)"

section \<open>Lengths and slices\<close>

lemma char_len_pos [simp]: "0 < char_len c" and char_len_ge1: "1 \<le> char_len c"
  by (simp_all add: char_len_def)

lemma str_len_simps [simp]:
  "str_len [] = 0" "str_len (c # s) = char_len c + str_len s"
  "str_len (s @ t) = str_len s + str_len t"
  by (simp_all add: str_len_def)

lemma str_len_eq_0 [simp]: "str_len s = 0 \<longleftrightarrow> s = []"
  by (cases s) (auto simp: char_len_def)

lemma str_len_ascii: "list_all (\<lambda>c. c < 128) s \<Longrightarrow> str_len s = length s"
  by (induction s) (auto simp: char_len_def)

lemma str_split_at_append [simp]: "str_split_at (a @ b) (str_len a) = Some (a, b)"
proof (induction a)
  case (Cons c a)
  obtain n where n: "char_len c + str_len a = Suc n"
    using char_len_pos [of c] by (cases "char_len c + str_len a") (auto simp del: char_len_pos)
  then have "Suc n - char_len c = str_len a" "\<not> Suc n < char_len c" by simp_all
  with n Cons.IH show ?case by simp
qed simp

lemma str_split_at_SomeD:
  "str_split_at s n = Some (a, b) \<Longrightarrow> s = a @ b \<and> str_len a = n"
proof (induction s n arbitrary: a rule: str_split_at.induct)
  case (3 c s n)
  then show ?case by (auto split: if_splits)
qed auto

lemma str_to_append [simp]: "str_to (a @ b) (str_len a) = Ret a"
  and str_from_append [simp]: "str_from (a @ b) (str_len a) = Ret b"
  by (simp_all add: str_to_def str_from_def)

section \<open>Case-insensitive comparison\<close>

lemma eq_ignore_ascii_case_refl [simp]: "eq_ignore_ascii_case a a"
  and eq_ignore_ascii_case_sym: "eq_ignore_ascii_case a b \<Longrightarrow> eq_ignore_ascii_case b a"
  and eq_ignore_ascii_case_trans:
    "eq_ignore_ascii_case a b \<Longrightarrow> eq_ignore_ascii_case b c \<Longrightarrow> eq_ignore_ascii_case a c"
  by (simp_all add: eq_ignore_ascii_case_def)

lemma to_ascii_lowercase_ascii [simp]: "to_ascii_lowercase c < 128 \<longleftrightarrow> c < 128"
  by (simp add: to_ascii_lowercase_def)

lemma is_ascii_cong: "eq_ignore_ascii_case a b \<Longrightarrow> is_ascii a = is_ascii b"
proof -
  have *: "is_ascii x = list_all (\<lambda>c. c < 128) (map to_ascii_lowercase x)" for x
    by (simp add: is_ascii_def list_all_iff)
  show "eq_ignore_ascii_case a b \<Longrightarrow> is_ascii a = is_ascii b"
    unfolding * by (simp add: eq_ignore_ascii_case_def)
qed

section \<open>Splitting and joining\<close>

lemma split_char_not_Nil [simp]: "split_char d s \<noteq> []"
  by (cases s) auto

lemma join_with_Cons:
  "ps \<noteq> [] \<Longrightarrow> join_with d (p # ps) = p @ d # join_with d ps"
  by (cases ps) auto

lemma join_with_Cons_char: "join_with d ((c # p) # ps) = c # join_with d (p # ps)"
  by (cases ps) auto

lemma join_split [simp, str_simps]: "join_with d (split_char d s) = s"
proof (induction s)
  case (Cons c s)
  then show ?case
    by (auto simp: join_with_Cons join_with_Cons_char)
qed simp

lemma split_char_append_sep [str_simps]:
  "split_char d (a @ d # b) = split_char d a @ split_char d b"
proof (induction a)
  case (Cons c a)
  then show ?case by (auto simp: hd_append tl_append split: list.split)
qed simp

lemma split_char_no_occ [str_simps]: "d \<notin> set s \<Longrightarrow> split_char d s = [s]"
  by (induction s) auto

lemma split_join [str_simps]:
  "ps \<noteq> [] \<Longrightarrow> \<forall>p \<in> set ps. d \<notin> set p \<Longrightarrow> split_char d (join_with d ps) = ps"
proof (induction ps)
  case (Cons p ps)
  then show ?case
    by (cases ps) (auto simp: split_char_append_sep split_char_no_occ)
qed simp

lemma rfind_char_None [simp]: "rfind_char s d = None \<longleftrightarrow> d \<notin> set s"
  by (induction s) (auto split: option.splits)

lemma rfind_char_absent: "d \<notin> set s \<Longrightarrow> rfind_char s d = None"
  by simp

lemma strip_suffix_char_eq:
  "strip_suffix_char s d = Some t \<longleftrightarrow> s = t @ [d]"
  by (auto simp: strip_suffix_char_def dest: append_butlast_last_id)
    (metis butlast_snoc)

end
