(* ===== verification/Bitflags.thy ===== *)
theory Bitflags
  imports Loko_Prelude
begin

text \<open>
  The \<^verbatim>\<open>bitflags\<close> crate is a dependency whose source is not part of this repository.
  The three operations the sources call on a generated flags type are therefore a parameter of
  the model: a value \<open>api\<close> of the record below, passed to every definition that uses them.
  \<open>bitflags_laws\<close> states what the crate documents of them: \<^verbatim>\<open>contains\<close> is
  "all bits of the other value are set", \<^verbatim>\<open>intersects\<close> is "some bit of the other
  value is set", \<^verbatim>\<open>|\<close> is the bitwise or. The constants of a flags type are
  written in the sources and are modelled there.
\<close>

record bitflags_api =
  bf_contains :: "32 word \<Rightarrow> 32 word \<Rightarrow> bool"
  bf_intersects :: "32 word \<Rightarrow> 32 word \<Rightarrow> bool"
  bf_union :: "32 word \<Rightarrow> 32 word \<Rightarrow> 32 word"

definition bitflags_laws :: "bitflags_api \<Rightarrow> bool" where
  "bitflags_laws api \<longleftrightarrow>
     (\<forall>a b. bf_contains api a b = (a AND b = b)) \<and>
     (\<forall>a b. bf_intersects api a b = (a AND b \<noteq> 0)) \<and>
     (\<forall>a b. bf_union api a b = a OR b)"

text \<open>An instance that satisfies the laws, for the witnesses.\<close>

definition word_bitflags :: bitflags_api where
  "word_bitflags =
     \<lparr>bf_contains = (\<lambda>a b. a AND b = b),
      bf_intersects = (\<lambda>a b. a AND b \<noteq> 0),
      bf_union = (\<lambda>a b. a OR b)\<rparr>"

lemma word_bitflags_laws [simp]: "bitflags_laws word_bitflags"
  by (simp add: bitflags_laws_def word_bitflags_def)

lemma bitflags_simps:
  assumes "bitflags_laws api"
  shows "bf_contains api a b = (a AND b = b)"
    and "bf_intersects api a b = (a AND b \<noteq> 0)"
    and "bf_union api a b = a OR b"
  using assms by (simp_all add: bitflags_laws_def)

lemma contains_trans:
  assumes "bitflags_laws api" "bf_contains api a b" "bf_contains api b c"
  shows "bf_contains api a c"
proof -
  from assms have "a AND b = b" "b AND c = c" by (simp_all add: bitflags_simps)
  then have "a AND c = a AND (b AND c)" and "(a AND b) AND c = c" by simp_all
  then show ?thesis using assms(1) by (simp add: bitflags_simps and.assoc)
qed

end
