(* ===== verification/Boot_Protocol.thy ===== *)
theory Boot_Protocol
  imports Rust_Str Bitflags
begin

text \<open>
  The boot protocol, \<^verbatim>\<open>src/boot/loko-boot-protocol/src/lib.rs\<close>: the memory map, the
  framebuffer description and the \<^verbatim>\<open>BootInfo\<close> block that the bootloader hands to the
  kernel, with the checks the kernel runs before it trusts any of it. The array that
  \<^verbatim>\<open>memory_map\<close> points to is read through \<open>mem\<close>, the memory the caller of
  the unsafe methods vouches for.
\<close>

section \<open>Constants\<close>

primrec from_le_bytes :: "nat list \<Rightarrow> nat" where
  "from_le_bytes [] = 0"
| "from_le_bytes (b # bs) = b + 256 * from_le_bytes bs"

definition BOOT_MAGIC :: nat where
  "BOOT_MAGIC = from_le_bytes (str ''LOKOBOOT'')"

definition DEFAULT_PHYSICAL_MEMORY_OFFSET :: nat where
  "DEFAULT_PHYSICAL_MEMORY_OFFSET = 0xFFFF800000000000"

definition KERNEL_VIRTUAL_BASE :: nat where
  "KERNEL_VIRTUAL_BASE = 0xFFFFFFFF80000000"

definition PROTOCOL_VERSION_MAJOR :: nat where
  "PROTOCOL_VERSION_MAJOR = 0"

definition PROTOCOL_VERSION_MINOR :: nat where
  "PROTOCOL_VERSION_MINOR = 1"

section \<open>The memory map\<close>

datatype MemoryKind =
    Usable | Reserved | BootloaderReclaimable | KernelAndModules
  | AcpiReclaimable | AcpiNvs | BadMemory | Framebuffer

fun usable_at_handoff :: "MemoryKind \<Rightarrow> bool" where
  "usable_at_handoff Usable = True"
| "usable_at_handoff _ = False"

fun eventually_reclaimable :: "MemoryKind \<Rightarrow> bool" where
  "eventually_reclaimable Usable = True"
| "eventually_reclaimable BootloaderReclaimable = True"
| "eventually_reclaimable AcpiReclaimable = True"
| "eventually_reclaimable _ = False"

record MemoryRegion =
  mr_start :: nat
  mr_len :: nat
  mr_kind :: MemoryKind
  mr_reserved :: nat

definition region_end :: "MemoryRegion \<Rightarrow> nat" where
  "region_end r = saturating_add64 (mr_start r) (mr_len r)"

definition frame_count :: "MemoryRegion \<Rightarrow> nat" where
  "frame_count r = mr_len r div 4096"

definition region_contains :: "MemoryRegion \<Rightarrow> nat \<Rightarrow> bool" where
  "region_contains r address \<longleftrightarrow> mr_start r \<le> address \<and> address < region_end r"

section \<open>The framebuffer\<close>

datatype PixelFormat = Bgrx8888 | Rgbx8888

definition bytes_per_pixel :: "PixelFormat \<Rightarrow> nat" where
  "bytes_per_pixel f = 4"

record Framebuffer =
  fb_base :: nat
  fb_size :: nat
  fb_width :: nat
  fb_height :: nat
  fb_stride_bytes :: nat
  fb_format :: PixelFormat

definition Framebuffer_NONE :: Framebuffer where
  "Framebuffer_NONE =
     \<lparr>fb_base = 0, fb_size = 0, fb_width = 0, fb_height = 0, fb_stride_bytes = 0,
      fb_format = Bgrx8888\<rparr>"

definition is_present :: "Framebuffer \<Rightarrow> bool" where
  "is_present fb \<longleftrightarrow> fb_base fb \<noteq> 0 \<and> fb_size fb \<noteq> 0"

text \<open>
  \<^verbatim>\<open>y as u64 * self.stride_bytes as u64 + x as u64 * 4\<close> is checked arithmetic: it
  panics when it passes the range of a \<^verbatim>\<open>u64\<close>.
\<close>

definition pixel_offset :: "Framebuffer \<Rightarrow> nat \<Rightarrow> nat \<Rightarrow> nat option run" where
  "pixel_offset fb x y =
     (if x \<ge> fb_width fb \<or> y \<ge> fb_height fb then Ret None
      else do {
        row \<leftarrow> mul64 y (fb_stride_bytes fb);
        col \<leftarrow> mul64 x 4;
        offset \<leftarrow> add64 row col;
        if saturating_add64 offset 4 > fb_size fb then Ret None
        else Ret (Some offset)
      })"

section \<open>Boot flags and the boot information block\<close>

definition BootFlags_RECOVERY :: "32 word" where
  "BootFlags_RECOVERY = push_bit 0 1"

definition BootFlags_SAFE_GRAPHICS :: "32 word" where
  "BootFlags_SAFE_GRAPHICS = push_bit 1 1"

definition BootFlags_VERBOSE :: "32 word" where
  "BootFlags_VERBOSE = push_bit 2 1"

definition BootFlags_SECURE_BOOT :: "32 word" where
  "BootFlags_SECURE_BOOT = push_bit 3 1"

definition BootFlags_PREVIOUS_FAILED :: "32 word" where
  "BootFlags_PREVIOUS_FAILED = push_bit 4 1"

record BootInfo =
  bi_magic :: nat
  bi_version_major :: nat
  bi_version_minor :: nat
  bi_size :: nat
  bi_memory_map :: nat
  bi_memory_map_len :: nat
  bi_physical_memory_offset :: nat
  bi_rsdp_addr :: nat
  bi_kernel_physical_base :: nat
  bi_kernel_virtual_base :: nat
  bi_kernel_size :: nat
  bi_framebuffer :: Framebuffer
  bi_flags :: "32 word"
  bi_reserved :: nat

text \<open>
  \<^verbatim>\<open>core::mem::size_of::<BootInfo>()\<close> for the \<^verbatim>\<open>#[repr(C)]\<close> layout: eight
  bytes of magic, two of each version, four of size, eight for each of the seven 64-bit fields
  from \<^verbatim>\<open>memory_map\<close> to \<^verbatim>\<open>kernel_size\<close>, the 32-byte framebuffer, four of flags
  and four of padding.
\<close>

definition size_of_Framebuffer :: nat where
  "size_of_Framebuffer = 8 + 8 + 4 + 4 + 4 + 4"

definition size_of_BootInfo :: nat where
  "size_of_BootInfo = 8 + 2 + 2 + 4 + 7 * 8 + size_of_Framebuffer + 4 + 4"

datatype BootInfoError =
    BadMagic
  | VersionMismatch nat nat
  | TooSmall
  | NoMemoryMap
  | MalformedRegion
  | UnsortedMemoryMap
  | NoUsableMemory
  | MisalignedPhysicalOffset

fun BootInfoError_message :: "BootInfoError \<Rightarrow> rstr" where
  "BootInfoError_message BadMagic =
     str ''LokoOS could not start: the bootloader and the system don't match.''"
| "BootInfoError_message (VersionMismatch _ _) =
     str ''LokoOS could not start: the bootloader is a different version from the system. Run Loko Recovery and choose Repair Bootloader.''"
| "BootInfoError_message TooSmall =
     str ''LokoOS could not start: the bootloader is older than the system. Run Loko Recovery and choose Repair Bootloader.''"
| "BootInfoError_message NoMemoryMap =
     str ''LokoOS could not start: this device's firmware did not report any usable memory.''"
| "BootInfoError_message NoUsableMemory =
     str ''LokoOS could not start: this device's firmware did not report any usable memory.''"
| "BootInfoError_message MalformedRegion =
     str ''LokoOS could not start: this device's firmware reported its memory incorrectly.''"
| "BootInfoError_message UnsortedMemoryMap =
     str ''LokoOS could not start: this device's firmware reported its memory incorrectly.''"
| "BootInfoError_message MisalignedPhysicalOffset =
     str ''LokoOS could not start: the bootloader set up memory incorrectly.''"

section \<open>Validation\<close>

text \<open>
  The loop of \<^verbatim>\<open>validate_memory_map\<close>, with its two mutable variables
  \<^verbatim>\<open>previous_end\<close> and \<^verbatim>\<open>any_usable\<close> as arguments.
\<close>

fun validate_regions :: "nat \<Rightarrow> bool \<Rightarrow> MemoryRegion list \<Rightarrow> BootInfoError + bool" where
  "validate_regions previous_end any_usable [] = Inr any_usable"
| "validate_regions previous_end any_usable (region # regions) =
     (if mr_len region = 0 \<or> mr_start region mod 4096 \<noteq> 0 \<or> mr_len region mod 4096 \<noteq> 0
      then Inl MalformedRegion
      else if checked_add64 (mr_start region) (mr_len region) = None
      then Inl MalformedRegion
      else if mr_start region < previous_end
      then Inl UnsortedMemoryMap
      else validate_regions (region_end region)
             (any_usable \<or> usable_at_handoff (mr_kind region)) regions)"

definition validate_memory_map :: "MemoryRegion list \<Rightarrow> BootInfoError + unit" where
  "validate_memory_map regions =
     (if regions = [] then Inl NoMemoryMap
      else case validate_regions 0 False regions of
             Inl e \<Rightarrow> Inl e
           | Inr any_usable \<Rightarrow> if \<not> any_usable then Inl NoUsableMemory else Inr ())"

text \<open>
  The memory behind a pointer: \<open>mem p n\<close> is the array of \<open>n\<close> regions at address
  \<open>p\<close> that \<^verbatim>\<open>slice::from_raw_parts\<close> gives access to.
\<close>

type_synonym region_memory = "nat \<Rightarrow> nat \<Rightarrow> MemoryRegion list"

definition BootInfo_validate :: "region_memory \<Rightarrow> BootInfo \<Rightarrow> BootInfoError + unit" where
  "BootInfo_validate mem info =
     (if bi_magic info \<noteq> BOOT_MAGIC then Inl BadMagic
      else if bi_version_major info \<noteq> PROTOCOL_VERSION_MAJOR
      then Inl (VersionMismatch (bi_version_major info) PROTOCOL_VERSION_MAJOR)
      else if bi_size info < size_of_BootInfo then Inl TooSmall
      else if bi_memory_map info = 0 \<or> bi_memory_map_len info = 0 then Inl NoMemoryMap
      else if bi_physical_memory_offset info mod 4096 \<noteq> 0 then Inl MisalignedPhysicalOffset
      else validate_memory_map (mem (bi_memory_map info) (bi_memory_map_len info)))"

definition usable_bytes :: "region_memory \<Rightarrow> BootInfo \<Rightarrow> nat run" where
  "usable_bytes mem info =
     run_for (\<lambda>r total. add64 total (mr_len r))
       (filter (\<lambda>r. usable_at_handoff (mr_kind r))
         (mem (bi_memory_map info) (bi_memory_map_len info))) 0"

section \<open>What a validated memory map is\<close>

definition region_ok :: "MemoryRegion \<Rightarrow> bool" where
  "region_ok r \<longleftrightarrow> 0 < mr_len r \<and> mr_start r mod 4096 = 0 \<and> mr_len r mod 4096 = 0 \<and>
     mr_start r + mr_len r < 2 ^ 64"

definition ends_before :: "MemoryRegion \<Rightarrow> MemoryRegion \<Rightarrow> bool" where
  "ends_before a b \<longleftrightarrow> mr_start a + mr_len a \<le> mr_start b"

definition memory_map_spec :: "MemoryRegion list \<Rightarrow> bool" where
  "memory_map_spec regions \<longleftrightarrow>
     regions \<noteq> [] \<and> (\<forall>r \<in> set regions. region_ok r) \<and> sorted_wrt ends_before regions \<and>
     (\<exists>r \<in> set regions. mr_kind r = Usable)"

lemma region_end_exact: "mr_start r + mr_len r < 2 ^ 64 \<Longrightarrow> region_end r = mr_start r + mr_len r"
  by (simp add: region_end_def saturating_add64_exact)

lemma usable_at_handoff_iff [simp]: "usable_at_handoff k \<longleftrightarrow> k = Usable"
  by (cases k) simp_all

lemma region_check_iff:
  "\<not> (mr_len r = 0 \<or> mr_start r mod 4096 \<noteq> 0 \<or> mr_len r mod 4096 \<noteq> 0) \<and>
     checked_add64 (mr_start r) (mr_len r) \<noteq> None \<longleftrightarrow> region_ok r"
  by (auto simp: region_ok_def)

lemma validate_regions_Inr:
  "validate_regions pe u rs = Inr v \<longleftrightarrow>
     (\<forall>r \<in> set rs. region_ok r \<and> pe \<le> mr_start r) \<and> sorted_wrt ends_before rs \<and>
     v = (u \<or> (\<exists>r \<in> set rs. mr_kind r = Usable))"
proof (induction pe u rs rule: validate_regions.induct)
  case (2 pe u r rs)
  show ?case
  proof (cases "region_ok r \<and> pe \<le> mr_start r")
    case True
    then have ok: "region_ok r" and pe: "\<not> mr_start r < pe" by auto
    from ok have c: "checked_add64 (mr_start r) (mr_len r) \<noteq> None"
        "\<not> (mr_len r = 0 \<or> mr_start r mod 4096 \<noteq> 0 \<or> mr_len r mod 4096 \<noteq> 0)"
      using region_check_iff by blast+
    have e: "region_end r = mr_start r + mr_len r"
      using ok by (simp add: region_end_exact region_ok_def)
    have eq: "validate_regions pe u (r # rs) =
        validate_regions (region_end r) (u \<or> usable_at_handoff (mr_kind r)) rs"
      using c pe by simp
    have ge: "\<And>x. mr_start r + mr_len r \<le> mr_start x \<Longrightarrow> pe \<le> mr_start x"
      using True by simp
    show ?thesis
      unfolding eq "2.IH" [OF c(2) c(1) pe]
      using True e by (auto simp: ends_before_def [of r] dest: ge)
  next
    case False
    then show ?thesis by (auto simp: region_ok_def)
  qed
qed auto

lemma validate_memory_map_iff:
  "validate_memory_map regions = Inr () \<longleftrightarrow> memory_map_spec regions"
proof (cases "validate_regions 0 False regions")
  case (Inl e)
  then have "\<not> ((\<forall>r \<in> set regions. region_ok r) \<and> sorted_wrt ends_before regions)"
    using validate_regions_Inr [of 0 False regions] by auto
  with Inl show ?thesis by (auto simp: validate_memory_map_def memory_map_spec_def)
next
  case (Inr v)
  then have "(\<forall>r \<in> set regions. region_ok r) \<and> sorted_wrt ends_before regions \<and>
      v = (\<exists>r \<in> set regions. mr_kind r = Usable)"
    using validate_regions_Inr [of 0 False regions v] by auto
  with Inr show ?thesis by (auto simp: validate_memory_map_def memory_map_spec_def)
qed

text \<open>
  C33. \<^verbatim>\<open>validate_memory_map\<close> accepts exactly the maps the protocol asks for: a non-empty
  list of non-empty, 4 KiB aligned regions that do not wrap the address space, sorted by address
  without overlap, with at least one usable region.
\<close>

theorem validate_memory_map_correct:
  "validate_memory_map regions = Inr () \<longleftrightarrow> memory_map_spec regions"
  by (rule validate_memory_map_iff)

text \<open>
  In a map the validator accepted, no physical address belongs to two entries: the regions
  the kernel treats differently (usable, reserved, in use by the bootloader) are disjoint.
\<close>

theorem validated_regions_disjoint:
  assumes "validate_memory_map regions = Inr ()"
    and "i < length regions" "j < length regions" "i \<noteq> j"
    and "region_contains (regions ! i) address"
  shows "\<not> region_contains (regions ! j) address"
proof -
  have spec: "memory_map_spec regions"
    using assms(1) by (simp add: validate_memory_map_iff)
  then have ok: "\<And>k. k < length regions \<Longrightarrow> region_end (regions ! k) =
      mr_start (regions ! k) + mr_len (regions ! k)"
    by (simp add: memory_map_spec_def region_ok_def region_end_exact)
  have before: "\<And>a b. a < b \<Longrightarrow> b < length regions \<Longrightarrow> ends_before (regions ! a) (regions ! b)"
    using spec by (simp add: memory_map_spec_def sorted_wrt_iff_nth_less)
  from assms(4) have "i < j \<or> j < i" by auto
  then show ?thesis
    using assms(2,3,5) ok before [of i j] before [of j i]
    by (auto simp: region_contains_def ends_before_def)
qed

theorem validated_regions_disjoint_witness:
  "\<not> region_contains
      ([\<lparr>mr_start = 0, mr_len = 0x1000, mr_kind = Reserved, mr_reserved = 0\<rparr>,
        \<lparr>mr_start = 0x1000, mr_len = 0x2000, mr_kind = Usable, mr_reserved = 0\<rparr>] ! 1) 0xFFF"
proof -
  let ?m = "[\<lparr>mr_start = 0, mr_len = 0x1000, mr_kind = Reserved, mr_reserved = 0\<rparr>,
        \<lparr>mr_start = 0x1000, mr_len = 0x2000, mr_kind = Usable, mr_reserved = 0\<rparr>] :: MemoryRegion list"
  have v: "validate_memory_map ?m = Inr ()"
    by (simp add: validate_memory_map_def checked_add64_def region_end_def saturating_add64_def)
  have c: "region_contains (?m ! 0) 0xFFF"
    by (simp add: region_contains_def region_end_def saturating_add64_def)
  show ?thesis using validated_regions_disjoint [OF v _ _ _ c, of 1] by simp
qed

lemma sum_region_lens:
  assumes "\<forall>r \<in> set rs. region_ok r \<and> pe \<le> mr_start r" "sorted_wrt ends_before rs" "pe < 2 ^ 64"
  shows "pe + sum_list (map mr_len rs) < 2 ^ 64"
  using assms
proof (induction rs arbitrary: pe)
  case (Cons r rs)
  then have r: "pe \<le> mr_start r" "mr_start r + mr_len r < 2 ^ 64"
    by (auto simp: region_ok_def)
  have "mr_start r + mr_len r + sum_list (map mr_len rs) < 2 ^ 64"
    using Cons.prems r(2) by (intro Cons.IH) (auto simp: ends_before_def [of r])
  with r(1) show ?case by simp
qed simp

text \<open>
  The kernel's measure of usable memory cannot overflow once the map has been validated:
  \<^verbatim>\<open>usable_bytes\<close> returns, and returns the positive sum of the lengths of the usable
  regions.
\<close>

theorem usable_bytes_validated:
  assumes "BootInfo_validate mem info = Inr ()"
  shows "\<exists>n. usable_bytes mem info = Ret n \<and> 0 < n \<and> n < 2 ^ 64 \<and>
    n = sum_list (map mr_len (filter (\<lambda>r. mr_kind r = Usable)
          (mem (bi_memory_map info) (bi_memory_map_len info))))"
proof -
  let ?rs = "mem (bi_memory_map info) (bi_memory_map_len info)"
  let ?us = "filter (\<lambda>r. mr_kind r = Usable) ?rs"
  have spec: "memory_map_spec ?rs"
    using assms by (auto simp: BootInfo_validate_def validate_memory_map_iff split: if_splits)
  have "0 + sum_list (map mr_len ?rs) < 2 ^ 64"
    using spec by (intro sum_region_lens) (auto simp: memory_map_spec_def)
  then have b: "sum_list (map mr_len ?us) < 2 ^ 64"
    using sum_list_filter_le_nat [of mr_len "\<lambda>r. mr_kind r = Usable" ?rs] by linarith
  obtain r where r: "r \<in> set ?us" "0 < mr_len r"
    using spec by (auto simp: memory_map_spec_def region_ok_def)
  then have "mr_len r \<le> sum_list (map mr_len ?us)"
    by (intro member_le_sum_list) auto
  with r have "0 < sum_list (map mr_len ?us)" by linarith
  moreover have "usable_bytes mem info = Ret (sum_list (map mr_len ?us))"
    using b by (simp add: usable_bytes_def run_for_sum)
  ultimately show ?thesis using b by blast
qed

text \<open>A one-region machine, for the witnesses.\<close>

definition small_map :: region_memory where
  "small_map p n = [\<lparr>mr_start = 0x1000, mr_len = 0x2000, mr_kind = Usable, mr_reserved = 0\<rparr>]"

definition small_info :: BootInfo where
  "small_info = \<lparr>bi_magic = BOOT_MAGIC, bi_version_major = 0, bi_version_minor = 1, bi_size = 112,
     bi_memory_map = 0x8000, bi_memory_map_len = 1, bi_physical_memory_offset = 0,
     bi_rsdp_addr = 0, bi_kernel_physical_base = 0, bi_kernel_virtual_base = 0,
     bi_kernel_size = 0, bi_framebuffer = Framebuffer_NONE, bi_flags = 0, bi_reserved = 0\<rparr>"

lemma small_info_valid: "BootInfo_validate small_map small_info = Inr ()"
  by (simp add: BootInfo_validate_def PROTOCOL_VERSION_MAJOR_def size_of_BootInfo_def
    size_of_Framebuffer_def validate_memory_map_def checked_add64_def small_map_def small_info_def)

theorem usable_bytes_validated_witness:
  "\<exists>n. usable_bytes small_map small_info = Ret n \<and> 0 < n \<and> n < 2 ^ 64"
  using usable_bytes_validated [OF small_info_valid] by blast

section \<open>Painting inside the framebuffer\<close>

text \<open>A 1920 by 1080 surface, for the witnesses.\<close>

definition full_hd :: Framebuffer where
  "full_hd = \<lparr>fb_base = 0xE0000000, fb_size = 8294400, fb_width = 1920, fb_height = 1080,
     fb_stride_bytes = 7680, fb_format = Bgrx8888\<rparr>"

lemma pixel_offset_eq:
  "pixel_offset fb x y =
     (if x \<ge> fb_width fb \<or> y \<ge> fb_height fb then Ret None
      else if y * fb_stride_bytes fb + x * 4 \<ge> 2 ^ 64 then Panic
      else if saturating_add64 (y * fb_stride_bytes fb + x * 4) 4 > fb_size fb then Ret None
      else Ret (Some (y * fb_stride_bytes fb + x * 4)))"
  by (auto simp: pixel_offset_def mul64_def add64_def)

text \<open>
  The four bytes of a pixel that \<^verbatim>\<open>pixel_offset\<close> accepts lie inside the visible
  area and inside the buffer, whatever stride and size the firmware reported, for every buffer
  smaller than \<open>2 ^ 64 - 1\<close> bytes.
\<close>

theorem pixel_offset_in_bounds:
  assumes "fb_size fb < 2 ^ 64 - 1" "pixel_offset fb x y = Ret (Some offset)"
  shows "x < fb_width fb \<and> y < fb_height fb \<and>
    offset = y * fb_stride_bytes fb + x * 4 \<and> offset + bytes_per_pixel (fb_format fb) \<le> fb_size fb"
proof -
  let ?o = "y * fb_stride_bytes fb + x * 4"
  from assms(2) have o: "x < fb_width fb" "y < fb_height fb" "offset = ?o"
      "\<not> saturating_add64 ?o 4 > fb_size fb"
    by (auto simp: pixel_offset_eq split: if_splits)
  with assms(1) have "?o + 4 \<le> fb_size fb"
    by (simp add: saturating_add64_def min_def split: if_splits)
  with o show ?thesis by (simp add: bytes_per_pixel_def)
qed

theorem pixel_offset_in_bounds_witness:
  "pixel_offset full_hd 1 1 = Ret (Some 7684) \<and>
   7684 + bytes_per_pixel (fb_format full_hd) \<le> fb_size full_hd"
proof -
  have s: "fb_size full_hd < 2 ^ 64 - 1" by (simp add: full_hd_def)
  have o: "pixel_offset full_hd 1 1 = Ret (Some 7684)"
    by (simp add: pixel_offset_eq saturating_add64_def full_hd_def)
  show ?thesis using o pixel_offset_in_bounds [OF s o] by blast
qed

text \<open>
  With a stride that covers a row, two different pixels never share a byte, so painting one
  pixel leaves every other pixel as it was.
\<close>

theorem pixel_offset_disjoint:
  assumes "4 * fb_width fb \<le> fb_stride_bytes fb"
    and "pixel_offset fb x y = Ret (Some a)" "pixel_offset fb x' y' = Ret (Some b)"
    and "(x, y) \<noteq> (x', y')"
  shows "a + 4 \<le> b \<or> b + 4 \<le> a"
proof -
  let ?s = "fb_stride_bytes fb"
  have rows: "v * ?s + u * 4 + 4 \<le> v' * ?s" if "v < v'" "u < fb_width fb" for u v v' :: nat
  proof -
    have "v * ?s + u * 4 + 4 \<le> v * ?s + ?s" using that(2) assms(1) by linarith
    also have "\<dots> = Suc v * ?s" by simp
    also have "\<dots> \<le> v' * ?s" using that(1) by (intro mult_le_mono1) simp
    finally show ?thesis .
  qed
  have ab: "a = y * ?s + x * 4" "b = y' * ?s + x' * 4" "x < fb_width fb" "x' < fb_width fb"
    using assms(2,3) by (auto simp: pixel_offset_eq split: if_splits)
  consider "y < y'" | "y' < y" | "y = y'" "x < x'" | "y = y'" "x' < x"
    using assms(4) by fastforce
  then show ?thesis
  proof cases
    case 1
    then show ?thesis using rows [of y y' x] ab by linarith
  next
    case 2
    then show ?thesis using rows [of y' y x'] ab by linarith
  next
    case 3
    then show ?thesis using ab by simp
  next
    case 4
    then show ?thesis using ab by simp
  qed
qed

theorem pixel_offset_disjoint_witness:
  "pixel_offset full_hd 0 0 = Ret (Some 0) \<and> pixel_offset full_hd 1 0 = Ret (Some 4) \<and>
   (0 + 4 \<le> (4 :: nat) \<or> 4 + 4 \<le> (0 :: nat))"
proof -
  have w: "4 * fb_width full_hd \<le> fb_stride_bytes full_hd" by (simp add: full_hd_def)
  have o: "pixel_offset full_hd 0 0 = Ret (Some 0)" "pixel_offset full_hd 1 0 = Ret (Some 4)"
    by (simp_all add: pixel_offset_eq saturating_add64_def full_hd_def)
  show ?thesis using o pixel_offset_disjoint [OF w o] by simp
qed

text \<open>
  The checked arithmetic itself is the one way \<^verbatim>\<open>pixel_offset\<close> can stop the kernel: with
  32-bit fields at their limits the byte offset passes the range of a \<^verbatim>\<open>u64\<close>, and the
  function panics where its contract promises \<^verbatim>\<open>None\<close>. Any surface with fewer than
  \<open>2 ^ 31\<close> rows is safe.
\<close>

lemma pixel_offset_overflow:
  "pixel_offset
     \<lparr>fb_base = 1, fb_size = 4096, fb_width = 2 ^ 32 - 1, fb_height = 2 ^ 32 - 1,
      fb_stride_bytes = 2 ^ 32 - 1, fb_format = Bgrx8888\<rparr> (2 ^ 32 - 2) (2 ^ 32 - 2) = Panic"
  by (simp add: pixel_offset_eq)

lemma pixel_offset_returns:
  assumes "fb_width fb < 2 ^ 32" "fb_stride_bytes fb < 2 ^ 32" "fb_height fb < 2 ^ 31"
  shows "pixel_offset fb x y \<noteq> Panic"
proof (cases "x < fb_width fb \<and> y < fb_height fb")
  case True
  then have "y * fb_stride_bytes fb \<le> 2 ^ 31 * 2 ^ 32"
    using assms by (intro mult_le_mono) auto
  moreover have "x * 4 < 2 ^ 34" using True assms by simp
  ultimately have "y * fb_stride_bytes fb + x * 4 < 2 ^ 64" by simp
  then show ?thesis by (simp add: pixel_offset_eq)
qed (auto simp: pixel_offset_eq)

lemma BootInfoError_message_shape:
  "starts_with (BootInfoError_message e) (str ''LokoOS could not start:'') \<and>
   ends_with_char (BootInfoError_message e) 46 \<and>
   \<not> contains_str (BootInfoError_message e) (str ''0x'')"
  by (cases e) (simp_all add: str_def starts_with_def ends_with_char_def)

end
