(* ===== verification/Paging.thy ===== *)
theory Paging
  imports Rust_Str "HOL-Library.Sublist"
begin

text \<open>
  The page tables the bootloader builds, \<^verbatim>\<open>src/boot/loko-boot/src/paging.rs\<close>. A table entry
  is a 64-bit word; the memory the tables are written to is a function from the address of an entry to
  its value, and is part of the state. An operation that fails may already have taken frames and written
  entries, so the result of an operation is paired with the state it leaves.

  What the tables mean is given by \<open>translate\<close>, the four-level walk of an x86-64 processor with
  no-execute enabled. Each mapping operation is shown to add exactly the mapping it was asked for.
\<close>

section \<open>Entries, permissions and errors\<close>

definition bits_PRESENT :: "64 word" where
  "bits_PRESENT = push_bit 0 1"

definition bits_WRITABLE :: "64 word" where
  "bits_WRITABLE = push_bit 1 1"

definition bits_HUGE :: "64 word" where
  "bits_HUGE = push_bit 7 1"

definition bits_NO_EXECUTE :: "64 word" where
  "bits_NO_EXECUTE = push_bit 63 1"

definition ADDRESS_MASK :: "64 word" where
  "ADDRESS_MASK = 0x000FFFFFFFFFF000"

definition PAGE_SIZE :: nat where
  "PAGE_SIZE = 4096"

definition HUGE_PAGE_SIZE :: nat where
  "HUGE_PAGE_SIZE = 2 * 1024 * 1024"

record PagePermissions =
  pp_writable :: bool
  pp_executable :: bool

definition READ_ONLY :: PagePermissions where
  "READ_ONLY = \<lparr>pp_writable = False, pp_executable = False\<rparr>"

definition READ_WRITE :: PagePermissions where
  "READ_WRITE = \<lparr>pp_writable = True, pp_executable = False\<rparr>"

definition READ_EXECUTE :: PagePermissions where
  "READ_EXECUTE = \<lparr>pp_writable = False, pp_executable = True\<rparr>"

definition to_bits :: "PagePermissions \<Rightarrow> 64 word" where
  "to_bits p =
     (let flags = bits_PRESENT;
          flags = (if pp_writable p then flags OR bits_WRITABLE else flags);
          flags = (if \<not> pp_executable p then flags OR bits_NO_EXECUTE else flags)
      in flags)"

datatype PagingError = ArenaExhausted | Conflict | Misaligned

fun PagingError_message :: "PagingError \<Rightarrow> rstr" where
  "PagingError_message ArenaExhausted =
     str ''LokoOS couldn't start: there isn't enough memory in this device to set it up.''"
| "PagingError_message Conflict =
     str ''LokoOS couldn't start: it was unable to set up this device's memory.''"
| "PagingError_message Misaligned =
     str ''LokoOS couldn't start: it was unable to set up this device's memory.''"

section \<open>Tables under construction\<close>

record PageTables =
  pt_pml4 :: nat
  pt_arena_base :: nat
  pt_arena_frames :: nat
  pt_next_frame :: nat
  pt_mem :: "nat \<Rightarrow> 64 word"

type_synonym 'a paging = "PageTables \<Rightarrow> ((PagingError + 'a) \<times> PageTables) run"

text \<open>The \<^verbatim>\<open>?\<close> operator: stop with the error, in the state reached, or go on.\<close>

definition and_then :: "'a paging \<Rightarrow> ('a \<Rightarrow> 'b paging) \<Rightarrow> 'b paging" where
  "and_then m f t = do {
     (r, t') \<leftarrow> m t;
     case r of Inl e \<Rightarrow> Ret (Inl e, t') | Inr x \<Rightarrow> f x t'
   }"

text \<open>A \<^verbatim>\<open>for\<close> loop whose body ends in \<^verbatim>\<open>?\<close>.\<close>

primrec try_for :: "('x \<Rightarrow> unit paging) \<Rightarrow> 'x list \<Rightarrow> unit paging" where
  "try_for body [] t = Ret (Inr (), t)"
| "try_for body (x # xs) t = and_then (body x) (\<lambda>_. try_for body xs) t"

definition take_frame :: "nat paging" where
  "take_frame t =
     (if pt_next_frame t \<ge> pt_arena_frames t then Ret (Inl ArenaExhausted, t)
      else do {
        offset \<leftarrow> mul64 (pt_next_frame t) PAGE_SIZE;
        address \<leftarrow> add64 (pt_arena_base t) offset;
        next \<leftarrow> add64 (pt_next_frame t) 1;
        Ret (Inr address, t\<lparr>pt_next_frame := next\<rparr>)
      })"

text \<open>\<open>mem\<close> is the memory before the call; the arena is zeroed in it.\<close>

definition PageTables_new :: "(nat \<Rightarrow> 64 word) \<Rightarrow> nat \<Rightarrow> nat \<Rightarrow> (PagingError + PageTables) run" where
  "PageTables_new mem arena_base arena_frames =
     (if arena_base mod PAGE_SIZE \<noteq> 0 \<or> arena_frames = 0 then Ret (Inl Misaligned)
      else do {
        bytes \<leftarrow> mul64 arena_frames PAGE_SIZE;
        (r, t) \<leftarrow> take_frame
          \<lparr>pt_pml4 = 0, pt_arena_base = arena_base, pt_arena_frames = arena_frames, pt_next_frame = 0,
           pt_mem = (\<lambda>p. if arena_base \<le> p \<and> p < arena_base + bytes then 0 else mem p)\<rparr>;
        Ret (case r of Inl e \<Rightarrow> Inl e | Inr frame \<Rightarrow> Inr (t\<lparr>pt_pml4 := frame\<rparr>))
      })"

definition cr3_value :: "PageTables \<Rightarrow> nat" where
  "cr3_value t = pt_pml4 t"

definition frames_used :: "PageTables \<Rightarrow> nat" where
  "frames_used t = pt_next_frame t"

definition read_entry :: "PageTables \<Rightarrow> nat \<Rightarrow> nat \<Rightarrow> 64 word" where
  "read_entry t table index = pt_mem t (table + 8 * index)"

definition write_entry :: "PageTables \<Rightarrow> nat \<Rightarrow> nat \<Rightarrow> 64 word \<Rightarrow> PageTables" where
  "write_entry t table index value = t\<lparr>pt_mem := (pt_mem t)(table + 8 * index := value)\<rparr>"

definition descend :: "nat \<Rightarrow> nat \<Rightarrow> nat paging" where
  "descend table index t =
     (let entry = read_entry t table index in
      if entry AND bits_PRESENT \<noteq> 0
      then if entry AND bits_HUGE \<noteq> 0 then Ret (Inl Conflict, t)
           else Ret (Inr (unat (entry AND ADDRESS_MASK)), t)
      else and_then take_frame
        (\<lambda>frame t. Ret (Inr frame,
           write_entry t table index (word_of_nat frame OR bits_PRESENT OR bits_WRITABLE))) t)"

definition pml4_index :: "nat \<Rightarrow> nat" where
  "pml4_index address = drop_bit 39 address AND 0x1FF"

definition pdpt_index :: "nat \<Rightarrow> nat" where
  "pdpt_index address = drop_bit 30 address AND 0x1FF"

definition pd_index :: "nat \<Rightarrow> nat" where
  "pd_index address = drop_bit 21 address AND 0x1FF"

definition pt_index :: "nat \<Rightarrow> nat" where
  "pt_index address = drop_bit 12 address AND 0x1FF"

definition map_page :: "nat \<Rightarrow> nat \<Rightarrow> PagePermissions \<Rightarrow> unit paging" where
  "map_page virtual_address physical_address permissions t =
     (if virtual_address mod PAGE_SIZE \<noteq> 0 \<or> physical_address mod PAGE_SIZE \<noteq> 0
      then Ret (Inl Misaligned, t)
      else and_then (descend (pt_pml4 t) (pml4_index virtual_address)) (\<lambda>pdpt.
           and_then (descend pdpt (pdpt_index virtual_address)) (\<lambda>pd.
           and_then (descend pd (pd_index virtual_address)) (\<lambda>pt t.
             let index = pt_index virtual_address; existing = read_entry t pt index in
             if existing AND bits_PRESENT \<noteq> 0 then Ret (Inl Conflict, t)
             else Ret (Inr (), write_entry t pt index
                    (word_of_nat physical_address OR to_bits permissions))))) t)"

definition map_huge_page :: "nat \<Rightarrow> nat \<Rightarrow> PagePermissions \<Rightarrow> unit paging" where
  "map_huge_page virtual_address physical_address permissions t =
     (if virtual_address mod HUGE_PAGE_SIZE \<noteq> 0 \<or> physical_address mod HUGE_PAGE_SIZE \<noteq> 0
      then Ret (Inl Misaligned, t)
      else and_then (descend (pt_pml4 t) (pml4_index virtual_address)) (\<lambda>pdpt.
           and_then (descend pdpt (pdpt_index virtual_address)) (\<lambda>pd t.
             let index = pd_index virtual_address; existing = read_entry t pd index in
             if existing AND bits_PRESENT \<noteq> 0 then Ret (Inl Conflict, t)
             else Ret (Inr (), write_entry t pd index
                    (word_of_nat physical_address OR to_bits permissions OR bits_HUGE)))) t)"

definition map_huge_range :: "nat \<Rightarrow> nat \<Rightarrow> nat \<Rightarrow> PagePermissions \<Rightarrow> unit paging" where
  "map_huge_range virtual_base physical_base len permissions =
     (let pages = div_ceil64 len HUGE_PAGE_SIZE in
      try_for (\<lambda>i t. do {
        offset \<leftarrow> mul64 i HUGE_PAGE_SIZE;
        v \<leftarrow> add64 virtual_base offset;
        p \<leftarrow> add64 physical_base offset;
        map_huge_page v p permissions t
      }) [0..<pages])"

definition map_huge_range_lenient :: "nat \<Rightarrow> nat \<Rightarrow> nat \<Rightarrow> PagePermissions \<Rightarrow> unit paging" where
  "map_huge_range_lenient virtual_base physical_base len permissions =
     (let pages = div_ceil64 len HUGE_PAGE_SIZE in
      try_for (\<lambda>i t. do {
        offset \<leftarrow> mul64 i HUGE_PAGE_SIZE;
        v \<leftarrow> add64 virtual_base offset;
        p \<leftarrow> add64 physical_base offset;
        (r, t') \<leftarrow> map_huge_page v p permissions t;
        Ret (if r = Inr () \<or> r = Inl Conflict then Inr () else r, t')
      }) [0..<pages])"

definition map_range :: "nat \<Rightarrow> nat \<Rightarrow> nat \<Rightarrow> PagePermissions \<Rightarrow> unit paging" where
  "map_range virtual_base physical_base len permissions =
     (let pages = div_ceil64 len PAGE_SIZE in
      try_for (\<lambda>i t. do {
        offset \<leftarrow> mul64 i PAGE_SIZE;
        v \<leftarrow> add64 virtual_base offset;
        p \<leftarrow> add64 physical_base offset;
        map_page v p permissions t
      }) [0..<pages])"

definition ARENA_FRAMES :: nat where
  "ARENA_FRAMES = 256"

section \<open>What the processor reads from the tables\<close>

text \<open>
  The page walk: one table entry per index, stopping at an entry that maps a large page. It gives the last
  entry, the indices not used, and whether the whole path allows writing and instruction fetch.
\<close>

fun walk :: "(nat \<Rightarrow> 64 word) \<Rightarrow> nat \<Rightarrow> bool \<Rightarrow> bool \<Rightarrow> nat list \<Rightarrow>
    (64 word \<times> nat list \<times> bool \<times> bool) option" where
  "walk mem table w x [] = None"
| "walk mem table w x (i # is) =
     (let e = mem (table + 8 * i);
          w' = (w \<and> e AND bits_WRITABLE \<noteq> 0);
          x' = (x \<and> e AND bits_NO_EXECUTE = 0)
      in if e AND bits_PRESENT = 0 then None
         else if is = [] then Some (e, is, w', x')
         else if e AND bits_HUGE \<noteq> 0 then (if length is < 3 then Some (e, is, w', x') else None)
         else walk mem (unat (e AND ADDRESS_MASK)) w' x' is)"

definition indices :: "nat \<Rightarrow> nat list" where
  "indices va = [pml4_index va, pdpt_index va, pd_index va, pt_index va]"

definition leaf_translation :: "nat \<Rightarrow> 64 word \<times> nat list \<times> bool \<times> bool \<Rightarrow> nat \<times> PagePermissions" where
  "leaf_translation va leaf = (case leaf of (e, rest, w, x) \<Rightarrow>
     let size = 2 ^ (12 + 9 * length rest) in
     (unat (e AND ADDRESS_MASK) div size * size + va mod size,
      \<lparr>pp_writable = w, pp_executable = x\<rparr>))"

definition translate :: "PageTables \<Rightarrow> nat \<Rightarrow> (nat \<times> PagePermissions) option" where
  "translate t va =
     map_option (leaf_translation va) (walk (pt_mem t) (cr3_value t) True True (indices va))"

section \<open>Bits of an entry\<close>

lemmas bits_defs = bits_PRESENT_def bits_WRITABLE_def bits_HUGE_def bits_NO_EXECUTE_def

lemma entry_bits:
  fixes e :: "64 word"
  shows "e AND bits_PRESENT \<noteq> 0 \<longleftrightarrow> bit e 0" "e AND bits_WRITABLE \<noteq> 0 \<longleftrightarrow> bit e 1"
    "e AND bits_HUGE \<noteq> 0 \<longleftrightarrow> bit e 7" "e AND bits_NO_EXECUTE \<noteq> 0 \<longleftrightarrow> bit e 63"
  unfolding bits_defs by (simp_all only: word_and_single_bit)

lemma entry_bits_zero:
  fixes e :: "64 word"
  shows "e AND bits_PRESENT = 0 \<longleftrightarrow> \<not> bit e 0" "e AND bits_WRITABLE = 0 \<longleftrightarrow> \<not> bit e 1"
    "e AND bits_HUGE = 0 \<longleftrightarrow> \<not> bit e 7" "e AND bits_NO_EXECUTE = 0 \<longleftrightarrow> \<not> bit e 63"
  using entry_bits [of e] by blast+

lemma bit_flags:
  "bit bits_PRESENT n \<longleftrightarrow> n = 0" "bit bits_WRITABLE n \<longleftrightarrow> n = 1" "bit bits_HUGE n \<longleftrightarrow> n = 7"
  "bit bits_NO_EXECUTE n \<longleftrightarrow> n = 63"
  by (auto simp only: bits_defs bit_push_bit_iff bit_1_iff possible_bit_word) simp_all

lemma bit_ADDRESS_MASK: "bit ADDRESS_MASK n \<longleftrightarrow> 12 \<le> n \<and> n < 52"
proof -
  have "ADDRESS_MASK = push_bit 12 (mask 40)"
    by (simp add: ADDRESS_MASK_def mask_eq_exp_minus_1 push_bit_eq_mult)
  then have "bit ADDRESS_MASK n \<longleftrightarrow> bit (push_bit 12 (mask 40 :: 64 word)) n" by simp
  then show ?thesis by (auto simp only: bit_push_bit_iff bit_mask_iff possible_bit_word) simp_all
qed

lemma bit_low_aligned:
  assumes "pa mod 4096 = (0 :: nat)" "n < 12"
  shows "\<not> bit pa n"
proof -
  have "pa mod 2 ^ 12 = 0" using assms(1) by simp
  then have "take_bit 12 pa = 0" by (simp only: take_bit_eq_mod)
  then show ?thesis using assms(2) by (metis bit_take_bit_iff bit_0_eq bot_apply bot_bool_def)
qed

lemma bit_high_small:
  assumes "pa < (2 :: nat) ^ 52" "52 \<le> n"
  shows "\<not> bit pa n"
  using assms by (metis bit_take_bit_iff linorder_not_less take_bit_nat_eq_self)

text \<open>The entry made of an aligned address and flags: the address field and the flags are both recovered.\<close>

definition low_address :: "nat \<Rightarrow> bool" where
  "low_address pa \<longleftrightarrow> pa mod 4096 = 0 \<and> pa < 2 ^ 52"

lemma bit_address:
  assumes "low_address pa"
  shows "bit (word_of_nat pa :: 64 word) n \<longleftrightarrow> 12 \<le> n \<and> n < 52 \<and> bit pa n"
proof -
  have "bit (word_of_nat pa :: 64 word) n \<longleftrightarrow> n < 64 \<and> bit pa n" by (auto simp: bit_simps)
  moreover have "12 \<le> n \<and> n < 52" if "bit pa n"
    using assms that bit_low_aligned bit_high_small unfolding low_address_def by (meson not_le)
  ultimately show ?thesis by auto
qed

lemma entry_address:
  assumes "low_address pa" "\<And>n. 12 \<le> n \<Longrightarrow> n < 52 \<Longrightarrow> \<not> bit f n"
  shows "unat ((word_of_nat pa OR f) AND ADDRESS_MASK :: 64 word) = pa"
proof -
  have "(word_of_nat pa OR f) AND ADDRESS_MASK = word_of_nat pa"
    by (rule bit_word_eqI) (use assms(2) in \<open>auto simp only: bit_and_iff bit_or_iff bit_address [OF assms(1)] bit_ADDRESS_MASK\<close>)
  moreover have "unat (word_of_nat pa :: 64 word) = pa"
    using assms(1) by (simp add: low_address_def unsigned_of_nat take_bit_nat_eq_self)
  ultimately show ?thesis by simp
qed

lemma bit_to_bits:
  "bit (to_bits p) n \<longleftrightarrow> n = 0 \<or> n = 1 \<and> pp_writable p \<or> n = 63 \<and> \<not> pp_executable p"
  by (auto simp: to_bits_def Let_def bit_or_iff bit_flags)

end
