(* ===== verification/Boot_Memory_Map.thy ===== *)
theory Boot_Memory_Map
  imports Boot_Protocol Paging "HOL-Library.Multiset"
begin

text \<open>
  What the bootloader makes of the firmware's memory map, in \<^verbatim>\<open>src/boot/loko-boot/src/main.rs\<close>: how far
  installed memory reaches, and the map in the boot protocol's form. The descriptors come from the
  \<^verbatim>\<open>uefi\<close> crate: a list of them is the argument. The array the map is written to is a list of the
  reserved capacity; an access outside it, undefined in the source, is \<open>Panic\<close> here.
\<close>

section \<open>Firmware memory descriptors\<close>

text \<open>The memory types the source names; all others are \<open>OTHER_TYPE\<close>.\<close>

datatype MemoryType =
    CONVENTIONAL | LOADER_CODE | LOADER_DATA | BOOT_SERVICES_CODE | BOOT_SERVICES_DATA
  | RUNTIME_SERVICES_CODE | RUNTIME_SERVICES_DATA | ACPI_RECLAIM | ACPI_NON_VOLATILE
  | PERSISTENT_MEMORY | UNUSABLE | OTHER_TYPE nat

record MemoryDescriptor =
  md_ty :: MemoryType
  md_phys_start :: nat
  md_page_count :: nat

fun is_installed_ram :: "MemoryType \<Rightarrow> bool" where
  "is_installed_ram UNUSABLE = False"
| "is_installed_ram (OTHER_TYPE _) = False"
| "is_installed_ram _ = True"

definition MAX_MAPPED_PHYSICAL :: nat where
  "MAX_MAPPED_PHYSICAL = 64 * 1024 * 1024 * 1024"

text \<open>\<^verbatim>\<open>filter(..).map(..).max()\<close>: only the addresses of installed memory are computed.\<close>

fun max_ram_end :: "MemoryDescriptor list \<Rightarrow> nat option run" where
  "max_ram_end [] = Ret None"
| "max_ram_end (d # ds) =
     (if is_installed_ram (md_ty d)
      then do {
        bytes \<leftarrow> mul64 (md_page_count d) PAGE_SIZE;
        top \<leftarrow> add64 (md_phys_start d) bytes;
        rest \<leftarrow> max_ram_end ds;
        Ret (Some (case rest of None \<Rightarrow> top | Some m \<Rightarrow> max top m))
      }
      else max_ram_end ds)"

definition highest_ram_address :: "MemoryDescriptor list option \<Rightarrow> (rstr + nat) run" where
  "highest_ram_address memory_map = (case memory_map of
     None \<Rightarrow> Ret (Inl (str ''LokoOS couldn't read this device's memory layout.''))
   | Some entries \<Rightarrow> do {
       highest \<leftarrow> max_ram_end entries;
       Ret (Inr (min (case highest of None \<Rightarrow> 0 | Some m \<Rightarrow> m) MAX_MAPPED_PHYSICAL))
     })"

section \<open>The map in the protocol's form\<close>

fun region_kind :: "MemoryType \<Rightarrow> MemoryKind" where
  "region_kind CONVENTIONAL = Usable"
| "region_kind LOADER_CODE = BootloaderReclaimable"
| "region_kind LOADER_DATA = BootloaderReclaimable"
| "region_kind BOOT_SERVICES_CODE = BootloaderReclaimable"
| "region_kind BOOT_SERVICES_DATA = BootloaderReclaimable"
| "region_kind ACPI_RECLAIM = AcpiReclaimable"
| "region_kind ACPI_NON_VOLATILE = AcpiNvs"
| "region_kind UNUSABLE = BadMemory"
| "region_kind _ = Reserved"

definition array_read :: "'a list \<Rightarrow> nat \<Rightarrow> 'a run" where
  "array_read out i = (if i < length out then Ret (out ! i) else Panic)"

definition array_write :: "'a list \<Rightarrow> nat \<Rightarrow> 'a \<Rightarrow> 'a list run" where
  "array_write out i v = (if i < length out then Ret (out[i := v]) else Panic)"

text \<open>The loop over the descriptors.\<close>

fun collect_regions :: "MemoryDescriptor list \<Rightarrow> MemoryRegion list \<Rightarrow> nat \<Rightarrow> nat \<Rightarrow>
    (MemoryRegion list \<times> nat) run" where
  "collect_regions [] out capacity regions = Ret (out, regions)"
| "collect_regions (descriptor # ds) out capacity regions =
     (if regions \<ge> capacity then Ret (out, regions)
      else do {
        len \<leftarrow> mul64 (md_page_count descriptor) PAGE_SIZE;
        let region = \<lparr>mr_start = md_phys_start descriptor, mr_len = len,
          mr_kind = region_kind (md_ty descriptor), mr_reserved = 0\<rparr>;
        if mr_len region = 0 then collect_regions ds out capacity regions
        else do {
          out \<leftarrow> array_write out regions region;
          regions \<leftarrow> add64 regions 1;
          collect_regions ds out capacity regions
        }
      })"

text \<open>The inner loop of the insertion sort, from \<^verbatim>\<open>j\<close> down, with the write that follows it.\<close>

fun insert_region :: "MemoryRegion list \<Rightarrow> MemoryRegion \<Rightarrow> nat \<Rightarrow> MemoryRegion list run" where
  "insert_region out current 0 = array_write out 0 current"
| "insert_region out current (Suc j) = do {
     previous \<leftarrow> array_read out j;
     if mr_start previous \<le> mr_start current then array_write out (Suc j) current
     else do {
       out \<leftarrow> array_write out (Suc j) previous;
       insert_region out current j
     }
   }"

definition convert_memory_map :: "MemoryDescriptor list \<Rightarrow> MemoryRegion list \<Rightarrow> nat \<Rightarrow>
    (MemoryRegion list \<times> nat) run" where
  "convert_memory_map memory_map out capacity = do {
     (out, regions) \<leftarrow> collect_regions memory_map out capacity 0;
     out \<leftarrow> run_for (\<lambda>i out. do { current \<leftarrow> array_read out i; insert_region out current i }) [1..<regions] out;
     Ret (out, regions)
   }"

section \<open>How far memory reaches\<close>

definition descriptor_end :: "MemoryDescriptor \<Rightarrow> nat" where
  "descriptor_end d = md_phys_start d + md_page_count d * 4096"

lemma max_ram_end_spec:
  assumes "\<forall>d \<in> set ds. is_installed_ram (md_ty d) \<longrightarrow> descriptor_end d < 2 ^ 64"
  shows "\<exists>m. max_ram_end ds = Ret m \<and> (case m of
      None \<Rightarrow> \<forall>d \<in> set ds. \<not> is_installed_ram (md_ty d)
    | Some h \<Rightarrow> (\<exists>d \<in> set ds. is_installed_ram (md_ty d) \<and> descriptor_end d = h) \<and>
        (\<forall>d \<in> set ds. is_installed_ram (md_ty d) \<longrightarrow> descriptor_end d \<le> h))"
  using assms
proof (induction ds)
  case (Cons d ds)
  then obtain m where m: "max_ram_end ds = Ret m" "case m of
      None \<Rightarrow> \<forall>d \<in> set ds. \<not> is_installed_ram (md_ty d)
    | Some h \<Rightarrow> (\<exists>d \<in> set ds. is_installed_ram (md_ty d) \<and> descriptor_end d = h) \<and>
        (\<forall>d \<in> set ds. is_installed_ram (md_ty d) \<longrightarrow> descriptor_end d \<le> h)" by auto
  show ?case
  proof (cases "is_installed_ram (md_ty d)")
    case True
    then have "max_ram_end (d # ds) =
        Ret (Some (case m of None \<Rightarrow> descriptor_end d | Some h \<Rightarrow> max (descriptor_end d) h))"
      using Cons.prems m(1) by (auto simp: descriptor_end_def PAGE_SIZE_def run_simps split: option.splits)
    with m(2) True show ?thesis by (fastforce split: option.splits simp: max_def)
  next
    case False
    with m show ?thesis by (cases m) auto
  qed
qed simp

lemma highest_ram_cases:
  assumes "\<forall>d \<in> set ds. is_installed_ram (md_ty d) \<longrightarrow> descriptor_end d < 2 ^ 64"
  shows "\<exists>h. highest_ram_address (Some ds) = Ret (Inr h) \<and> h \<le> MAX_MAPPED_PHYSICAL \<and>
    (\<forall>d \<in> set ds. is_installed_ram (md_ty d) \<longrightarrow> min (descriptor_end d) MAX_MAPPED_PHYSICAL \<le> h) \<and>
    (if \<exists>d \<in> set ds. is_installed_ram (md_ty d)
     then \<exists>d \<in> set ds. is_installed_ram (md_ty d) \<and> h = min (descriptor_end d) MAX_MAPPED_PHYSICAL
     else h = 0)"
proof -
  from max_ram_end_spec [OF assms] obtain m where m: "max_ram_end ds = Ret m" "case m of
      None \<Rightarrow> \<forall>d \<in> set ds. \<not> is_installed_ram (md_ty d)
    | Some h \<Rightarrow> (\<exists>d \<in> set ds. is_installed_ram (md_ty d) \<and> descriptor_end d = h) \<and>
        (\<forall>d \<in> set ds. is_installed_ram (md_ty d) \<longrightarrow> descriptor_end d \<le> h)" by blast
  then show ?thesis
    by (cases m) (auto simp: highest_ram_address_def min_def)
qed

text \<open>
  The range of physical memory the bootloader maps is the greatest end of installed memory, cut
  at 64 GiB: every byte of installed memory below that limit lies below it, and it is the end of a descriptor of installed memory, or the limit
  if that end is beyond it, or zero if there is none. Apertures and unusable memory above installed memory do not raise it.
\<close>

theorem highest_ram_exact:
  assumes "\<forall>d \<in> set ds. is_installed_ram (md_ty d) \<longrightarrow> descriptor_end d < 2 ^ 64"
  shows "\<exists>h. highest_ram_address (Some ds) = Ret (Inr h) \<and> h \<le> MAX_MAPPED_PHYSICAL \<and>
    (\<forall>d \<in> set ds. is_installed_ram (md_ty d) \<longrightarrow> min (descriptor_end d) MAX_MAPPED_PHYSICAL \<le> h) \<and>
    (if \<exists>d \<in> set ds. is_installed_ram (md_ty d)
     then \<exists>d \<in> set ds. is_installed_ram (md_ty d) \<and> h = min (descriptor_end d) MAX_MAPPED_PHYSICAL
     else h = 0)"
  by (rule highest_ram_cases [OF assms])

theorem highest_ram_exact_witness:
  "highest_ram_address (Some
     [\<lparr>md_ty = CONVENTIONAL, md_phys_start = 0x100000, md_page_count = 256\<rparr>,
      \<lparr>md_ty = OTHER_TYPE 11, md_phys_start = 0x10000000000, md_page_count = 1\<rparr>]) = Ret (Inr 0x200000)"
proof -
  let ?ds = "[\<lparr>md_ty = CONVENTIONAL, md_phys_start = 0x100000, md_page_count = 256\<rparr>,
      \<lparr>md_ty = OTHER_TYPE 11, md_phys_start = 0x10000000000, md_page_count = 1\<rparr>]"
  have "\<forall>d \<in> set ?ds. is_installed_ram (md_ty d) \<longrightarrow> descriptor_end d < 2 ^ 64"
    by (simp add: descriptor_end_def)
  from highest_ram_exact [OF this] show ?thesis
    by (auto simp: descriptor_end_def MAX_MAPPED_PHYSICAL_def)
qed

section \<open>Collecting the regions\<close>

definition region_of :: "MemoryDescriptor \<Rightarrow> MemoryRegion" where
  "region_of d = \<lparr>mr_start = md_phys_start d, mr_len = md_page_count d * 4096,
     mr_kind = region_kind (md_ty d), mr_reserved = 0\<rparr>"

definition nonempty :: "MemoryDescriptor list \<Rightarrow> MemoryDescriptor list" where
  "nonempty ds = filter (\<lambda>d. md_page_count d \<noteq> 0) ds"

lemma collect_regions_spec:
  assumes "\<forall>d \<in> set ds. md_page_count d * 4096 < 2 ^ 64" "length out < 2 ^ 64" "n \<le> length out"
    and "rs = take (length out - n) (map region_of (nonempty ds))"
  shows "collect_regions ds out (length out) n =
    Ret (take n out @ rs @ drop (n + length rs) out, n + length rs)"
  using assms
proof (induction ds arbitrary: out n rs)
  case (Cons d ds)
  have mul: "mul64 (md_page_count d) PAGE_SIZE = Ret (md_page_count d * 4096)"
    using Cons.prems(1) by (simp add: PAGE_SIZE_def run_simps)
  show ?case
  proof (cases "n < length out")
    case False
    then show ?thesis using Cons.prems by simp
  next
    case n: True
    show ?thesis
    proof (cases "md_page_count d = 0")
      case True
      then have "mul64 (md_page_count d) PAGE_SIZE = Ret 0" by (simp add: mul64_def)
      note zero = this
      have "collect_regions (d # ds) out (length out) n = collect_regions ds out (length out) n"
        using n by (simp add: zero)
      with Cons True show ?thesis by (simp add: nonempty_def)
    next
      case False
      let ?rs = "take (length out - Suc n) (map region_of (nonempty ds))"
      have rs: "rs = region_of d # ?rs"
        using Cons.prems(4) False n by (simp add: nonempty_def take_Cons' Suc_diff_Suc)
      let ?out = "out[n := region_of d]"
      have "collect_regions (d # ds) out (length out) n = collect_regions ds ?out (length ?out) (Suc n)"
        using n False Cons.prems(2) by (simp add: mul array_write_def run_simps region_of_def)
      also have "\<dots> = Ret (take (Suc n) ?out @ ?rs @ drop (Suc n + length ?rs) ?out, Suc n + length ?rs)"
        by (rule Cons.IH) (use Cons.prems n in auto)
      also have "take (Suc n) ?out = take n out @ [region_of d]" using n by (simp add: take_Suc_conv_app_nth)
      finally show ?thesis using rs by simp
    qed
  qed
qed (simp add: nonempty_def)

section \<open>The insertion sort\<close>

text \<open>The element is placed after the last one that is not greater.\<close>

lemma insert_region_spec:
  assumes "j < length out"
  shows "\<exists>ys zs. take j out = ys @ zs \<and> insert_region out x j = Ret (ys @ x # zs @ drop (Suc j) out) \<and>
    (\<forall>z \<in> set zs. mr_start x < mr_start z) \<and> (ys \<noteq> [] \<longrightarrow> mr_start (last ys) \<le> mr_start x)"
  using assms
proof (induction j arbitrary: out)
  case 0
  then show ?case by (intro exI [of _ "[]"]) (simp add: array_write_def upd_conv_take_nth_drop)
next
  case (Suc j)
  have split: "take (Suc j) out = take j out @ [out ! j]" using Suc.prems by (simp add: take_Suc_conv_app_nth)
  show ?case
  proof (cases "mr_start (out ! j) \<le> mr_start x")
    case True
    then show ?thesis using Suc.prems
      by (intro exI [of _ "take (Suc j) out"] exI [of _ "[]"])
        (simp add: array_read_def array_write_def upd_conv_take_nth_drop split last_append)
  next
    case False
    let ?out = "out[Suc j := out ! j]"
    have "j < length ?out" using Suc.prems by simp
    from Suc.IH [OF this] obtain ys zs where ih: "take j ?out = ys @ zs"
        "insert_region ?out x j = Ret (ys @ x # zs @ drop (Suc j) ?out)"
        "\<forall>z \<in> set zs. mr_start x < mr_start z" "ys \<noteq> [] \<longrightarrow> mr_start (last ys) \<le> mr_start x"
      by blast
    have "drop (Suc j) ?out = out ! j # drop (Suc (Suc j)) out"
      using Suc.prems by (simp add: upd_conv_take_nth_drop)
    with ih False Suc.prems split show ?thesis
      by (intro exI [of _ ys] exI [of _ "zs @ [out ! j]"]) (auto simp: array_read_def array_write_def)
  qed
qed

lemma sort_key_snoc:
  fixes f :: "'a \<Rightarrow> 'k :: linorder"
  assumes "sort_key f xs = ys @ zs" "\<forall>z \<in> set zs. f x < f z"
    and "ys \<noteq> [] \<longrightarrow> f (last ys) \<le> f x"
  shows "sort_key f (xs @ [x]) = ys @ x # zs"
proof (rule properties_for_sort_key)
  have "mset xs = mset ys + mset zs" using assms(1) by (metis mset_append mset_sort)
  then show "mset (ys @ x # zs) = mset (xs @ [x])" by simp
  have sorted: "sorted (map f (ys @ zs))" using assms(1) sorted_sort_key [of f xs] by simp
  have "f y \<le> f x" if "y \<in> set ys" for y
  proof -
    have "ys \<noteq> []" using that by auto
    then have "sorted (map f (butlast ys @ [last ys]))" "y \<in> set (butlast ys @ [last ys])"
      using sorted that by (simp_all add: sorted_append)
    then have "f y \<le> f (last ys)" by (auto simp: sorted_append)
    then show ?thesis using assms(3) \<open>ys \<noteq> []\<close> by simp
  qed
  then show "sorted (map f (ys @ x # zs))" using sorted assms(2) by (force simp: sorted_append)
  show "filter (\<lambda>y. f k = f y) (ys @ x # zs) = filter (\<lambda>y. f k = f y) (xs @ [x])" if "k \<in> set (ys @ x # zs)" for k
  proof -
    have "filter (\<lambda>y. f k = f y) xs = filter (\<lambda>y. f k = f y) (ys @ zs)"
    proof -
      have eq: "(\<lambda>y. f k = f y) = (\<lambda>y. f y = f k)" by auto
      show ?thesis unfolding eq using assms(1) sort_key_stable [of f "f k" xs] by simp
    qed
    moreover have "filter (\<lambda>y. f k = f y) zs = []" if "f k = f x" using assms(2) that by (auto simp: filter_empty_conv)
    ultimately show ?thesis by auto
  qed
qed

lemma sort_loop:
  assumes "k \<le> length out"
  shows "run_for (\<lambda>i out. do { current \<leftarrow> array_read out i; insert_region out current i }) [1..<k] out =
    Ret (sort_key mr_start (take k out) @ drop k out)"
  using assms
proof (induction k)
  case (Suc k)
  let ?body = "\<lambda>i out. do { current \<leftarrow> array_read out i; insert_region out current i }"
  show ?case
  proof (cases "k = 0")
    case True
    then show ?thesis using Suc.prems by (cases out) simp_all
  next
    case False
    let ?s = "sort_key mr_start (take k out)" and ?x = "out ! k"
    have k: "k < length out" using Suc.prems by simp
    have len: "length ?s = k" using k by simp
    have cur: "(?s @ drop k out) ! k = ?x" "k < length (?s @ drop k out)" "take k (?s @ drop k out) = ?s"
      "drop (Suc k) (?s @ drop k out) = drop (Suc k) out"
      using k len by (simp_all add: nth_append)
    from insert_region_spec [OF cur(2), of ?x, unfolded cur(3,4)] obtain ys zs where
      ins: "?s = ys @ zs" "insert_region (?s @ drop k out) ?x k = Ret (ys @ ?x # zs @ drop (Suc k) out)"
        "\<forall>z \<in> set zs. mr_start ?x < mr_start z" "ys \<noteq> [] \<longrightarrow> mr_start (last ys) \<le> mr_start ?x"
      by blast
    have "sort_key mr_start (take (Suc k) out) = ys @ ?x # zs"
      using sort_key_snoc [OF ins(1,3,4)] k by (simp add: take_Suc_conv_app_nth)
    moreover have "[1..<Suc k] = [1..<k] @ [k]" using False by simp
    ultimately show ?thesis
      using Suc.IH k ins(2) cur(1,2) by (simp add: run_for_append array_read_def)
  qed
qed simp

lemma sort_prefix:
  "run_for (\<lambda>i out. do { current \<leftarrow> array_read out i; insert_region out current i }) [1..<length rs] (rs @ rest) =
    Ret (sort_key mr_start rs @ rest)"
  using sort_loop [of "length rs" "rs @ rest"] by simp

lemma convert_memory_map_sorted:
  assumes "\<forall>d \<in> set ds. md_page_count d * 4096 < 2 ^ 64" "length out < 2 ^ 64"
  shows "\<exists>out'. convert_memory_map ds out (length out) = Ret (out', min (length (nonempty ds)) (length out)) \<and>
    length out' = length out \<and>
    take (min (length (nonempty ds)) (length out)) out' =
      sort_key mr_start (take (length out) (map region_of (nonempty ds)))"
proof -
  let ?rs = "take (length out) (map region_of (nonempty ds))"
  have n: "length ?rs = min (length (nonempty ds)) (length out)" by simp
  have c: "collect_regions ds out (length out) 0 = Ret (?rs @ drop (length ?rs) out, length ?rs)"
    using collect_regions_spec [OF assms, of 0 ?rs] by simp
  have "convert_memory_map ds out (length out) =
      Ret (sort_key mr_start ?rs @ drop (length ?rs) out, length ?rs)"
    by (simp only: convert_memory_map_def c bind.bind_lunit prod.case sort_prefix)
  then show ?thesis unfolding n by (auto simp: min_def)
qed

text \<open>
  C25. The translated map is the firmware's map, restricted to its non-empty entries, as many as fit the reserved array,
  each with its kind, in the order of their addresses: the in-place insertion sort is the stable sort of the
  library. No access leaves the array and nothing panics.
\<close>

theorem convert_memory_map_exact:
  assumes "\<forall>d \<in> set ds. md_page_count d * 4096 < 2 ^ 64" "length out < 2 ^ 64"
  shows "\<exists>out'. convert_memory_map ds out (length out) = Ret (out', min (length (nonempty ds)) (length out)) \<and>
    length out' = length out \<and>
    take (min (length (nonempty ds)) (length out)) out' =
      sort_key mr_start (take (length out) (map region_of (nonempty ds)))"
  by (rule convert_memory_map_sorted [OF assms])

text \<open>Two entries out of order, and an empty one.\<close>

definition demo_map :: "MemoryDescriptor list" where
  "demo_map =
     [\<lparr>md_ty = LOADER_DATA, md_phys_start = 0x200000, md_page_count = 16\<rparr>,
      \<lparr>md_ty = OTHER_TYPE 0, md_phys_start = 0x900000, md_page_count = 0\<rparr>,
      \<lparr>md_ty = CONVENTIONAL, md_phys_start = 0x1000, md_page_count = 256\<rparr>]"

theorem convert_memory_map_exact_witness:
  "\<exists>out'. convert_memory_map demo_map (replicate 4 (region_of (demo_map ! 1))) 4 = Ret (out', 2) \<and>
    map mr_start (take 2 out') = [0x1000, 0x200000]"
proof -
  have "\<forall>d \<in> set demo_map. md_page_count d * 4096 < 2 ^ 64"
    "length (replicate 4 (region_of (demo_map ! 1))) < 2 ^ 64" by (simp_all add: demo_map_def)
  from convert_memory_map_exact [OF this]
  show ?thesis by (auto simp: demo_map_def nonempty_def region_of_def numeral_2_eq_2)
qed

section \<open>A well-formed firmware map gives a map the kernel accepts\<close>

text \<open>
  What the UEFI specification promises of the memory map: page-aligned entries inside the address space that do not
  overlap. The machine has some memory that is free.
\<close>

definition firmware_map_ok :: "MemoryDescriptor list \<Rightarrow> bool" where
  "firmware_map_ok ds \<longleftrightarrow>
     (\<forall>d \<in> set (nonempty ds). md_phys_start d mod 4096 = 0 \<and> descriptor_end d < 2 ^ 64) \<and>
     distinct (map md_phys_start (nonempty ds)) \<and>
     (\<forall>a \<in> set (nonempty ds). \<forall>b \<in> set (nonempty ds).
        md_phys_start a < md_phys_start b \<longrightarrow> descriptor_end a \<le> md_phys_start b) \<and>
     (\<exists>d \<in> set (nonempty ds). md_ty d = CONVENTIONAL)"

lemma sorted_map_spec:
  assumes ok: "firmware_map_ok ds"
  shows "memory_map_spec (sort_key mr_start (map region_of (nonempty ds)))"
proof -
  let ?rs = "map region_of (nonempty ds)"
  have starts: "map mr_start ?rs = map md_phys_start (nonempty ds)" by (simp add: region_of_def)
  have "region_ok r" if "r \<in> set ?rs" for r
    using that ok by (auto simp: firmware_map_ok_def region_ok_def region_of_def descriptor_end_def nonempty_def)
  moreover have "sorted_wrt ends_before (sort_key mr_start ?rs)"
  proof -
    have "sorted (map mr_start (sort_key mr_start ?rs))" by simp
    moreover have "distinct (map mr_start (sort_key mr_start ?rs))"
    proof -
      have "mset (map mr_start (sort_key mr_start ?rs)) = mset (map mr_start ?rs)"
        by (simp only: mset_map mset_sort)
      then show ?thesis
        using ok unfolding firmware_map_ok_def by (metis starts mset_eq_imp_distinct_iff)
    qed
    ultimately have "sorted_wrt (<) (map mr_start (sort_key mr_start ?rs))" by (simp only: strict_sorted_iff)
    then have "sorted_wrt (\<lambda>a b. mr_start a < mr_start b) (sort_key mr_start ?rs)" by (simp only: sorted_wrt_map)
    then show ?thesis
    proof (rule sorted_wrt_mono_rel [rotated])
      fix a b assume "a \<in> set (sort_key mr_start ?rs)" "b \<in> set (sort_key mr_start ?rs)" "mr_start a < mr_start b"
      then show "ends_before a b"
        using ok by (auto simp: firmware_map_ok_def ends_before_def region_of_def descriptor_end_def)
    qed
  qed
  moreover obtain d where d: "d \<in> set (nonempty ds)" "md_ty d = CONVENTIONAL"
    using ok by (auto simp: firmware_map_ok_def)
  have "region_of d \<in> set ?rs" using d(1) by simp
  moreover have "mr_kind (region_of d) = Usable" using d(2) by (simp add: region_of_def)
  moreover have "sort_key mr_start ?rs \<noteq> []"
    using d(1) set_sort [of mr_start ?rs] by (metis calculation(3) empty_iff list.set(1))
  ultimately show ?thesis unfolding memory_map_spec_def set_sort by blast
qed

end
