(* ===== verification/Elf_Image.thy ===== *)
theory Elf_Image
  imports Rust_Str
begin

text \<open>
  The bootloader's ELF64 reader, \<^verbatim>\<open>src/boot/loko-boot/src/elf.rs\<close>. The file is a list of bytes;
  reading past its end panics, as indexing a slice does. Fields are natural numbers below the bound of
  their width. The theory shows that no file can make the parser panic, and what a parsed image promises to
  the loader.
\<close>

section \<open>Reading little-endian fields\<close>

fun le_value :: "8 word list \<Rightarrow> nat" where
  "le_value [] = 0"
| "le_value (b # bs) = unat b + 256 * le_value bs"

text \<open>\<^verbatim>\<open>data[offset..offset + n]\<close>, and the same bytes read one by one.\<close>

definition read_le :: "nat \<Rightarrow> 8 word list \<Rightarrow> nat \<Rightarrow> nat run" where
  "read_le n data offset = do {
     end_offset \<leftarrow> add64 offset n;
     if end_offset \<le> length data then Ret (le_value (take n (drop offset data))) else Panic
   }"

definition read_u16 :: "8 word list \<Rightarrow> nat \<Rightarrow> nat run" where
  "read_u16 = read_le 2"

definition read_u32 :: "8 word list \<Rightarrow> nat \<Rightarrow> nat run" where
  "read_u32 = read_le 4"

definition read_u64 :: "8 word list \<Rightarrow> nat \<Rightarrow> nat run" where
  "read_u64 = read_le 8"

section \<open>Images and segments\<close>

definition PT_LOAD :: nat where
  "PT_LOAD = 1"

definition ELF_HEADER_SIZE :: nat where
  "ELF_HEADER_SIZE = 64"

definition PROGRAM_HEADER_SIZE :: nat where
  "PROGRAM_HEADER_SIZE = 56"

definition EM_X86_64 :: nat where
  "EM_X86_64 = 0x3E"

definition ET_EXEC :: nat where
  "ET_EXEC = 2"

datatype ElfError =
    TooSmall | NotElf | WrongFormat | NotAnExecutable | TruncatedHeaders | TruncatedSegment
  | ImpossibleSegment | NothingToLoad

fun ElfError_message :: "ElfError \<Rightarrow> rstr" where
  "ElfError_message TooSmall = str ''The LokoOS system file on this device isn't valid.''"
| "ElfError_message NotElf = str ''The LokoOS system file on this device isn't valid.''"
| "ElfError_message WrongFormat = str ''The LokoOS system file on this device isn't valid.''"
| "ElfError_message NotAnExecutable =
     str ''The LokoOS system file on this device was built incorrectly.''"
| "ElfError_message TruncatedHeaders =
     str ''The LokoOS system file on this device is damaged or incomplete.''"
| "ElfError_message TruncatedSegment =
     str ''The LokoOS system file on this device is damaged or incomplete.''"
| "ElfError_message ImpossibleSegment =
     str ''The LokoOS system file on this device is damaged or incomplete.''"
| "ElfError_message NothingToLoad = str ''The LokoOS system file on this device is empty.''"

record Segment =
  sg_file_offset :: nat
  sg_file_size :: nat
  sg_virtual_address :: nat
  sg_memory_size :: nat
  sg_flags :: nat

definition is_executable :: "Segment \<Rightarrow> bool" where
  "is_executable s \<longleftrightarrow> sg_flags s AND 1 \<noteq> 0"

definition is_writable :: "Segment \<Rightarrow> bool" where
  "is_writable s \<longleftrightarrow> sg_flags s AND 2 \<noteq> 0"

record Image =
  im_data :: "8 word list"
  im_entry :: nat
  im_program_header_offset :: nat
  im_program_header_count :: nat
  im_program_header_size :: nat

definition segment_at :: "Image \<Rightarrow> nat \<Rightarrow> (ElfError + Segment option) run" where
  "segment_at img i = do {
     skip \<leftarrow> mul64 i (im_program_header_size img);
     base \<leftarrow> add64 (im_program_header_offset img) skip;
     kind \<leftarrow> read_u32 (im_data img) base;
     if kind \<noteq> PT_LOAD then Ret (Inr None)
     else do {
       flags \<leftarrow> read_u32 (im_data img) (base + 0x04);
       file_offset \<leftarrow> read_u64 (im_data img) (base + 0x08);
       virtual_address \<leftarrow> read_u64 (im_data img) (base + 0x10);
       file_size \<leftarrow> read_u64 (im_data img) (base + 0x20);
       memory_size \<leftarrow> read_u64 (im_data img) (base + 0x28);
       if memory_size < file_size then Ret (Inl ImpossibleSegment)
       else case checked_add64 file_offset file_size of
              None \<Rightarrow> Ret (Inl TruncatedSegment)
            | Some end_offset \<Rightarrow>
                if end_offset > length (im_data img) then Ret (Inl TruncatedSegment)
                else Ret (Inr (Some
                  \<lparr>sg_file_offset = file_offset, sg_file_size = file_size,
                   sg_virtual_address = virtual_address, sg_memory_size = memory_size,
                   sg_flags = flags\<rparr>))
     }
   }"

text \<open>The loop that validates every segment up front and counts the loadable ones.\<close>

fun count_loadable :: "Image \<Rightarrow> nat list \<Rightarrow> nat \<Rightarrow> (ElfError + nat) run" where
  "count_loadable img [] loadable = Ret (Inr loadable)"
| "count_loadable img (i # is) loadable = do {
     r \<leftarrow> segment_at img i;
     case r of
       Inl e \<Rightarrow> Ret (Inl e)
     | Inr None \<Rightarrow> count_loadable img is loadable
     | Inr (Some _) \<Rightarrow> count_loadable img is (loadable + 1)
   }"

definition Image_parse :: "8 word list \<Rightarrow> (ElfError + Image) run" where
  "Image_parse data =
     (if length data < ELF_HEADER_SIZE then Ret (Inl TooSmall)
      else if take 4 data \<noteq> [0x7F, 0x45, 0x4C, 0x46] then Ret (Inl NotElf)
      else if data ! 4 \<noteq> 2 \<or> data ! 5 \<noteq> 1 then Ret (Inl WrongFormat)
      else do {
        machine \<leftarrow> read_u16 data 0x12;
        if machine \<noteq> EM_X86_64 then Ret (Inl WrongFormat)
        else do {
          kind \<leftarrow> read_u16 data 0x10;
          if kind \<noteq> ET_EXEC then Ret (Inl NotAnExecutable)
          else do {
            entry \<leftarrow> read_u64 data 0x18;
            header_offset \<leftarrow> read_u64 data 0x20;
            header_size \<leftarrow> read_u16 data 0x36;
            header_count \<leftarrow> read_u16 data 0x38;
            if header_size < PROGRAM_HEADER_SIZE then Ret (Inl WrongFormat)
            else case checked_mul64 header_size header_count of
              None \<Rightarrow> Ret (Inl TruncatedHeaders)
            | Some table_len \<Rightarrow>
                (case checked_add64 header_offset table_len of
                   None \<Rightarrow> Ret (Inl TruncatedHeaders)
                 | Some table_end \<Rightarrow>
                     if table_end > length data then Ret (Inl TruncatedHeaders)
                     else do {
                       let img = \<lparr>im_data = data, im_entry = entry,
                         im_program_header_offset = header_offset,
                         im_program_header_count = header_count,
                         im_program_header_size = header_size\<rparr>;
                       r \<leftarrow> count_loadable img [0..<header_count] 0;
                       Ret (case r of
                              Inl e \<Rightarrow> Inl e
                            | Inr loadable \<Rightarrow> if loadable = 0 then Inl NothingToLoad else Inr img)
                     })
          }
        }
      })"

text \<open>\<^verbatim>\<open>filter_map(|i| self.segment_at(i).ok().flatten())\<close> over the headers.\<close>

fun segments_from :: "Image \<Rightarrow> nat list \<Rightarrow> Segment list run" where
  "segments_from img [] = Ret []"
| "segments_from img (i # is) = do {
     r \<leftarrow> segment_at img i;
     rest \<leftarrow> segments_from img is;
     Ret (case r of Inr (Some s) \<Rightarrow> s # rest | _ \<Rightarrow> rest)
   }"

definition segments :: "Image \<Rightarrow> Segment list run" where
  "segments img = segments_from img [0..<im_program_header_count img]"

definition segment_data :: "Image \<Rightarrow> Segment \<Rightarrow> 8 word list run" where
  "segment_data img s = do {
     end_offset \<leftarrow> add64 (sg_file_offset s) (sg_file_size s);
     if end_offset \<le> length (im_data img)
     then Ret (take (sg_file_size s) (drop (sg_file_offset s) (im_data img)))
     else Panic
   }"

definition U64_MAX :: nat where
  "U64_MAX = 2 ^ 64 - 1"

definition extent_step :: "Segment \<Rightarrow> nat \<times> nat \<Rightarrow> (nat \<times> nat) run" where
  "extent_step s bounds = (case bounds of (lowest, highest) \<Rightarrow> do {
     top \<leftarrow> add64 (sg_virtual_address s) (sg_memory_size s);
     Ret (min lowest (sg_virtual_address s), max highest top)
   })"

definition virtual_extent :: "Image \<Rightarrow> (nat \<times> nat) run" where
  "virtual_extent img = do {
     ss \<leftarrow> segments img;
     (lowest, highest) \<leftarrow> run_for extent_step ss (U64_MAX, 0);
     Ret (if lowest = U64_MAX then (0, 0) else (lowest, highest))
   }"

section \<open>Reading inside the file\<close>

lemma le_value_less: "le_value bs < 256 ^ length bs"
proof (induction bs)
  case (Cons b bs)
  have "unat b < 2 ^ LENGTH(8)" by (rule unsigned_less)
  then have "unat b < 256" by simp
  with Cons show ?case by simp
qed simp

lemma read_le_inside:
  assumes "offset + n \<le> length data" "length data < 2 ^ 64"
  shows "\<exists>v. read_le n data offset = Ret v \<and> v < 256 ^ n"
proof -
  have "length (take n (drop offset data)) = n" using assms(1) by simp
  then have "le_value (take n (drop offset data)) < 256 ^ n"
    using le_value_less [of "take n (drop offset data)"] by simp
  moreover have add: "add64 offset n = Ret (offset + n)" using assms by simp
  ultimately show ?thesis using assms(1) by (simp add: read_le_def add)
qed

lemmas read_defs = read_u16_def read_u32_def read_u64_def

text \<open>What the parser has checked of an image before it looks at any segment.\<close>

definition image_ok :: "Image \<Rightarrow> bool" where
  "image_ok img \<longleftrightarrow> length (im_data img) < 2 ^ 64 \<and> 56 \<le> im_program_header_size img \<and>
     im_program_header_offset img + im_program_header_size img * im_program_header_count img
       \<le> length (im_data img)"

definition segment_ok :: "Image \<Rightarrow> Segment \<Rightarrow> bool" where
  "segment_ok img s \<longleftrightarrow> sg_file_offset s + sg_file_size s \<le> length (im_data img) \<and>
     sg_file_size s \<le> sg_memory_size s \<and> sg_memory_size s < 2 ^ 64 \<and> sg_virtual_address s < 2 ^ 64"

lemma segment_at_total:
  assumes ok: "image_ok img" and i: "i < im_program_header_count img"
  shows "\<exists>r. segment_at img i = Ret r \<and> (\<forall>s. r = Inr (Some s) \<longrightarrow> segment_ok img s)"
proof -
  let ?size = "im_program_header_size img" and ?off = "im_program_header_offset img"
  let ?base = "?off + i * ?size" and ?data = "im_data img"
  have "i * ?size + ?size \<le> im_program_header_count img * ?size"
    using i mult_le_mono1 [of "Suc i" "im_program_header_count img" ?size] by simp
  then have fit: "?base + 56 \<le> length ?data" and small: "length ?data < 2 ^ 64"
    using ok by (simp_all add: image_ok_def mult.commute)
  have head: "mul64 i ?size = Ret (i * ?size)" "add64 ?off (i * ?size) = Ret ?base"
    using fit small by simp_all
  obtain kind where kind: "read_u32 ?data ?base = Ret kind"
    using read_le_inside [of ?base 4 ?data] fit small by (auto simp: read_defs)
  obtain flags where flags: "read_u32 ?data (?base + 0x04) = Ret flags"
    using read_le_inside [of "?base + 4" 4 ?data] fit small by (auto simp: read_defs)
  have field: "\<exists>v. read_u64 ?data (?base + k) = Ret v \<and> v < 2 ^ 64" if "k + 8 \<le> 56" for k
    using read_le_inside [of "?base + k" 8 ?data] fit small that by (auto simp: read_defs)
  obtain fo va fs ms where fields: "read_u64 ?data (?base + 0x08) = Ret fo"
      "read_u64 ?data (?base + 0x10) = Ret va" "va < 2 ^ 64"
      "read_u64 ?data (?base + 0x20) = Ret fs" "read_u64 ?data (?base + 0x28) = Ret ms" "ms < 2 ^ 64"
    using field [of 8] field [of 16] field [of 32] field [of 40] by auto
  show ?thesis
    unfolding segment_at_def head bind.bind_lunit kind flags fields(1,2,4,5)
    using fields(3,6) by (auto simp: segment_ok_def checked_add64_def)
qed

text \<open>A property of every header, over the two loops.\<close>

lemma segments_from_total:
  assumes ok: "image_ok img" and "\<forall>i \<in> set is. i < im_program_header_count img"
  shows "\<exists>ss. segments_from img is = Ret ss \<and> (\<forall>s \<in> set ss. segment_ok img s)"
  using assms(2)
proof (induction "is")
  case (Cons i "is")
  then obtain ss where "segments_from img is = Ret ss" "\<forall>s \<in> set ss. segment_ok img s" by auto
  moreover obtain r where "segment_at img i = Ret r" "\<forall>s. r = Inr (Some s) \<longrightarrow> segment_ok img s"
    using segment_at_total [OF ok, of i] Cons.prems by auto
  ultimately show ?case by (auto split: sum.splits option.splits)
qed simp

lemma count_loadable_total:
  assumes ok: "image_ok img" and "\<forall>i \<in> set is. i < im_program_header_count img"
  shows "\<exists>r. count_loadable img is k = Ret r \<and>
    (\<forall>n. r = Inr n \<longrightarrow> (\<forall>i \<in> set is. \<nexists>e. segment_at img i = Ret (Inl e)) \<and>
       (\<exists>ss. segments_from img is = Ret ss \<and> n = k + length ss))"
  using assms(2)
proof (induction "is" arbitrary: k)
  case (Cons i "is")
  obtain r where r: "segment_at img i = Ret r" using segment_at_total [OF ok, of i] Cons.prems by auto
  show ?case
  proof (cases r)
    case (Inl e)
    then show ?thesis using r by simp
  next
    case (Inr os)
    have rest: "\<forall>i \<in> set is. i < im_program_header_count img" using Cons.prems by simp
    show ?thesis
    proof (cases os)
      case None
      from Cons.IH [OF rest, of k] show ?thesis using r Inr None by auto
    next
      case (Some s)
      from Cons.IH [OF rest, of "k + 1"] show ?thesis using r Inr Some by fastforce
    qed
  qed
qed simp

lemma Image_parse_cases:
  assumes "length data < 2 ^ 64"
  shows "\<exists>r. Image_parse data = Ret r \<and>
    (\<forall>img. r = Inr img \<longrightarrow> im_data img = data \<and> image_ok img \<and>
       (\<exists>n > 0. count_loadable img [0..<im_program_header_count img] 0 = Ret (Inr n)))"
proof (cases "length data < ELF_HEADER_SIZE \<or> take 4 data \<noteq> [0x7F, 0x45, 0x4C, 0x46] \<or>
    data ! 4 \<noteq> 2 \<or> data ! 5 \<noteq> 1")
  case True
  then show ?thesis by (auto simp: Image_parse_def)
next
  case False
  then have len: "64 \<le> length data" by (simp add: ELF_HEADER_SIZE_def)
  have rd: "\<exists>v. read_le n data off = Ret v" if "off + n \<le> 64" for n off
    using read_le_inside [of off n data] that len assms by auto
  obtain m k e ho hs hc where reads: "read_u16 data 0x12 = Ret m" "read_u16 data 0x10 = Ret k"
      "read_u64 data 0x18 = Ret e" "read_u64 data 0x20 = Ret ho" "read_u16 data 0x36 = Ret hs"
      "read_u16 data 0x38 = Ret hc"
    unfolding read_defs
    using rd [where off = 18 and n = 2] rd [where off = 16 and n = 2] rd [where off = 24 and n = 8]
      rd [where off = 32 and n = 8] rd [where off = 54 and n = 2] rd [where off = 56 and n = 2] by auto
  let ?img = "\<lparr>im_data = data, im_entry = e, im_program_header_offset = ho,
    im_program_header_count = hc, im_program_header_size = hs\<rparr>"
  show ?thesis
  proof (cases "hs \<ge> 56 \<and> ho + hs * hc \<le> length data")
    case True
    then have "image_ok ?img" using assms by (simp add: image_ok_def)
    moreover from count_loadable_total [OF this, of "[0..<hc]" 0] obtain r where
      r: "count_loadable ?img [0..<hc] 0 = Ret r" by auto
    ultimately show ?thesis
      using False True assms reads
      by (auto simp: Image_parse_def PROGRAM_HEADER_SIZE_def checked_mul64_def checked_add64_def split: sum.splits)
  next
    case bad: False
    with False reads show ?thesis
      by (auto simp: Image_parse_def PROGRAM_HEADER_SIZE_def checked_mul64_def checked_add64_def)
  qed
qed

text \<open>
  C37. No file can make the loader read outside it. Parsing never panics, for any bytes and any length; if
  it accepts, then listing the segments never panics either, there is at least one, no header was skipped
  for being damaged, and every segment lies inside the file, has at least as much memory as file
  contents, and yields exactly the promised number of bytes.
\<close>

theorem parsed_image_safe:
  assumes "length data < 2 ^ 64"
  shows "\<exists>r. Image_parse data = Ret r \<and>
    (\<forall>img. r = Inr img \<longrightarrow>
      (\<exists>ss. segments img = Ret ss \<and> ss \<noteq> [] \<and>
        (\<forall>i < im_program_header_count img. \<nexists>e. segment_at img i = Ret (Inl e)) \<and>
        (\<forall>s \<in> set ss. sg_file_size s \<le> sg_memory_size s \<and>
           (\<exists>bytes. segment_data img s = Ret bytes \<and> length bytes = sg_file_size s))))"
proof -
  obtain r where r: "Image_parse data = Ret r"
    "\<forall>img. r = Inr img \<longrightarrow> im_data img = data \<and> image_ok img \<and>
       (\<exists>n > 0. count_loadable img [0..<im_program_header_count img] 0 = Ret (Inr n))"
    using Image_parse_cases [OF assms] by blast
  have "\<exists>ss. segments img = Ret ss \<and> ss \<noteq> [] \<and>
        (\<forall>i < im_program_header_count img. \<nexists>e. segment_at img i = Ret (Inl e)) \<and>
        (\<forall>s \<in> set ss. sg_file_size s \<le> sg_memory_size s \<and>
           (\<exists>bytes. segment_data img s = Ret bytes \<and> length bytes = sg_file_size s))"
    if img: "r = Inr img" for img
  proof -
    let ?is = "[0..<im_program_header_count img]"
    have ok: "image_ok img" "im_data img = data" using r(2) img by blast+
    obtain n where n: "n > 0" "count_loadable img ?is 0 = Ret (Inr n)" using r(2) img by blast
    obtain ss where ss: "segments_from img ?is = Ret ss" "n = length ss"
        "\<forall>i \<in> set ?is. \<nexists>e. segment_at img i = Ret (Inl e)"
      using count_loadable_total [OF ok(1), of ?is 0] n(2) by auto
    have "\<forall>s \<in> set ss. segment_ok img s" using segments_from_total [OF ok(1), of ?is] ss(1) by auto
    then have "\<forall>s \<in> set ss. sg_file_size s \<le> sg_memory_size s \<and>
        (\<exists>bytes. segment_data img s = Ret bytes \<and> length bytes = sg_file_size s)"
      using assms ok(2) by (auto simp: segment_data_def segment_ok_def add64_Ret)
    with ss n(1) show ?thesis unfolding segments_def by auto
  qed
  with r(1) show ?thesis by blast
qed

text \<open>A file with one executable segment of two bytes in the file and eight in memory, for the witnesses.\<close>

definition demo_header :: "8 word list" where
  "demo_header =
     [0x7F, 0x45, 0x4C, 0x46, 2, 1, 1, 0, 0, 0, 0, 0, 0, 0, 0, 0,
      2, 0, 0x3E, 0, 1, 0, 0, 0, 0, 0x10, 0, 0, 0, 0, 0, 0,
      64, 0, 0, 0, 0, 0, 0, 0, 0, 0, 0, 0, 0, 0, 0, 0,
      0, 0, 0, 0, 64, 0, 56, 0, 1, 0, 0, 0, 0, 0, 0, 0]"

definition demo_program_header :: "8 word list" where
  "demo_program_header =
     [1, 0, 0, 0, 5, 0, 0, 0, 120, 0, 0, 0, 0, 0, 0, 0,
      0, 0x10, 0, 0, 0, 0, 0, 0, 0, 0, 0, 0, 0, 0, 0, 0,
      2, 0, 0, 0, 0, 0, 0, 0, 8, 0, 0, 0, 0, 0, 0, 0, 0, 0, 0, 0, 0, 0, 0, 0]"

definition demo_elf :: "8 word list" where
  "demo_elf = demo_header @ demo_program_header @ [0xF4, 0xC3]"

definition demo_image :: Image where
  "demo_image = \<lparr>im_data = demo_elf, im_entry = 0x1000, im_program_header_offset = 64,
     im_program_header_count = 1, im_program_header_size = 56\<rparr>"

definition demo_segment :: Segment where
  "demo_segment = \<lparr>sg_file_offset = 120, sg_file_size = 2, sg_virtual_address = 0x1000,
     sg_memory_size = 8, sg_flags = 5\<rparr>"

lemmas demo_file_defs = demo_elf_def demo_header_def demo_program_header_def

lemma demo_segment_at: "segment_at demo_image 0 = Ret (Inr (Some demo_segment))"
  by (simp add: segment_at_def demo_image_def demo_segment_def demo_file_defs read_defs read_le_def run_simps
    PT_LOAD_def checked_add64_def)

lemma demo_reads:
  "length demo_elf = 122" "take 4 demo_elf = [0x7F, 0x45, 0x4C, 0x46]" "demo_elf ! 4 = 2" "demo_elf ! 5 = 1"
  "read_u16 demo_elf 0x12 = Ret 62" "read_u16 demo_elf 0x10 = Ret 2" "read_u64 demo_elf 0x18 = Ret 0x1000"
  "read_u64 demo_elf 0x20 = Ret 64" "read_u16 demo_elf 0x36 = Ret 56" "read_u16 demo_elf 0x38 = Ret 1"
  by (simp_all add: demo_file_defs read_defs read_le_def run_simps)

lemma demo_parse: "Image_parse demo_elf = Ret (Inr demo_image)"
proof -
  have "\<lparr>im_data = demo_elf, im_entry = 4096, im_program_header_offset = 64, im_program_header_count = Suc 0,
      im_program_header_size = 56\<rparr> = demo_image"
    by (simp add: demo_image_def)
  then show ?thesis
    by (simp add: Image_parse_def demo_reads Let_def demo_segment_at
      ELF_HEADER_SIZE_def EM_X86_64_def ET_EXEC_def PROGRAM_HEADER_SIZE_def checked_add64_def checked_mul64_def)
qed

lemma demo_segments: "segments demo_image = Ret [demo_segment]"
  by (simp add: segments_def demo_image_def [THEN arg_cong [where f = im_program_header_count]] demo_segment_at)

theorem parsed_image_safe_witness:
  "\<exists>bytes. segment_data demo_image demo_segment = Ret bytes \<and> length bytes = 2"
proof -
  have "length demo_elf < 2 ^ 64" by (simp add: demo_file_defs)
  from parsed_image_safe [OF this] demo_parse demo_segments have
    "\<exists>bytes. segment_data demo_image demo_segment = Ret bytes \<and> length bytes = sg_file_size demo_segment"
    by auto
  then show ?thesis by (simp add: demo_segment_def)
qed

section \<open>The extent of an image\<close>

definition segment_top :: "Segment \<Rightarrow> nat" where
  "segment_top s = sg_virtual_address s + sg_memory_size s"

lemma extent_loop:
  "run_for extent_step ss (lo, hi) =
     (if \<forall>s \<in> set ss. segment_top s < 2 ^ 64
      then Ret (Min (insert lo (sg_virtual_address ` set ss)), Max (insert hi (segment_top ` set ss)))
      else Panic)"
proof (induction ss arbitrary: lo hi)
  case (Cons s ss)
  show ?case
  proof (cases "segment_top s < 2 ^ 64")
    case True
    then have step: "extent_step s (lo, hi) = Ret (min lo (sg_virtual_address s), max hi (segment_top s))"
      by (simp add: extent_step_def segment_top_def add64_Ret)
    have "Min (insert (min lo (sg_virtual_address s)) (sg_virtual_address ` set ss)) =
        Min (insert lo (sg_virtual_address ` set (s # ss)))"
      "Max (insert (max hi (segment_top s)) (segment_top ` set ss)) = Max (insert hi (segment_top ` set (s # ss)))"
      by (cases "ss = []"; simp add: min.assoc max.assoc)+
    with True step show ?thesis by (simp only: run_for.simps bind.bind_lunit Cons.IH list.set ball_simps) simp
  next
    case False
    then show ?thesis by (simp add: extent_step_def segment_top_def add64_def)
  qed
qed simp

lemma virtual_extent_bounds:
  assumes "segments img = Ret ss" "virtual_extent img = Ret (low, high)" "s \<in> set ss"
  shows "low \<le> sg_virtual_address s" "segment_top s < 2 ^ 64" "segment_top s \<le> high \<or> low = 0 \<and> sg_virtual_address s = U64_MAX"
    "low \<le> high"
proof -
  let ?lo = "Min (insert U64_MAX (sg_virtual_address ` set ss))" and ?hi = "Max (insert 0 (segment_top ` set ss))"
  have all: "\<forall>s \<in> set ss. segment_top s < 2 ^ 64"
    using assms(1,2) by (auto simp: virtual_extent_def extent_loop split: if_splits)
  have "virtual_extent img = Ret (if ?lo = U64_MAX then (0, 0) else (?lo, ?hi))"
    by (simp only: virtual_extent_def assms(1) extent_loop if_P [OF all] bind.bind_lunit prod.case)
  then have "Some (low, high) = Some (if ?lo = U64_MAX then (0, 0) else (?lo, ?hi))"
    by (simp only: assms(2))
  then have ext: "(low, high) = (if ?lo = U64_MAX then (0, 0) else (?lo, ?hi))" by (rule option.inject [THEN iffD1])
  show top: "segment_top s < 2 ^ 64" using all assms(3) by blast
  have "?lo \<le> sg_virtual_address s" "segment_top s \<le> ?hi" using assms(3) by simp_all
  moreover have "sg_virtual_address s = U64_MAX" if "?lo = U64_MAX"
    using \<open>?lo \<le> sg_virtual_address s\<close> that top by (simp add: segment_top_def U64_MAX_def)
  moreover have "sg_virtual_address s \<le> segment_top s" by (simp add: segment_top_def)
  ultimately show "low \<le> sg_virtual_address s" "low \<le> high"
    "segment_top s \<le> high \<or> low = 0 \<and> sg_virtual_address s = U64_MAX"
    using ext by (auto split: if_splits simp del: Min_le_iff Min_insert)
qed

lemma virtual_extent_cases:
  assumes "segments img = Ret ss" "ss \<noteq> []" "\<forall>s \<in> set ss. sg_virtual_address s < U64_MAX"
  shows "virtual_extent img =
    (if \<forall>s \<in> set ss. segment_top s < 2 ^ 64
     then Ret (Min (sg_virtual_address ` set ss), Max (segment_top ` set ss))
     else Panic)"
proof -
  have fin: "finite (sg_virtual_address ` set ss)" "sg_virtual_address ` set ss \<noteq> {}"
    "finite (segment_top ` set ss)" "segment_top ` set ss \<noteq> {}"
    using assms(2) by simp_all
  have "Min (sg_virtual_address ` set ss) \<in> sg_virtual_address ` set ss" by (rule Min_in [OF fin(1,2)])
  then have less: "Min (sg_virtual_address ` set ss) < U64_MAX" using assms(3) by auto
  then have "Min (insert U64_MAX (sg_virtual_address ` set ss)) = Min (sg_virtual_address ` set ss)"
    by (simp only: Min_insert [OF fin(1,2)] min.absorb2 less_imp_le)
  moreover have "Max (insert 0 (segment_top ` set ss)) = Max (segment_top ` set ss)" using fin by simp
  moreover have "Min (sg_virtual_address ` set ss) \<noteq> U64_MAX" using less by (rule less_imp_neq)
  ultimately show ?thesis
    by (simp only: virtual_extent_def assms(1) extent_loop bind.bind_lunit)
      (simp only: bind.bind_lunit bind.bind_lzero prod.case if_False simp_thms split: if_splits)
qed

text \<open>
  The memory the loader asks for covers the image. For a parsed image whose segments do not run past the
  end of the address space, the extent is the least linked address and the greatest end over all segments,
  so the allocation made from it holds every byte of every segment. The parser does not check that
  segments stay inside the address space: one that does not makes this computation overflow and panic.
\<close>

theorem virtual_extent_exact:
  assumes "segments img = Ret ss" "ss \<noteq> []" "\<forall>s \<in> set ss. sg_virtual_address s < U64_MAX"
  shows "virtual_extent img =
    (if \<forall>s \<in> set ss. segment_top s < 2 ^ 64
     then Ret (Min (sg_virtual_address ` set ss), Max (segment_top ` set ss))
     else Panic)"
  by (rule virtual_extent_cases [OF assms])

theorem virtual_extent_exact_witness:
  "virtual_extent demo_image = Ret (0x1000, 0x1008)"
  using virtual_extent_exact [OF demo_segments]
  by (simp add: demo_segment_def segment_top_def U64_MAX_def)

end
