(* ===== verification/Page_Tree.thy ===== *)
theory Page_Tree
  imports Paging
begin

text \<open>
  The shape of the bootloader's page tables: the frames taken from the arena form a tree, each reached by
  one sequence of indices, its path. A write to one entry changes only the walks that pass through it. From
  this follow the contracts of \<open>descend\<close> and of the two operations that write a leaf.
\<close>

section \<open>Frames and entries of the arena\<close>

definition frame_at :: "PageTables \<Rightarrow> nat \<Rightarrow> nat" where
  "frame_at t k = pt_arena_base t + k * 4096"

definition entry_at :: "PageTables \<Rightarrow> nat \<Rightarrow> nat \<Rightarrow> 64 word" where
  "entry_at t k i = pt_mem t (frame_at t k + 8 * i)"

definition table_entry :: "nat \<Rightarrow> 64 word" where
  "table_entry a = word_of_nat a OR bits_PRESENT OR bits_WRITABLE"

definition arena_ok :: "PageTables \<Rightarrow> bool" where
  "arena_ok t \<longleftrightarrow> pt_arena_base t mod 4096 = 0 \<and> pt_arena_base t + pt_arena_frames t * 4096 \<le> 2 ^ 52 \<and>
     0 < pt_next_frame t \<and> pt_next_frame t \<le> pt_arena_frames t \<and> pt_pml4 t = pt_arena_base t"

text \<open>An entry is empty, or maps a page at the two last levels, or points to the table one index further down.\<close>

definition entry_ok :: "(nat \<Rightarrow> nat list) \<Rightarrow> PageTables \<Rightarrow> nat \<Rightarrow> nat \<Rightarrow> bool" where
  "entry_ok path t k i \<longleftrightarrow>
     entry_at t k i = 0 \<or>
     bit (entry_at t k i) 0 \<and> (length (path k) = 3 \<or> length (path k) = 2 \<and> bit (entry_at t k i) 7) \<or>
     length (path k) < 3 \<and>
       (\<exists>j < pt_next_frame t. entry_at t k i = table_entry (frame_at t j) \<and> path j = path k @ [i])"

definition tables_tree :: "(nat \<Rightarrow> nat list) \<Rightarrow> PageTables \<Rightarrow> bool" where
  "tables_tree path t \<longleftrightarrow> arena_ok t \<and> path 0 = [] \<and> inj_on path {..<pt_next_frame t} \<and>
     (\<forall>k < pt_next_frame t. length (path k) \<le> 3 \<and> (\<forall>i < 512. entry_ok path t k i)) \<and>
     (\<forall>j < pt_next_frame t. 0 < j \<longrightarrow>
        (\<exists>k < pt_next_frame t. \<exists>i < 512. path j = path k @ [i] \<and> entry_at t k i = table_entry (frame_at t j))) \<and>
     (\<forall>k < pt_arena_frames t. \<forall>i < 512. pt_next_frame t \<le> k \<longrightarrow> entry_at t k i = 0)"

lemma frame_at_low:
  assumes "arena_ok t" "k < pt_arena_frames t"
  shows "low_address (frame_at t k)"
proof -
  have "k * 4096 + 4096 \<le> pt_arena_frames t * 4096" using assms(2) by simp
  then show ?thesis using assms(1) by (auto simp: low_address_def frame_at_def arena_ok_def mod_add_eq [symmetric])
qed

lemma table_entry_bits:
  assumes "low_address a"
  shows "bit (table_entry a) 0" "bit (table_entry a) 1" "\<not> bit (table_entry a) 7" "\<not> bit (table_entry a) 63"
    "unat (table_entry a AND ADDRESS_MASK) = a"
proof -
  show "unat (table_entry a AND ADDRESS_MASK) = a"
    unfolding table_entry_def or.assoc
    by (rule entry_address [OF assms]) (auto simp only: bit_or_iff bit_flags)
qed (simp_all only: table_entry_def bit_or_iff bit_address [OF assms] bit_flags; simp)+

lemma table_entry_nonzero: "low_address a \<Longrightarrow> table_entry a \<noteq> 0"
  using table_entry_bits(1) [of a] by (metis bit_0_eq bot_apply bot_bool_def)

lemma same_cell:
  assumes "i < 512" "i' < 512" "frame_at t k + 8 * i = frame_at t k' + 8 * i'"
  shows "k = k' \<and> i = i'"
proof -
  have eq: "i + 512 * k = i' + 512 * k'" using assms(3) unfolding frame_at_def by linarith
  have "(i + 512 * k) div 512 = k" "(i' + 512 * k') div 512 = k'" using assms(1,2) by simp_all
  with eq show ?thesis by auto
qed

lemma entry_at_write:
  assumes "i < 512" "i' < 512"
  shows "entry_at (write_entry t (frame_at t k) i v) k' i' = (if k = k' \<and> i = i' then v else entry_at t k' i')"
  using same_cell [OF assms, of t k k'] by (auto simp: entry_at_def write_entry_def frame_at_def)

lemma write_entry_fields [simp]:
  "pt_pml4 (write_entry t a i v) = pt_pml4 t" "pt_arena_base (write_entry t a i v) = pt_arena_base t"
  "pt_arena_frames (write_entry t a i v) = pt_arena_frames t"
  "pt_next_frame (write_entry t a i v) = pt_next_frame t" "frame_at (write_entry t a i v) k = frame_at t k"
  by (simp_all add: write_entry_def frame_at_def)

lemma read_entry_at: "read_entry t (frame_at t k) i = entry_at t k i"
  by (simp add: read_entry_def entry_at_def)

section \<open>Walking the tree\<close>

abbreviation walk_from :: "PageTables \<Rightarrow> nat \<Rightarrow> nat list \<Rightarrow> (64 word \<times> nat list \<times> bool \<times> bool) option" where
  "walk_from t k \<equiv> walk (pt_mem t) (frame_at t k) True True"

lemma walk_from_empty: "entry_at t k i = 0 \<Longrightarrow> walk_from t k (i # is) = None"
  by (simp add: entry_at_def [symmetric])

lemma walk_from_table:
  assumes "entry_at t k i = table_entry (frame_at t j)" "low_address (frame_at t j)" "is \<noteq> []"
  shows "walk_from t k (i # is) = walk_from t j is"
proof -
  have mem: "pt_mem t (frame_at t k + 8 * i) = table_entry (frame_at t j)"
    using assms(1) by (simp add: entry_at_def)
  note bits = table_entry_bits [OF assms(2)]
  show ?thesis
    by (simp only: walk.simps Let_def mem entry_bits entry_bits_zero bits assms(3) simp_thms if_False)
qed

lemma walk_from_leaf:
  assumes "bit (entry_at t k i) 0" "is = [] \<or> bit (entry_at t k i) 7 \<and> length is < 3"
  shows "walk_from t k (i # is) =
    Some (entry_at t k i, is, bit (entry_at t k i) 1, \<not> bit (entry_at t k i) 63)"
  using assms by (simp only: walk.simps Let_def entry_at_def [symmetric] entry_bits entry_bits_zero) auto

lemma tables_treeD:
  assumes "tables_tree path t"
  shows "arena_ok t" "path 0 = []" "inj_on path {..<pt_next_frame t}"
    "\<And>k. k < pt_next_frame t \<Longrightarrow> length (path k) \<le> 3"
    "\<And>k i. k < pt_next_frame t \<Longrightarrow> i < 512 \<Longrightarrow> entry_ok path t k i"
    "\<And>j. j < pt_next_frame t \<Longrightarrow> 0 < j \<Longrightarrow>
        \<exists>k < pt_next_frame t. \<exists>i < 512. path j = path k @ [i] \<and> entry_at t k i = table_entry (frame_at t j)"
    "\<And>k i. k < pt_arena_frames t \<Longrightarrow> i < 512 \<Longrightarrow> pt_next_frame t \<le> k \<Longrightarrow> entry_at t k i = 0"
    "\<And>k. k < pt_next_frame t \<Longrightarrow> low_address (frame_at t k)"
proof -
  show low: "\<And>k. k < pt_next_frame t \<Longrightarrow> low_address (frame_at t k)"
    using assms frame_at_low [of t] unfolding tables_tree_def arena_ok_def by (meson less_le_trans)
qed (use assms in \<open>unfold tables_tree_def, blast\<close>)+

text \<open>A walk from the root along a table's path arrives at that table.\<close>

lemma walk_reaches:
  assumes tree: "tables_tree path t" and "k < pt_next_frame t" "is \<noteq> []"
  shows "walk_from t 0 (path k @ is) = walk_from t k is"
  using assms(2,3)
proof (induction "length (path k)" arbitrary: k "is" rule: less_induct)
  case less
  note tree = tables_treeD [OF tree]
  show ?case
  proof (cases "k = 0")
    case True
    then show ?thesis using tree(2) by simp
  next
    case False
    then obtain k' i where k': "k' < pt_next_frame t" "i < 512" "path k = path k' @ [i]"
        "entry_at t k' i = table_entry (frame_at t k)"
      using tree(6) [of k] less.prems by auto
    then have "walk_from t 0 (path k' @ i # is) = walk_from t k' (i # is)"
      using less.hyps [of k' "i # is"] by simp
    also have "\<dots> = walk_from t k is"
      by (rule walk_from_table [OF k'(4) tree(8) [OF less.prems(1)] less.prems(2)])
    finally show ?thesis using k'(3) by simp
  qed
qed

text \<open>A change of one entry leaves every walk alone that does not pass through it.\<close>

lemma walk_frame:
  assumes tree: "tables_tree path t"
    and same: "\<And>k i. k < pt_next_frame t \<Longrightarrow> i < 512 \<Longrightarrow> path k @ [i] \<noteq> hit \<Longrightarrow> entry_at t' k i = entry_at t k i"
    and base: "pt_arena_base t' = pt_arena_base t"
    and "k < pt_next_frame t" "length (path k @ is) = 4" "\<forall>i \<in> set is. i < 512"
    and "\<not> prefix hit (path k @ is)"
  shows "walk_from t' k is = walk_from t k is"
  using assms(4-)
proof (induction "is" arbitrary: k)
  case (Cons i "is")
  note tree = tables_treeD [OF tree]
  have i: "i < 512" using Cons.prems(3) by simp
  have frame: "frame_at t' j = frame_at t j" for j using base by (simp add: frame_at_def)
  have "path k @ [i] \<noteq> hit" using Cons.prems(4) by (auto simp: prefix_def)
  then have same_entry: "entry_at t' k i = entry_at t k i" by (rule same [OF Cons.prems(1) i])
  from tree(5) [OF Cons.prems(1) i] consider "entry_at t k i = 0"
    | "bit (entry_at t k i) 0" "length (path k) = 3 \<or> length (path k) = 2 \<and> bit (entry_at t k i) 7"
    | j where "length (path k) < 3" "j < pt_next_frame t" "entry_at t k i = table_entry (frame_at t j)"
        "path j = path k @ [i]"
    unfolding entry_ok_def by blast
  then show ?case
  proof cases
    case 1
    then show ?thesis using same_entry by (simp only: walk_from_empty)
  next
    case 2
    then have "is = [] \<or> bit (entry_at t k i) 7 \<and> length is < 3" using Cons.prems(2) by auto
    with 2(1) show ?thesis using same_entry by (simp only: walk_from_leaf)
  next
    case 3
    then have "is \<noteq> []" using Cons.prems(2) by auto
    moreover note low = tree(8) [OF 3(2)]
    moreover have "walk_from t' j is = walk_from t j is"
      by (rule Cons.IH) (use 3 Cons.prems in simp_all)
    moreover have "walk_from t' k (i # is) = walk_from t' j is"
      by (rule walk_from_table) (use 3 same_entry low frame \<open>is \<noteq> []\<close> in simp_all)
    ultimately show ?thesis using walk_from_table [OF 3(3)] by simp
  qed
qed simp

section \<open>Growing the tree\<close>

definition index_path :: "nat list \<Rightarrow> bool" where
  "index_path idx \<longleftrightarrow> length idx = 4 \<and> (\<forall>i \<in> set idx. i < 512)"

lemma walk_frame_root:
  assumes tree: "tables_tree path t"
    and same: "\<And>k i. k < pt_next_frame t \<Longrightarrow> i < 512 \<Longrightarrow> path k @ [i] \<noteq> hit \<Longrightarrow> entry_at t' k i = entry_at t k i"
    and base: "pt_arena_base t' = pt_arena_base t" and "index_path idx" "\<not> prefix hit idx"
  shows "walk_from t' 0 idx = walk_from t 0 idx"
proof (rule walk_frame [OF tree same base])
  note tree = tables_treeD [OF tree]
  show "0 < pt_next_frame t" using tree(1) by (simp add: arena_ok_def)
  show "length (path 0 @ idx) = 4" "\<forall>i \<in> set idx. i < 512" "\<not> prefix hit (path 0 @ idx)"
    using assms(4,5) tree(2) by (simp_all add: index_path_def)
qed assumption

lemma path_entry_free:
  assumes tree: "tables_tree path t" and k: "k < pt_next_frame t" and "i < 512" "entry_at t k i = 0"
    and j: "j < pt_next_frame t"
  shows "path j \<noteq> path k @ [i]"
proof
  assume eq: "path j = path k @ [i]"
  note tree = tables_treeD [OF tree]
  from eq tree(2) have "0 < j" by (metis gr0I snoc_eq_iff_butlast)
  then obtain k' i' where k': "k' < pt_next_frame t" "path j = path k' @ [i']"
      "entry_at t k' i' = table_entry (frame_at t j)"
    using tree(6) [OF j] by blast
  then have "path k' = path k" "i' = i" using eq by auto
  then have "k' = k" using tree(3) k k'(1) by (auto dest: inj_onD)
  then show False using k'(3) assms(4) \<open>i' = i\<close> table_entry_nonzero [OF tree(8) [OF j]] by simp
qed

text \<open>Taking a frame for a missing table adds a node to the tree and changes no walk.\<close>

lemma tree_new_table:
  assumes tree: "tables_tree path t" and k: "k < pt_next_frame t" and i: "i < 512"
    and short: "length (path k) < 3" and free: "entry_at t k i = 0"
    and room: "pt_next_frame t < pt_arena_frames t"
    and t': "t' = write_entry (t\<lparr>pt_next_frame := Suc (pt_next_frame t)\<rparr>) (frame_at t k) i
      (table_entry (frame_at t (pt_next_frame t)))"
    and path': "path' = path(pt_next_frame t := path k @ [i])"
  shows "tables_tree path' t'" and "index_path idx \<Longrightarrow> walk_from t' 0 idx = walk_from t 0 idx"
proof -
  let ?n = "pt_next_frame t"
  note tree' = tables_treeD [OF tree]
  have frame: "frame_at t' j = frame_at t j" for j by (simp add: t' frame_at_def write_entry_def)
  have fields: "pt_next_frame t' = Suc ?n" "pt_arena_frames t' = pt_arena_frames t"
    "pt_arena_base t' = pt_arena_base t" "pt_pml4 t' = pt_pml4 t"
    by (simp_all add: t')
  have entry: "entry_at t' k' i' = (if k' = k \<and> i' = i then table_entry (frame_at t ?n) else entry_at t k' i')"
    if "i' < 512" for k' i'
    using same_cell [OF i that, of t k k'] by (auto simp: t' entry_at_def write_entry_def frame_at_def)
  have zero: "entry_at t' ?n i' = 0" if "i' < 512" for i'
    using entry [OF that, of ?n] tree'(7) [OF room that] k by simp
  have old: "path' j = path j" if "j < ?n" for j using that by (simp add: path')
  have new: "path' ?n = path k @ [i]" by (simp add: path')
  have ok: "entry_ok path' t' k' i'" if k': "k' < ?n" and i': "i' < 512" for k' i'
  proof (cases "k' = k \<and> i' = i")
    case True
    then have "entry_at t' k' i' = table_entry (frame_at t' ?n)" using entry [OF i'] frame by simp
    then show ?thesis using True short old [OF k] new fields(1) unfolding entry_ok_def by auto
  next
    case False
    then have "entry_at t' k' i' = entry_at t k' i'" using entry [OF i', of k'] by auto
    with tree'(5) [OF k' i'] show ?thesis
      unfolding entry_ok_def frame fields(1) old [OF k'] using old by (metis less_Suc_eq)
  qed
  have fresh: "path k @ [i] \<notin> path ` {..<?n}" using path_entry_free [OF tree k i free] by (metis imageE lessThan_iff)
  have "inj_on path' {..<Suc ?n}"
  proof -
    have "inj_on path' {..<?n}" using tree'(3) old by (auto simp: inj_on_def)
    moreover have "path' ` {..<?n} = path ` {..<?n}" using old by (intro image_cong) auto
    ultimately show ?thesis using fresh new by (simp add: lessThan_Suc)
  qed
  moreover have "arena_ok t'" using tree'(1) room by (simp add: arena_ok_def fields)
  moreover have "path' 0 = []" using tree'(1,2) old by (simp add: arena_ok_def)
  moreover have "length (path' j) \<le> 3" if "j < Suc ?n" for j
    using that tree'(4) old new short by (cases "j = ?n") auto
  moreover have "entry_ok path' t' j i'" if "j < Suc ?n" "i' < 512" for j i'
    using that ok zero by (cases "j = ?n") (auto simp: entry_ok_def)
  moreover have "\<exists>k' < Suc ?n. \<exists>i' < 512. path' j = path' k' @ [i'] \<and> entry_at t' k' i' = table_entry (frame_at t' j)"
    if jn: "j < Suc ?n" and j0: "0 < j" for j
  proof (cases "j = ?n")
    case True
    then show ?thesis using k i new old [OF k] entry [OF i] frame by (intro exI [of _ k] exI [of _ i]) auto
  next
    case False
    then have j: "j < ?n" using jn by simp
    then obtain k' i' where k': "k' < ?n" "i' < 512" "path j = path k' @ [i']"
        "entry_at t k' i' = table_entry (frame_at t j)" using tree'(6) j0 by blast
    moreover have "\<not> (k' = k \<and> i' = i)"
      using k'(4) free table_entry_nonzero [OF tree'(8) [OF j]] by auto
    ultimately show ?thesis using old [OF j] old [OF k'(1)] entry [OF k'(2), of k'] frame
      by (intro exI [of _ k'] conjI exI [of _ i']) auto
  qed
  moreover have "entry_at t' j i' = 0" if "j < pt_arena_frames t" "i' < 512" "Suc ?n \<le> j" for j i'
    using that tree'(7) [OF that(1,2)] entry [OF that(2), of j] k by simp
  ultimately show tree2: "tables_tree path' t'" unfolding tables_tree_def fields by blast
  assume idx: "index_path idx"
  show "walk_from t' 0 idx = walk_from t 0 idx"
  proof (cases "prefix (path k @ [i]) idx")
    case True
    then obtain "is" where "is": "idx = path k @ i # is" by (auto simp: prefix_def)
    then obtain i' is' where i': "is = i' # is'" "i' < 512"
      using idx short by (cases "is") (auto simp: index_path_def)
    have "walk_from t' 0 idx = walk_from t' k (i # is)"
      using walk_reaches [OF tree2, of k "i # is"] k fields(1) old [OF k] "is" by simp
    also have "\<dots> = walk_from t' ?n is"
      by (rule walk_from_table) (use entry [OF i] frame frame_at_low [OF tree'(1) room] i'(1) in auto)
    also have "\<dots> = None" unfolding i'(1) by (rule walk_from_empty [OF zero [OF i'(2)]])
    finally show ?thesis
      using walk_reaches [OF tree k, of "i # is"] walk_from_empty [OF free] "is" by simp
  next
    case False
    show ?thesis
      by (rule walk_frame_root [OF tree _ fields(3) idx False]) (use entry in auto)
  qed
qed

text \<open>Writing a leaf into an empty entry adds the walks through it and changes no other.\<close>

lemma tree_new_leaf:
  assumes tree: "tables_tree path t" and k: "k < pt_next_frame t" and i: "i < 512"
    and leaf: "bit v 0" "length (path k) = 3 \<or> length (path k) = 2 \<and> bit v 7" and free: "entry_at t k i = 0"
    and t': "t' = write_entry t (frame_at t k) i v"
  shows "tables_tree path t'"
    and "index_path (path k @ i # is) \<Longrightarrow>
      walk_from t 0 (path k @ i # is) = None \<and> walk_from t' 0 (path k @ i # is) = Some (v, is, bit v 1, \<not> bit v 63)"
    and "index_path idx \<Longrightarrow> \<not> prefix (path k @ [i]) idx \<Longrightarrow> walk_from t' 0 idx = walk_from t 0 idx"
proof -
  note tree' = tables_treeD [OF tree]
  have entry: "entry_at t' k' i' = (if k' = k \<and> i' = i then v else entry_at t k' i')" if "i' < 512" for k' i'
    using entry_at_write [OF i that, of t k v k'] by (auto simp: t')
  have frame: "frame_at t' j = frame_at t j" for j by (simp add: t')
  have fields: "pt_next_frame t' = pt_next_frame t" "pt_arena_frames t' = pt_arena_frames t"
    "pt_arena_base t' = pt_arena_base t" "pt_pml4 t' = pt_pml4 t"
    by (simp_all add: t')
  have "entry_ok path t' k' i'" if "k' < pt_next_frame t" "i' < 512" for k' i'
    using tree'(5) [OF that] leaf entry [OF that(2), of k'] unfolding entry_ok_def frame fields
    by (cases "k' = k \<and> i' = i") auto
  moreover have "\<exists>k' < pt_next_frame t. \<exists>i' < 512. path j = path k' @ [i'] \<and> entry_at t' k' i' = table_entry (frame_at t' j)"
    if j: "j < pt_next_frame t" "0 < j" for j
  proof -
    obtain k' i' where k': "k' < pt_next_frame t" "i' < 512" "path j = path k' @ [i']"
        "entry_at t k' i' = table_entry (frame_at t j)" using tree'(6) [OF j] by blast
    then have "\<not> (k' = k \<and> i' = i)" using free table_entry_nonzero [OF tree'(8) [OF j(1)]] by auto
    with k' show ?thesis using entry [OF k'(2), of k'] frame by auto
  qed
  moreover have "arena_ok t'" using tree'(1) by (simp add: arena_ok_def fields)
  moreover have "entry_at t' j i' = 0" if "j < pt_arena_frames t" "i' < 512" "pt_next_frame t \<le> j" for j i'
    using that tree'(7) [OF that] entry [OF that(2), of j] k by simp
  ultimately show tree2: "tables_tree path t'"
    unfolding tables_tree_def fields using tree'(2,3,4) by blast
  show "walk_from t 0 (path k @ i # is) = None \<and> walk_from t' 0 (path k @ i # is) = Some (v, is, bit v 1, \<not> bit v 63)"
    if "index_path (path k @ i # is)"
  proof -
    have "is = [] \<or> bit v 7 \<and> length is < 3" using that leaf(2) by (auto simp: index_path_def)
    then have "walk_from t' k (i # is) = Some (v, is, bit v 1, \<not> bit v 63)"
      using walk_from_leaf [of t' k i "is"] entry [OF i] leaf(1) by simp
    then show ?thesis
      using walk_reaches [OF tree k, of "i # is"] walk_reaches [OF tree2, of k "i # is"] k fields(1)
        walk_from_empty [OF free] by simp
  qed
  show "walk_from t' 0 idx = walk_from t 0 idx" if "index_path idx" "\<not> prefix (path k @ [i]) idx"
    by (rule walk_frame_root [OF tree _ fields(3) that]) (use entry in auto)
qed

end
