(* ===== verification/Page_Mapping.thy ===== *)
theory Page_Mapping
  imports Page_Tree
begin

text \<open>
  The contracts of the mapping operations of \<^verbatim>\<open>paging.rs\<close>, over the translation the processor
  reads from the tables. The contract of the operations that map one page is the locale
  \<open>chunk_mapper\<close>, interpreted once for 4 KiB and once for 2 MiB pages; the loops over a range of
  pages are verified once, inside the locale.
\<close>

section \<open>Outcomes of an operation\<close>

definition wp :: "'a paging \<Rightarrow> (PagingError + 'a \<Rightarrow> PageTables \<Rightarrow> bool) \<Rightarrow> PageTables \<Rightarrow> bool" where
  "wp m Q t \<longleftrightarrow> (\<exists>r t'. m t = Ret (r, t') \<and> Q r t')"

lemma wp_and_then:
  "wp (and_then m f) Q t \<longleftrightarrow> wp m (\<lambda>r t'. case r of Inl e \<Rightarrow> Q (Inl e) t' | Inr x \<Rightarrow> wp (f x) Q t') t"
proof (cases "m t")
  case (Some a)
  then obtain r t' where "m t = Ret (r, t')" by (cases a) auto
  then show ?thesis by (cases r) (simp_all add: wp_def and_then_def)
qed (simp add: wp_def and_then_def)

lemma wp_mono: "wp m P t \<Longrightarrow> (\<And>r t'. P r t' \<Longrightarrow> Q r t') \<Longrightarrow> wp m Q t"
  by (auto simp: wp_def)

text \<open>
  Well-formed tables, with the paths of all tables in \<open>S\<close>. As every table has its own path, an arena
  with a frame for each element of \<open>S\<close> is never used up.
\<close>

lemma wp_conj: "wp m P t \<Longrightarrow> wp m Q t \<Longrightarrow> wp m (\<lambda>r t'. P r t' \<and> Q r t') t"
  by (auto simp: wp_def)

definition tables_in :: "nat list set \<Rightarrow> PageTables \<Rightarrow> bool" where
  "tables_in S t \<longleftrightarrow> (\<exists>path. tables_tree path t \<and> path ` {..<pt_next_frame t} \<subseteq> S)"

abbreviation tables_ok :: "PageTables \<Rightarrow> bool" where
  "tables_ok \<equiv> tables_in UNIV"

definition roomy :: "nat list set \<Rightarrow> PageTables \<Rightarrow> bool" where
  "roomy S t \<longleftrightarrow> finite S \<and> card S \<le> pt_arena_frames t"

definition same_walks :: "PageTables \<Rightarrow> PageTables \<Rightarrow> bool" where
  "same_walks t t' \<longleftrightarrow> pt_arena_frames t' = pt_arena_frames t \<and>
     (\<forall>idx. index_path idx \<longrightarrow> walk_from t' 0 idx = walk_from t 0 idx)"

lemma same_walks_refl [simp]: "same_walks t t"
  by (simp add: same_walks_def)

lemma same_walks_trans: "same_walks t u \<Longrightarrow> same_walks u v \<Longrightarrow> same_walks t v"
  by (simp add: same_walks_def)

section \<open>One level down\<close>

lemma take_frame_ok:
  assumes "arena_ok t"
  shows "take_frame t = (if pt_next_frame t < pt_arena_frames t
    then Ret (Inr (frame_at t (pt_next_frame t)), t\<lparr>pt_next_frame := Suc (pt_next_frame t)\<rparr>)
    else Ret (Inl ArenaExhausted, t))"
proof (cases "pt_next_frame t < pt_arena_frames t")
  case True
  then have "pt_next_frame t * 4096 + 4096 \<le> pt_arena_frames t * 4096" by simp
  moreover have "pt_arena_base t + pt_arena_frames t * 4096 \<le> 2 ^ 52" using assms by (simp add: arena_ok_def)
  ultimately have "pt_arena_base t + pt_next_frame t * 4096 < 2 ^ 52" by linarith
  then have "mul64 (pt_next_frame t) PAGE_SIZE = Ret (pt_next_frame t * 4096)"
    "add64 (pt_arena_base t) (pt_next_frame t * 4096) = Ret (frame_at t (pt_next_frame t))"
    "add64 (pt_next_frame t) 1 = Ret (Suc (pt_next_frame t))"
    by (simp_all add: PAGE_SIZE_def frame_at_def)
  with True show ?thesis by (simp only: take_frame_def not_less [symmetric] if_False if_True bind.bind_lunit simp_thms)
qed (simp add: take_frame_def)

text \<open>
  \<open>descend\<close> keeps the tree and all walks; it gives the table one index further down, or reports
  that the arena is used up, or that a large page is already mapped there.
\<close>

lemma exhausted_not_roomy:
  assumes tree: "tables_tree path t" and k: "k < pt_next_frame t" "i < 512" "entry_at t k i = 0"
    and S: "path ` {..<pt_next_frame t} \<subseteq> S" "path k @ [i] \<in> S" and full: "pt_next_frame t = pt_arena_frames t"
  shows "\<not> roomy S t"
proof
  assume room: "roomy S t"
  have "path k @ [i] \<notin> path ` {..<pt_next_frame t}" using path_entry_free [OF tree k] by (metis imageE lessThan_iff)
  moreover have "card (path ` {..<pt_next_frame t}) = pt_next_frame t"
    using tables_treeD(3) [OF tree] by (simp add: card_image)
  ultimately have "card (insert (path k @ [i]) (path ` {..<pt_next_frame t})) = Suc (pt_arena_frames t)"
    using full by simp
  moreover have "card (insert (path k @ [i]) (path ` {..<pt_next_frame t})) \<le> card S"
    using S room by (intro card_mono) (auto simp: roomy_def)
  ultimately show False using room by (simp add: roomy_def)
qed

lemma descend_ok:
  assumes tree: "tables_tree path t" and k: "k < pt_next_frame t" and i: "i < 512"
    and short: "length (path k) < 3" and S: "path ` {..<pt_next_frame t} \<subseteq> S" "path k @ [i] \<in> S"
  shows "wp (descend (frame_at t k) i) (\<lambda>r t'. same_walks t t' \<and> (\<exists>path'. tables_tree path' t' \<and>
    path' ` {..<pt_next_frame t'} \<subseteq> S \<and>
    (case r of
       Inr a \<Rightarrow> \<exists>j < pt_next_frame t'. a = frame_at t' j \<and> path' j = path k @ [i]
     | Inl e \<Rightarrow> e = ArenaExhausted \<and> frames_used t' = pt_arena_frames t' \<and> \<not> roomy S t' \<or>
         e = Conflict \<and> length (path k) = 2 \<and>
           (\<forall>is. index_path (path k @ i # is) \<longrightarrow> walk_from t 0 (path k @ i # is) \<noteq> None)))) t"
proof -
  note tree' = tables_treeD [OF tree]
  from tree'(5) [OF k i] short consider "entry_at t k i = 0"
    | "bit (entry_at t k i) 0" "length (path k) = 2" "bit (entry_at t k i) 7"
    | j where "j < pt_next_frame t" "entry_at t k i = table_entry (frame_at t j)" "path j = path k @ [i]"
    unfolding entry_ok_def by auto
  then show ?thesis
  proof cases
    case 1
    show ?thesis
    proof (cases "pt_next_frame t < pt_arena_frames t")
      case True
      let ?n = "pt_next_frame t"
      let ?t = "write_entry (t\<lparr>pt_next_frame := Suc ?n\<rparr>) (frame_at t k) i (table_entry (frame_at t ?n))"
      have "descend (frame_at t k) i t = Ret (Inr (frame_at t ?n), ?t)"
        using True by (simp add: descend_def read_entry_at 1 and_then_def take_frame_ok [OF tree'(1)] table_entry_def)
      moreover note new = tree_new_table [OF tree k i short 1 True refl refl]
      moreover have "same_walks t ?t" using new(2) by (simp add: same_walks_def)
      moreover have "frame_at ?t ?n = frame_at t ?n" by (simp add: frame_at_def)
      ultimately show ?thesis
        using S unfolding wp_def
        by (auto intro!: exI [of _ "path(?n := path k @ [i])"] exI [of _ ?n] simp: less_Suc_eq image_subset_iff)
    next
      case False
      then have "descend (frame_at t k) i t = Ret (Inl ArenaExhausted, t)"
        by (simp add: descend_def read_entry_at 1 and_then_def take_frame_ok [OF tree'(1)])
      moreover have full: "pt_next_frame t = pt_arena_frames t"
        using False tree'(1) by (simp add: arena_ok_def)
      moreover have "\<not> roomy S t" by (rule exhausted_not_roomy [OF tree k i 1 S full])
      ultimately show ?thesis using tree S unfolding wp_def by (auto simp: frames_used_def)
    qed
  next
    case 2
    then have "descend (frame_at t k) i t = Ret (Inl Conflict, t)"
      by (simp add: descend_def read_entry_at entry_bits)
    moreover have "walk_from t 0 (path k @ i # is) \<noteq> None" if "index_path (path k @ i # is)" for "is"
    proof -
      have "length is < 3" using that 2(2) by (simp add: index_path_def)
      then show ?thesis
        using walk_reaches [OF tree k, of "i # is"] walk_from_leaf [OF 2(1), of "is"] 2(3) by simp
    qed
    ultimately show ?thesis using tree S 2(2) unfolding wp_def by auto
  next
    case 3
    then have "descend (frame_at t k) i t = Ret (Inr (frame_at t j), t)"
      using table_entry_bits [OF tree'(8) [OF 3(1)]] by (simp add: descend_def read_entry_at entry_bits)
    with 3 tree S show ?thesis unfolding wp_def by auto
  qed
qed

section \<open>Indices of an address\<close>

lemma index_digits:
  "pml4_index va = va div 2 ^ 39 mod 512" "pdpt_index va = va div 2 ^ 30 mod 512"
  "pd_index va = va div 2 ^ 21 mod 512" "pt_index va = va div 2 ^ 12 mod 512"
proof -
  have "x AND 0x1FF = x mod 512" for x :: nat
    using take_bit_eq_mask [of 9 x] by (simp add: mask_eq_exp_minus_1 take_bit_eq_mod)
  then show "pml4_index va = va div 2 ^ 39 mod 512" "pdpt_index va = va div 2 ^ 30 mod 512"
    "pd_index va = va div 2 ^ 21 mod 512" "pt_index va = va div 2 ^ 12 mod 512"
    by (simp_all only: pml4_index_def pdpt_index_def pd_index_def pt_index_def drop_bit_eq_div)
qed

lemma indices_path [simp]: "index_path (indices va)"
  by (simp add: index_path_def indices_def index_digits)

text \<open>The processor ignores the top 16 bits of an address; two addresses with the same low 48 bits are one.\<close>

definition chunk_of :: "nat \<Rightarrow> nat \<Rightarrow> nat" where
  "chunk_of c va = va mod 2 ^ 48 div c"

lemma chunk_of_digits: "chunk_of (2 ^ n) va = va div 2 ^ n mod 2 ^ (48 - n)" if "n \<le> 48"
proof -
  have "(2 :: nat) ^ 48 = 2 ^ n * 2 ^ (48 - n)" using that by (simp flip: power_add)
  then have "va mod 2 ^ 48 = 2 ^ n * (va div 2 ^ n mod 2 ^ (48 - n)) + va mod 2 ^ n"
    by (simp only: mod_mult2_eq)
  then show ?thesis by (simp add: chunk_of_def)
qed

lemma digits_eq:
  fixes a b :: nat
  shows "a mod (512 * m) = b mod (512 * m) \<longleftrightarrow> a mod 512 = b mod 512 \<and> a div 512 mod m = b div 512 mod m"
proof -
  have "(512 * x + a mod 512) div 512 = x" "(512 * x + a mod 512) mod 512 = a mod 512" for x a :: nat
    by simp_all
  then show ?thesis unfolding mod_mult2_eq by metis
qed

lemma same_indices: "indices va = indices va' \<longleftrightarrow> chunk_of 4096 va = chunk_of 4096 va'"
  and same_huge_indices: "take 3 (indices va) = take 3 (indices va') \<longleftrightarrow> chunk_of HUGE_PAGE_SIZE va = chunk_of HUGE_PAGE_SIZE va'"
proof -
  have d: "va div 2 ^ 21 div 512 = va div 2 ^ 30" "va div 2 ^ 30 div 512 = va div 2 ^ 39"
    "va div 2 ^ 12 div 512 = va div 2 ^ 21" for va :: nat
    by (simp_all flip: div_mult2_eq)
  have huge: "va div 2 ^ 21 mod 2 ^ 27 = va' div 2 ^ 21 mod 2 ^ 27 \<longleftrightarrow>
      pml4_index va = pml4_index va' \<and> pdpt_index va = pdpt_index va' \<and> pd_index va = pd_index va'"
    using digits_eq [of "va div 2 ^ 21" "2 ^ 18" "va' div 2 ^ 21"] digits_eq [of "va div 2 ^ 30" "2 ^ 9" "va' div 2 ^ 30"]
    unfolding d index_digits by simp blast
  have page: "va div 2 ^ 12 mod 2 ^ 36 = va' div 2 ^ 12 mod 2 ^ 36 \<longleftrightarrow>
      pt_index va = pt_index va' \<and> va div 2 ^ 21 mod 2 ^ 27 = va' div 2 ^ 21 mod 2 ^ 27"
    using digits_eq [of "va div 2 ^ 12" "2 ^ 27" "va' div 2 ^ 12"] unfolding d index_digits by simp
  show "indices va = indices va' \<longleftrightarrow> chunk_of 4096 va = chunk_of 4096 va'"
    using page huge chunk_of_digits [of 12] by (auto simp: indices_def)
  show "take 3 (indices va) = take 3 (indices va') \<longleftrightarrow> chunk_of HUGE_PAGE_SIZE va = chunk_of HUGE_PAGE_SIZE va'"
    using huge chunk_of_digits [of 21] by (auto simp: indices_def HUGE_PAGE_SIZE_def)
qed

section \<open>Mapping one page\<close>

text \<open>The rule for a descent followed by the rest of an operation.\<close>

lemma descend_wp:
  assumes tree: "tables_tree path t" and k: "k < pt_next_frame t" "i < 512" "path k = p" "length p < 3"
    and S: "path ` {..<pt_next_frame t} \<subseteq> S" "p @ [i] \<in> S"
    and go: "\<And>path' t' j. tables_tree path' t' \<Longrightarrow> path' ` {..<pt_next_frame t'} \<subseteq> S \<Longrightarrow> same_walks t t' \<Longrightarrow>
        j < pt_next_frame t' \<Longrightarrow> path' j = p @ [i] \<Longrightarrow> wp (f (frame_at t' j)) Q t'"
    and full: "\<And>t'. tables_in S t' \<Longrightarrow> same_walks t t' \<Longrightarrow> frames_used t' = pt_arena_frames t' \<Longrightarrow>
        \<not> roomy S t' \<Longrightarrow> Q (Inl ArenaExhausted) t'"
    and taken: "\<And>t'. tables_in S t' \<Longrightarrow> same_walks t t' \<Longrightarrow> length p = 2 \<Longrightarrow>
        \<forall>is. index_path (p @ i # is) \<longrightarrow> walk_from t 0 (p @ i # is) \<noteq> None \<Longrightarrow> Q (Inl Conflict) t'"
  shows "wp (and_then (descend (frame_at t k) i) f) Q t"
  unfolding wp_and_then
proof (rule wp_mono [OF descend_ok [OF tree k(1,2) _ S(1)]])
  show "length (path k) < 3" "path k @ [i] \<in> S" using k S by simp_all
  fix r t'
  assume "same_walks t t' \<and> (\<exists>path'. tables_tree path' t' \<and> path' ` {..<pt_next_frame t'} \<subseteq> S \<and>
    (case r of
       Inr a \<Rightarrow> \<exists>j < pt_next_frame t'. a = frame_at t' j \<and> path' j = path k @ [i]
     | Inl e \<Rightarrow> e = ArenaExhausted \<and> frames_used t' = pt_arena_frames t' \<and> \<not> roomy S t' \<or>
         e = Conflict \<and> length (path k) = 2 \<and>
           (\<forall>is. index_path (path k @ i # is) \<longrightarrow> walk_from t 0 (path k @ i # is) \<noteq> None)))"
  then obtain path' where out: "same_walks t t'" "tables_tree path' t'" "path' ` {..<pt_next_frame t'} \<subseteq> S"
    "case r of
       Inr a \<Rightarrow> \<exists>j < pt_next_frame t'. a = frame_at t' j \<and> path' j = path k @ [i]
     | Inl e \<Rightarrow> e = ArenaExhausted \<and> frames_used t' = pt_arena_frames t' \<and> \<not> roomy S t' \<or>
         e = Conflict \<and> length (path k) = 2 \<and>
           (\<forall>is. index_path (path k @ i # is) \<longrightarrow> walk_from t 0 (path k @ i # is) \<noteq> None)"
    by blast
  then have ok: "tables_in S t'" by (auto simp: tables_in_def)
  show "case r of Inl e \<Rightarrow> Q (Inl e) t' | Inr x \<Rightarrow> wp (f x) Q t'"
  proof (cases r)
    case (Inl e)
    with out(1,4) ok k(3) full [of t'] taken [of t'] show ?thesis by auto
  next
    case (Inr a)
    then obtain j where "j < pt_next_frame t'" "a = frame_at t' j" "path' j = p @ [i]" using out(4) k(3) by auto
    with go [OF out(2,3,1)] Inr show ?thesis by simp
  qed
qed

text \<open>The last step of both operations: refuse an entry in use, write an empty one.\<close>

lemma leaf_wp:
  assumes tree: "tables_tree path t" and S: "path ` {..<pt_next_frame t} \<subseteq> S"
    and k: "k < pt_next_frame t" "i < 512" "path k = p"
    and leaf: "bit v 0" "length p = 3 \<or> length p = 2 \<and> bit v 7"
    and taken: "length p = 2 \<and> p @ [i] \<in> S \<or> (\<forall>is. length is + length p = 3 \<longrightarrow> walk_from t 0 (p @ i # is) \<noteq> None) \<Longrightarrow>
      Q (Inl Conflict) t"
    and written: "\<And>t'. tables_in S t' \<Longrightarrow> pt_arena_frames t' = pt_arena_frames t \<Longrightarrow>
        \<forall>is. index_path (p @ i # is) \<longrightarrow> walk_from t 0 (p @ i # is) = None \<and>
          walk_from t' 0 (p @ i # is) = Some (v, is, bit v 1, \<not> bit v 63) \<Longrightarrow>
        \<forall>idx. index_path idx \<and> \<not> prefix (p @ [i]) idx \<longrightarrow> walk_from t' 0 idx = walk_from t 0 idx \<Longrightarrow>
        Q (Inr ()) t'"
  shows "wp (\<lambda>u. let index = i; existing = read_entry u (frame_at t k) index in
    if existing AND bits_PRESENT \<noteq> 0 then Ret (Inl Conflict, u)
    else Ret (Inr (), write_entry u (frame_at t k) index v)) Q t"
proof (cases "bit (entry_at t k i) 0")
  case True
  have "length p = 2 \<and> p @ [i] \<in> S \<or> (\<forall>is. length is + length p = 3 \<longrightarrow> walk_from t 0 (p @ i # is) \<noteq> None)"
    using tables_treeD(5) [OF tree k(1,2)] True unfolding entry_ok_def k(3)
  proof (elim disjE conjE exE)
    fix j assume "length p < 3" "j < pt_next_frame t" "path j = p @ [i]"
    then have "p @ [i] \<in> path ` {..<pt_next_frame t}" by (metis imageI lessThan_iff)
    then show ?thesis using S leaf(2) \<open>length p < 3\<close> by auto
  qed (use walk_reaches [OF tree k(1)] walk_from_leaf [OF True] k(3) in auto)
  then have "Q (Inl Conflict) t" by (rule taken)
  with True show ?thesis by (simp add: wp_def read_entry_at entry_bits)
next
  case False
  have "entry_at t k i = 0"
    using tables_treeD(5) [OF tree k(1,2)] False table_entry_bits(1) tables_treeD(8) [OF tree]
    unfolding entry_ok_def by metis
  note new = tree_new_leaf [OF tree k(1,2) leaf [folded k(3)] this refl, unfolded k(3)]
  have "Q (Inr ()) (write_entry t (frame_at t k) i v)"
    by (rule written) (use new S in \<open>auto simp: tables_in_def\<close>)
  with False show ?thesis by (simp add: wp_def read_entry_at entry_bits)
qed

lemma leaf_bits:
  assumes "low_address pa"
  shows "bit (word_of_nat pa OR to_bits p :: 64 word) 0" "bit (word_of_nat pa OR to_bits p OR bits_HUGE :: 64 word) 0"
    "bit (word_of_nat pa OR to_bits p OR bits_HUGE :: 64 word) 7"
    "bit (word_of_nat pa OR to_bits p :: 64 word) 1 = pp_writable p"
    "bit (word_of_nat pa OR to_bits p :: 64 word) 63 = (\<not> pp_executable p)"
    "bit (word_of_nat pa OR to_bits p OR bits_HUGE :: 64 word) 1 = pp_writable p"
    "bit (word_of_nat pa OR to_bits p OR bits_HUGE :: 64 word) 63 = (\<not> pp_executable p)"
  by (simp_all only: bit_or_iff bit_address [OF assms] bit_to_bits bit_flags; simp)+

lemma leaf_address:
  assumes "low_address pa"
  shows "unat ((word_of_nat pa OR to_bits p) AND ADDRESS_MASK :: 64 word) = pa"
    "unat ((word_of_nat pa OR to_bits p OR bits_HUGE) AND ADDRESS_MASK :: 64 word) = pa"
proof -
  show "unat ((word_of_nat pa OR to_bits p) AND ADDRESS_MASK :: 64 word) = pa"
    by (rule entry_address [OF assms]) (simp add: bit_to_bits)
  show "unat ((word_of_nat pa OR to_bits p OR bits_HUGE) AND ADDRESS_MASK :: 64 word) = pa"
    unfolding or.assoc by (rule entry_address [OF assms]) (simp only: bit_or_iff bit_to_bits bit_flags, simp)
qed

lemma translate_walk: "tables_in S t \<Longrightarrow>
    translate t va = map_option (leaf_translation va) (walk_from t 0 (indices va))"
  by (auto simp: translate_def cr3_value_def frame_at_def tables_in_def tables_tree_def arena_ok_def)

lemma same_walks_translate: "tables_in S t \<Longrightarrow> tables_in S t' \<Longrightarrow> same_walks t t' \<Longrightarrow> translate t' = translate t"
  by (rule ext) (simp add: translate_walk same_walks_def)

text \<open>What mapping one page of \<open>c\<close> bytes does to the translation.\<close>

definition maps_one :: "nat \<Rightarrow> nat list set \<Rightarrow> nat \<Rightarrow> nat \<Rightarrow> PagePermissions \<Rightarrow> PageTables \<Rightarrow>
    PagingError + unit \<Rightarrow> PageTables \<Rightarrow> bool" where
  "maps_one c S va pa p t r t' \<longleftrightarrow> tables_in S t' \<and> pt_arena_frames t' = pt_arena_frames t \<and>
     (case r of
        Inl e \<Rightarrow> translate t' = translate t \<and> (e = Misaligned \<longleftrightarrow> va mod c \<noteq> 0 \<or> pa mod c \<noteq> 0) \<and>
          (e = ArenaExhausted \<longrightarrow> frames_used t' = pt_arena_frames t' \<and> \<not> roomy S t')
      | Inr _ \<Rightarrow> va mod c = 0 \<and> pa mod c = 0 \<and>
          (\<forall>va'. chunk_of c va' = chunk_of c va \<longrightarrow>
             translate t va' = None \<and> translate t' va' = Some (pa + va' mod c, p)) \<and>
          (\<forall>va'. chunk_of c va' \<noteq> chunk_of c va \<longrightarrow> translate t' va' = translate t va'))"

lemma refused_maps_one:
  assumes "tables_in S t" "tables_in S t'" "same_walks t t'" "va mod c = 0" "pa mod c = 0" "e \<noteq> Misaligned"
    and "e = ArenaExhausted \<longrightarrow> frames_used t' = pt_arena_frames t' \<and> \<not> roomy S t'"
  shows "maps_one c S va pa p t (Inl e) t'"
  using assms same_walks_translate [OF assms(1-3)] by (simp add: maps_one_def same_walks_def)

lemma written_maps_one:
  assumes ok: "tables_in S t" "tables_in S t'" and s: "same_walks t u" "pt_arena_frames t' = pt_arena_frames u"
    and c: "c = 2 ^ (12 + 9 * m)" "m < 4" "va mod c = 0" "pa mod c = 0" "unat (v AND ADDRESS_MASK) = pa"
    and hit: "hit = take (4 - m) (indices va)"
      "\<And>va'. take (4 - m) (indices va') = hit \<longleftrightarrow> chunk_of c va' = chunk_of c va"
    and new: "\<forall>is. index_path (hit @ is) \<longrightarrow>
        walk_from u 0 (hit @ is) = None \<and> walk_from t' 0 (hit @ is) = Some (v, is, pp_writable p, pp_executable p)"
    and rest: "\<forall>idx. index_path idx \<and> \<not> prefix hit idx \<longrightarrow> walk_from t' 0 idx = walk_from u 0 idx"
  shows "maps_one c S va pa p t (Inr ()) t'"
proof -
  have len: "length (indices va') = 4" for va' by (simp add: indices_def)
  have "translate t va' = None \<and> translate t' va' = Some (pa + va' mod c, p)"
    if "chunk_of c va' = chunk_of c va" for va'
  proof -
    have split: "indices va' = hit @ drop (4 - m) (indices va')" using hit(2) [of va'] that by (metis append_take_drop_id)
    have rest_len: "length (drop (4 - m) (indices va')) = m" using len c(2) by simp
    have "index_path (hit @ drop (4 - m) (indices va'))" using indices_path [of va'] split by metis
    from new [rule_format, OF this] have "walk_from u 0 (indices va') = None"
      "walk_from t' 0 (indices va') = Some (v, drop (4 - m) (indices va'), pp_writable p, pp_executable p)"
      by (simp_all only: split [symmetric])
    moreover have "walk_from t 0 (indices va') = walk_from u 0 (indices va')"
      using s(1) indices_path [of va'] by (simp only: same_walks_def)
    ultimately show ?thesis
      using rest_len c by (simp add: translate_walk [OF ok(1)] translate_walk [OF ok(2)] leaf_translation_def Let_def mod_0_imp_dvd)
  qed
  moreover have "translate t' va' = translate t va'" if "chunk_of c va' \<noteq> chunk_of c va" for va'
  proof -
    have "\<not> prefix hit (indices va')"
    proof
      assume "prefix hit (indices va')"
      moreover have "length hit = 4 - m" using hit(1) len by simp
      ultimately have "take (4 - m) (indices va') = hit" by (auto simp: prefix_def)
      with that hit(2) show False by blast
    qed
    with rest s(1) show ?thesis
      by (simp add: translate_walk [OF ok(1)] translate_walk [OF ok(2)] same_walks_def)
  qed
  ultimately show ?thesis using ok(2) c(3,4) s by (simp add: maps_one_def same_walks_def)
qed

lemma low_aligned: "pa < 2 ^ 52 \<Longrightarrow> pa mod HUGE_PAGE_SIZE = 0 \<Longrightarrow> low_address pa"
proof -
  assume a: "pa < 2 ^ 52" "pa mod HUGE_PAGE_SIZE = 0"
  then obtain n where "pa = 4096 * (512 * n)" by (auto simp: HUGE_PAGE_SIZE_def elim!: dvdE)
  with a(1) show "low_address pa" by (simp add: low_address_def)
qed

lemma indices_below:
  "pml4_index va < 512" "pdpt_index va < 512" "pd_index va < 512" "pt_index va < 512"
  by (simp_all add: index_digits)

lemma tree_root:
  assumes "tables_tree path t"
  shows "pt_pml4 t = frame_at t 0" "0 < pt_next_frame t" "path 0 = []"
  using assms by (auto simp: tables_tree_def arena_ok_def frame_at_def)

text \<open>The two descents both operations begin with.\<close>

lemma descend2_wp:
  assumes ok: "tables_in S t" and S: "[pml4_index va] \<in> S" "[pml4_index va, pdpt_index va] \<in> S"
    and go: "\<And>path' t' j. tables_tree path' t' \<Longrightarrow> path' ` {..<pt_next_frame t'} \<subseteq> S \<Longrightarrow> same_walks t t' \<Longrightarrow>
        j < pt_next_frame t' \<Longrightarrow> path' j = [pml4_index va, pdpt_index va] \<Longrightarrow> wp (f (frame_at t' j)) Q t'"
    and full: "\<And>t'. tables_in S t' \<Longrightarrow> same_walks t t' \<Longrightarrow> frames_used t' = pt_arena_frames t' \<Longrightarrow>
        \<not> roomy S t' \<Longrightarrow> Q (Inl ArenaExhausted) t'"
  shows "wp (and_then (descend (pt_pml4 t) (pml4_index va)) (\<lambda>pdpt.
    and_then (descend pdpt (pdpt_index va)) f)) Q t"
proof -
  obtain path where tree: "tables_tree path t" and img: "path ` {..<pt_next_frame t} \<subseteq> S"
    using ok by (auto simp: tables_in_def)
  note root = tree_root [OF tree]
  show ?thesis
    unfolding root(1)
  proof (rule descend_wp [OF tree root(2) indices_below(1) root(3) _ img])
    fix path1 t1 j1
    assume 1: "tables_tree path1 t1" "path1 ` {..<pt_next_frame t1} \<subseteq> S" "same_walks t t1" "j1 < pt_next_frame t1"
      "path1 j1 = [] @ [pml4_index va]"
    show "wp (and_then (descend (frame_at t1 j1) (pdpt_index va)) f) Q t1"
      by (rule descend_wp [OF 1(1,4) indices_below(2) 1(5) _ 1(2)])
        (use go full S same_walks_trans [OF 1(3)] in auto)
  qed (use full S in auto)
qed

text \<open>A 4 KiB page. A conflict is reported only for an address that is already mapped.\<close>

definition page_paths :: "nat \<Rightarrow> nat list set" where
  "page_paths va = {take 1 (indices va), take 2 (indices va), take 3 (indices va)}"

lemma map_page_ok:
  assumes ok: "tables_in S t" and pa: "pa < 2 ^ 52" and S: "page_paths va \<subseteq> S"
  shows "wp (map_page va pa p) (\<lambda>r t'. maps_one 4096 S va pa p t r t' \<and>
    (r = Inl Conflict \<longrightarrow> translate t va \<noteq> None)) t" (is "wp _ ?Q t")
proof (cases "va mod PAGE_SIZE \<noteq> 0 \<or> pa mod PAGE_SIZE \<noteq> 0")
  case True
  then show ?thesis using ok by (auto simp: wp_def map_page_def maps_one_def PAGE_SIZE_def)
next
  case False
  then have al: "va mod 4096 = 0" "pa mod 4096 = 0" and low: "low_address pa"
    using pa by (auto simp: PAGE_SIZE_def low_address_def)
  let ?v = "word_of_nat pa OR to_bits p :: 64 word"
  let ?leaf = "\<lambda>pt t. let index = pt_index va; existing = read_entry t pt index in
    if existing AND bits_PRESENT \<noteq> 0 then Ret (Inl Conflict, t) else Ret (Inr (), write_entry t pt index ?v)"
  let ?p = "[pml4_index va, pdpt_index va, pd_index va]"
  have idx: "?p @ [pt_index va] = indices va" "[pml4_index va, pdpt_index va] @ [pd_index va, pt_index va] = indices va"
    by (simp_all add: indices_def)
  have same_walk: "walk_from u 0 (indices va) = walk_from t 0 (indices va)" if "same_walks t u" for u
    using that by (simp add: same_walks_def)
  have full: "?Q (Inl ArenaExhausted) t'"
    if "tables_in S t'" "same_walks t t'" "frames_used t' = pt_arena_frames t'" "\<not> roomy S t'" for t'
    using refused_maps_one [OF ok that(1,2) al, of ArenaExhausted] that(3,4) by simp
  have taken: "?Q (Inl Conflict) t'"
    if "tables_in S t'" "same_walks t t'" "walk_from t 0 (indices va) \<noteq> None" for t'
    using refused_maps_one [OF ok that(1,2) al, of Conflict] that(3) by (simp add: translate_walk [OF ok])
  have leaf: "wp (?leaf (frame_at u j)) ?Q u"
    if u: "tables_tree path u" "path ` {..<pt_next_frame u} \<subseteq> S" "same_walks t u" "j < pt_next_frame u" "path j = ?p"
    for path u j
  proof (rule leaf_wp [OF u(1,2,4) indices_below(4) u(5) leaf_bits(1) [OF low]])
    fix t' assume "tables_in S t'" "pt_arena_frames t' = pt_arena_frames u"
      "\<forall>is. index_path (?p @ pt_index va # is) \<longrightarrow> walk_from u 0 (?p @ pt_index va # is) = None \<and>
        walk_from t' 0 (?p @ pt_index va # is) = Some (?v, is, bit ?v 1, \<not> bit ?v 63)"
      "\<forall>idx. index_path idx \<and> \<not> prefix (?p @ [pt_index va]) idx \<longrightarrow> walk_from t' 0 idx = walk_from u 0 idx"
    then have "maps_one 4096 S va pa p t (Inr ()) t'"
      by (intro written_maps_one [where m = 0 and u = u and v = ?v and hit = "indices va"])
        (use ok u(3) al leaf_address(1) [OF low] leaf_bits(4,5) [OF low, of p] same_indices in
          \<open>simp_all add: indices_def\<close>)
    then show "?Q (Inr ()) t'" by simp
  next
    assume "length ?p = 2 \<and> ?p @ [pt_index va] \<in> S \<or>
      (\<forall>is. length is + length ?p = 3 \<longrightarrow> walk_from u 0 (?p @ pt_index va # is) \<noteq> None)"
    then have "walk_from u 0 (?p @ [pt_index va]) \<noteq> None" by (simp del: walk.simps)
    then have "walk_from t 0 (indices va) \<noteq> None" using same_walk [OF u(3)] by (simp only: idx simp_thms)
    then show "?Q (Inl Conflict) u" using taken [OF _ u(3)] u(1,2) tables_in_def by blast
  qed simp_all
  have "wp (and_then (descend (frame_at u j) (pd_index va)) ?leaf) ?Q u"
    if u: "tables_tree path u" "path ` {..<pt_next_frame u} \<subseteq> S" "same_walks t u" "j < pt_next_frame u"
      "path j = [pml4_index va, pdpt_index va]"
    for path u j
  proof (rule descend_wp [OF u(1,4) indices_below(3) u(5) _ u(2)])
    fix t' assume t': "tables_in S t'" "same_walks u t'"
      and "\<forall>is. index_path ([pml4_index va, pdpt_index va] @ pd_index va # is) \<longrightarrow>
        walk_from u 0 ([pml4_index va, pdpt_index va] @ pd_index va # is) \<noteq> None"
    then have "walk_from t 0 (indices va) \<noteq> None"
      using same_walk [OF u(3)] indices_path [of va] by (metis idx(2))
    then show "?Q (Inl Conflict) t'" by (rule taken [OF t'(1) same_walks_trans [OF u(3) t'(2)]])
  qed (use leaf full S same_walks_trans [OF u(3)] in \<open>auto simp: page_paths_def indices_def\<close>)
  note steps = this
  have "[pml4_index va] \<in> S" "[pml4_index va, pdpt_index va] \<in> S" using S by (simp_all add: page_paths_def indices_def)
  from descend2_wp [OF ok this steps full] show ?thesis
    unfolding wp_def map_page_def if_not_P [OF False] .
qed

text \<open>A 2 MiB page. A conflict is reported only where an address is mapped or a table of 4 KiB pages exists.\<close>

definition huge_paths :: "nat \<Rightarrow> nat list set" where
  "huge_paths va = {take 1 (indices va), take 2 (indices va)}"

lemma map_huge_page_ok:
  assumes ok: "tables_in S t" and pa: "pa < 2 ^ 52" and S: "huge_paths va \<subseteq> S"
  shows "wp (map_huge_page va pa p) (\<lambda>r t'. maps_one HUGE_PAGE_SIZE S va pa p t r t' \<and>
    (r = Inl Conflict \<longrightarrow> translate t va \<noteq> None \<or> take 3 (indices va) \<in> S)) t" (is "wp _ ?Q t")
proof (cases "va mod HUGE_PAGE_SIZE \<noteq> 0 \<or> pa mod HUGE_PAGE_SIZE \<noteq> 0")
  case True
  then show ?thesis using ok by (auto simp: wp_def map_huge_page_def maps_one_def)
next
  case False
  then have al: "va mod HUGE_PAGE_SIZE = 0" "pa mod HUGE_PAGE_SIZE = 0" by auto
  note low = low_aligned [OF pa al(2)]
  let ?v = "word_of_nat pa OR to_bits p OR bits_HUGE :: 64 word"
  let ?leaf = "\<lambda>pd t. let index = pd_index va; existing = read_entry t pd index in
    if existing AND bits_PRESENT \<noteq> 0 then Ret (Inl Conflict, t) else Ret (Inr (), write_entry t pd index ?v)"
  let ?p = "[pml4_index va, pdpt_index va]"
  have full: "?Q (Inl ArenaExhausted) t'"
    if "tables_in S t'" "same_walks t t'" "frames_used t' = pt_arena_frames t'" "\<not> roomy S t'" for t'
    using refused_maps_one [OF ok that(1,2) al, of ArenaExhausted] that(3,4) by simp
  have leaf: "wp (?leaf (frame_at u j)) ?Q u"
    if u: "tables_tree path u" "path ` {..<pt_next_frame u} \<subseteq> S" "same_walks t u" "j < pt_next_frame u" "path j = ?p"
    for path u j
  proof (rule leaf_wp [OF u(1,2,4) indices_below(3) u(5) leaf_bits(2) [OF low]])
    fix t' assume "tables_in S t'" "pt_arena_frames t' = pt_arena_frames u"
      "\<forall>is. index_path (?p @ pd_index va # is) \<longrightarrow> walk_from u 0 (?p @ pd_index va # is) = None \<and>
        walk_from t' 0 (?p @ pd_index va # is) = Some (?v, is, bit ?v 1, \<not> bit ?v 63)"
      "\<forall>idx. index_path idx \<and> \<not> prefix (?p @ [pd_index va]) idx \<longrightarrow> walk_from t' 0 idx = walk_from u 0 idx"
    then have "maps_one HUGE_PAGE_SIZE S va pa p t (Inr ()) t'"
      by (intro written_maps_one [where m = 1 and u = u and v = ?v and hit = "take 3 (indices va)"])
        (use ok u(3) al leaf_address(2) [OF low] leaf_bits(6,7) [OF low, of p] same_huge_indices in
          \<open>simp_all add: indices_def HUGE_PAGE_SIZE_def\<close>)
    then show "?Q (Inr ()) t'" by simp
  next
    have idx: "?p @ pd_index va # [pt_index va] = indices va" "?p @ [pd_index va] = take 3 (indices va)"
      by (simp_all add: indices_def)
    assume "length ?p = 2 \<and> ?p @ [pd_index va] \<in> S \<or>
      (\<forall>is. length is + length ?p = 3 \<longrightarrow> walk_from u 0 (?p @ pd_index va # is) \<noteq> None)"
    then have "take 3 (indices va) \<in> S \<or> walk_from u 0 (?p @ pd_index va # [pt_index va]) \<noteq> None"
      unfolding idx(2) by (auto simp del: walk.simps)
    then have "translate t va \<noteq> None \<or> take 3 (indices va) \<in> S"
      using u(3) unfolding idx(1) by (auto simp: translate_walk [OF ok] same_walks_def)
    moreover have "tables_in S u" using u(1,2) by (auto simp: tables_in_def)
    ultimately show "?Q (Inl Conflict) u"
      using refused_maps_one [OF ok _ u(3) al, of Conflict] by simp
  qed (simp add: leaf_bits [OF low])
  have "[pml4_index va] \<in> S" "[pml4_index va, pdpt_index va] \<in> S" using S by (simp_all add: huge_paths_def indices_def)
  from descend2_wp [OF ok this leaf full] show ?thesis
    unfolding wp_def map_huge_page_def if_not_P [OF False] .
qed

section \<open>Ranges of pages\<close>

text \<open>
  \<open>m'\<close> is \<open>m\<close> with some of the pages of \<open>ps\<close> added, each a virtual and a
  physical address; it covers them when all of them are there.
\<close>

definition extends_by :: "nat \<Rightarrow> (nat \<times> nat) set \<Rightarrow> PagePermissions \<Rightarrow>
    (nat \<Rightarrow> (nat \<times> PagePermissions) option) \<Rightarrow> (nat \<Rightarrow> (nat \<times> PagePermissions) option) \<Rightarrow> bool" where
  "extends_by c ps p m m' \<longleftrightarrow> map_le m m' \<and>
     (\<forall>va. m' va = m va \<or> (\<exists>(v, a) \<in> ps. chunk_of c va = chunk_of c v \<and> m' va = Some (a + va mod c, p)))"

definition covers :: "nat \<Rightarrow> (nat \<times> nat) set \<Rightarrow> PagePermissions \<Rightarrow>
    (nat \<Rightarrow> (nat \<times> PagePermissions) option) \<Rightarrow> bool" where
  "covers c ps p m \<longleftrightarrow> (\<forall>(v, a) \<in> ps. \<forall>va. chunk_of c va = chunk_of c v \<longrightarrow> m va = Some (a + va mod c, p))"

lemma extends_by_refl [simp]: "extends_by c ps p m m"
  by (simp add: extends_by_def)

lemma extends_by_trans:
  assumes "extends_by c A p m1 m2" "extends_by c B p m2 m3"
  shows "extends_by c (A \<union> B) p m1 m3"
proof -
  have "map_le m1 m3" using assms map_le_trans unfolding extends_by_def by blast
  moreover have "m3 va = m1 va \<or> (\<exists>(v, a) \<in> A \<union> B. chunk_of c va = chunk_of c v \<and> m3 va = Some (a + va mod c, p))" for va
  proof (cases "m3 va = m2 va")
    case True
    then show ?thesis using assms(1) unfolding extends_by_def by auto
  next
    case False
    then show ?thesis using assms(2) unfolding extends_by_def by auto
  qed
  ultimately show ?thesis by (simp add: extends_by_def)
qed

lemma covers_Un: "covers c (A \<union> B) p m \<longleftrightarrow> covers c A p m \<and> covers c B p m"
  unfolding covers_def by blast

lemma covers_mono: "covers c A p m \<Longrightarrow> map_le m m' \<Longrightarrow> covers c A p m'"
  by (auto simp: covers_def map_le_def dom_def split: prod.splits)

lemma try_for_extends:
  assumes body: "\<And>i t. good t \<Longrightarrow> i \<in> set is \<Longrightarrow> wp (body i) (\<lambda>r t'. good t' \<and>
        extends_by c {pair i} p (view t) (view t') \<and> (r = Inr () \<and> strict \<longrightarrow> covers c {pair i} p (view t'))) t"
    and "good t"
  shows "wp (try_for body is) (\<lambda>r t'. good t' \<and> extends_by c (pair ` set is) p (view t) (view t') \<and>
    (r = Inr () \<and> strict \<longrightarrow> covers c (pair ` set is) p (view t'))) t"
  using assms
proof (induction "is" arbitrary: t)
  case (Cons i "is")
  have "wp (and_then (body i) (\<lambda>_. try_for body is)) (\<lambda>r t'. good t' \<and>
      extends_by c (pair ` set (i # is)) p (view t) (view t') \<and>
      (r = Inr () \<and> strict \<longrightarrow> covers c (pair ` set (i # is)) p (view t'))) t"
    unfolding wp_and_then
  proof (rule wp_mono [OF Cons.prems(1) [OF Cons.prems(2)]])
    fix r t1
    assume 1: "good t1 \<and> extends_by c {pair i} p (view t) (view t1) \<and>
      (r = Inr () \<and> strict \<longrightarrow> covers c {pair i} p (view t1))"
    then have ext: "extends_by c (insert (pair i) (pair ` set is)) p (view t) (view t2)"
      if "extends_by c (pair ` set is) p (view t1) (view t2)" for t2
      using extends_by_trans [of c "{pair i}" p "view t" "view t1" "pair ` set is"] that by simp
    have cov: "covers c (insert (pair i) (pair ` set is)) p (view t2)"
      if "covers c {pair i} p (view t1)" "extends_by c (pair ` set is) p (view t1) (view t2)"
        "covers c (pair ` set is) p (view t2)" for t2
      using that covers_mono [of c "{pair i}" p "view t1" "view t2"] covers_Un [of c "{pair i}" "pair ` set is"]
      by (simp add: extends_by_def)
    have IH: "wp (try_for body is) (\<lambda>r t'. good t' \<and> extends_by c (pair ` set is) p (view t1) (view t') \<and>
        (r = Inr () \<and> strict \<longrightarrow> covers c (pair ` set is) p (view t'))) t1"
      using Cons.IH [of t1] Cons.prems(1) 1 by simp
    show "case r of Inl e \<Rightarrow> good t1 \<and> extends_by c (pair ` set (i # is)) p (view t) (view t1) \<and>
          (Inl e = Inr () \<and> strict \<longrightarrow> covers c (pair ` set (i # is)) p (view t1))
        | Inr _ \<Rightarrow> wp (try_for body is) (\<lambda>r t'. good t' \<and>
            extends_by c (pair ` set (i # is)) p (view t) (view t') \<and>
            (r = Inr () \<and> strict \<longrightarrow> covers c (pair ` set (i # is)) p (view t'))) t1"
    proof (cases r)
      case (Inl e)
      then show ?thesis using 1 ext [of t1] by simp
    next
      case (Inr u)
      then have "wp (try_for body is) (\<lambda>r t'. good t' \<and> extends_by c (pair ` set (i # is)) p (view t) (view t') \<and>
          (r = Inr () \<and> strict \<longrightarrow> covers c (pair ` set (i # is)) p (view t'))) t1"
        by (intro wp_mono [OF IH]) (use 1 ext cov in auto)
      then show ?thesis using Inr by simp
    qed
  qed simp
  then show ?case by (simp add: wp_def)
qed (simp add: wp_def covers_def)

text \<open>
  What the loops over a range rely on: mapping one page of \<open>chunk\<close> bytes keeps the invariant, adds
  that page to the view where it was not yet mapped, and on an error leaves the view as it was.
\<close>

locale chunk_mapper =
  fixes map_one :: "nat \<Rightarrow> nat \<Rightarrow> PagePermissions \<Rightarrow> unit paging" and chunk :: nat
    and inv :: "PageTables \<Rightarrow> bool" and view :: "PageTables \<Rightarrow> nat \<Rightarrow> (nat \<times> PagePermissions) option"
    and allowed :: "nat \<Rightarrow> bool"
  assumes map_one_law: "inv t \<Longrightarrow> pa < 2 ^ 52 \<Longrightarrow> allowed va \<Longrightarrow> wp (map_one va pa p) (\<lambda>r t'. inv t' \<and>
      (case r of
         Inl _ \<Rightarrow> view t' = view t
       | Inr _ \<Rightarrow> va mod chunk = 0 \<and> pa mod chunk = 0 \<and>
          (\<forall>va'. chunk_of chunk va' = chunk_of chunk va \<longrightarrow>
             view t va' = None \<and> view t' va' = Some (pa + va' mod chunk, p)) \<and>
          (\<forall>va'. chunk_of chunk va' \<noteq> chunk_of chunk va \<longrightarrow> view t' va' = view t va'))) t"
begin

lemma map_one_extends:
  assumes "inv t" "pa < 2 ^ 52" "allowed va"
  shows "wp (map_one va pa p) (\<lambda>r t'. inv t' \<and> extends_by chunk {(va, pa)} p (view t) (view t') \<and>
    (r = Inr () \<longrightarrow> covers chunk {(va, pa)} p (view t'))) t"
proof (rule wp_mono [OF map_one_law [OF assms]])
  fix r :: "PagingError + unit" and t'
  assume out: "inv t' \<and> (case r of Inl _ \<Rightarrow> view t' = view t
     | Inr _ \<Rightarrow> va mod chunk = 0 \<and> pa mod chunk = 0 \<and>
          (\<forall>va'. chunk_of chunk va' = chunk_of chunk va \<longrightarrow>
           view t va' = None \<and> view t' va' = Some (pa + va' mod chunk, p)) \<and>
        (\<forall>va'. chunk_of chunk va' \<noteq> chunk_of chunk va \<longrightarrow> view t' va' = view t va'))"
  show "inv t' \<and> extends_by chunk {(va, pa)} p (view t) (view t') \<and>
      (r = Inr () \<longrightarrow> covers chunk {(va, pa)} p (view t'))"
  proof (cases r)
    case (Inr u)
    have "view t a = view t' a" if "a \<in> dom (view t)" for a
      using out Inr that by (cases "chunk_of chunk a = chunk_of chunk va") auto
    then have "map_le (view t) (view t')" by (simp add: map_le_def)
    with out Inr show ?thesis by (auto simp: extends_by_def covers_def)
  qed (use out in simp)
qed

text \<open>The loop over a range of pages, stopping at the first error.\<close>

lemma strict_range:
  assumes "inv t" and bound: "\<forall>i \<in> set is. vb + i * chunk < 2 ^ 64 \<and> pb + i * chunk < 2 ^ 52 \<and> allowed (vb + i * chunk)"
  shows "wp (try_for (\<lambda>i t. do {
      offset \<leftarrow> mul64 i chunk;
      v \<leftarrow> add64 vb offset;
      pa \<leftarrow> add64 pb offset;
      map_one v pa p t
    }) is) (\<lambda>r t'. inv t' \<and> extends_by chunk ((\<lambda>i. (vb + i * chunk, pb + i * chunk)) ` set is) p (view t) (view t') \<and>
      (r = Inr () \<and> True \<longrightarrow> covers chunk ((\<lambda>i. (vb + i * chunk, pb + i * chunk)) ` set is) p (view t'))) t"
proof (rule try_for_extends [where good = inv, OF _ assms(1)])
  fix i t assume t: "inv t" and "i \<in> set is"
  then have "vb + i * chunk < 2 ^ 64" "pb + i * chunk < 2 ^ 52" "allowed (vb + i * chunk)" using bound by auto
  with map_one_extends [OF t this(2,3), of p]
  show "wp (\<lambda>t. do { offset \<leftarrow> mul64 i chunk; v \<leftarrow> add64 vb offset; pa \<leftarrow> add64 pb offset; map_one v pa p t })
     (\<lambda>r t'. inv t' \<and> extends_by chunk {(vb + i * chunk, pb + i * chunk)} p (view t) (view t') \<and>
       (r = Inr () \<and> True \<longrightarrow> covers chunk {(vb + i * chunk, pb + i * chunk)} p (view t'))) t"
    by (simp add: wp_def run_simps)
qed

text \<open>It succeeds only if no page of the range was mapped before.\<close>

lemma strict_range_fresh:
  assumes "inv t" and "\<forall>i \<in> set is. vb + i * chunk < 2 ^ 64 \<and> pb + i * chunk < 2 ^ 52 \<and> allowed (vb + i * chunk)"
  shows "wp (try_for (\<lambda>i t. do {
      offset \<leftarrow> mul64 i chunk;
      v \<leftarrow> add64 vb offset;
      pa \<leftarrow> add64 pb offset;
      map_one v pa p t
    }) is) (\<lambda>r t'. r = Inr () \<longrightarrow>
      (\<forall>i \<in> set is. (vb + i * chunk) mod chunk = 0 \<and>
        (\<forall>va. chunk_of chunk va = chunk_of chunk (vb + i * chunk) \<longrightarrow> view t va = None))) t"
  using assms
proof (induction "is" arbitrary: t)
  case (Cons i "is")
  have b: "vb + i * chunk < 2 ^ 64" "pb + i * chunk < 2 ^ 52" "allowed (vb + i * chunk)" using Cons.prems(2) by auto
  obtain r t1 where out: "map_one (vb + i * chunk) (pb + i * chunk) p t = Ret (r, t1)" "inv t1"
      "extends_by chunk {(vb + i * chunk, pb + i * chunk)} p (view t) (view t1)"
      "case r of Inl x \<Rightarrow> view t1 = view t
       | Inr x \<Rightarrow> (vb + i * chunk) mod chunk = 0 \<and> (pb + i * chunk) mod chunk = 0 \<and>
           (\<forall>va'. chunk_of chunk va' = chunk_of chunk (vb + i * chunk) \<longrightarrow>
             view t va' = None \<and> view t1 va' = Some (pb + i * chunk + va' mod chunk, p)) \<and>
           (\<forall>va'. chunk_of chunk va' \<noteq> chunk_of chunk (vb + i * chunk) \<longrightarrow> view t1 va' = view t va')"
    using wp_conj [OF map_one_law [OF Cons.prems(1) b(2,3), of p] map_one_extends [OF Cons.prems(1) b(2,3), of p]]
    by (auto simp: wp_def)
  have le: "map_le (view t) (view t1)" using out(3) by (simp add: extends_by_def)
  have fresh: "r = Inr () \<longrightarrow> (vb + i * chunk) mod chunk = 0 \<and> (\<forall>va. chunk_of chunk va = chunk_of chunk (vb + i * chunk) \<longrightarrow> view t va = None)"
    using out(4) by (cases r) auto
  have unmapped: "view t va = None" if "view t1 va = None" for va
  proof (rule ccontr)
    assume "view t va \<noteq> None"
    then have "view t va = view t1 va" using le by (auto simp: map_le_def)
    with that \<open>view t va \<noteq> None\<close> show False by simp
  qed
  show ?case
  proof (cases r)
    case (Inl e)
    then show ?thesis using out(1) b(1,2) by (simp add: wp_def and_then_def run_simps)
  next
    case (Inr u)
    from Cons.IH [OF out(2)] Cons.prems(2) obtain r' t2 where
      "try_for (\<lambda>i t. do { offset \<leftarrow> mul64 i chunk; v \<leftarrow> add64 vb offset; pa \<leftarrow> add64 pb offset; map_one v pa p t })
        is t1 = Ret (r', t2)"
      "r' = Inr () \<longrightarrow> (\<forall>i \<in> set is. (vb + i * chunk) mod chunk = 0 \<and> (\<forall>va. chunk_of chunk va = chunk_of chunk (vb + i * chunk) \<longrightarrow> view t1 va = None))"
      by (auto simp: wp_def)
    with fresh unmapped show ?thesis using out(1) b(1,2) Inr by (simp add: wp_def and_then_def run_simps)
  qed
qed (simp add: wp_def)

text \<open>The lenient loop passes over pages that are already mapped.\<close>

lemma lenient_range:
  assumes "inv t" and bound: "\<forall>i \<in> set is. vb + i * chunk < 2 ^ 64 \<and> pb + i * chunk < 2 ^ 52 \<and> allowed (vb + i * chunk)"
  shows "wp (try_for (\<lambda>i t. do {
      offset \<leftarrow> mul64 i chunk;
      v \<leftarrow> add64 vb offset;
      pa \<leftarrow> add64 pb offset;
      (r, t') \<leftarrow> map_one v pa p t;
      Ret (if r = Inr () \<or> r = Inl Conflict then Inr () else r, t')
    }) is) (\<lambda>r t'. inv t' \<and> extends_by chunk ((\<lambda>i. (vb + i * chunk, pb + i * chunk)) ` set is) p (view t) (view t') \<and>
      (r = Inr () \<and> False \<longrightarrow> covers chunk ((\<lambda>i. (vb + i * chunk, pb + i * chunk)) ` set is) p (view t'))) t"
proof (rule try_for_extends [where good = inv, OF _ assms(1)])
  fix i t assume t: "inv t" and "i \<in> set is"
  then have "vb + i * chunk < 2 ^ 64" "pb + i * chunk < 2 ^ 52" "allowed (vb + i * chunk)" using bound by auto
  with map_one_extends [OF t this(2,3), of p]
  show "wp (\<lambda>t. do { offset \<leftarrow> mul64 i chunk; v \<leftarrow> add64 vb offset; pa \<leftarrow> add64 pb offset;
      (r, t') \<leftarrow> map_one v pa p t; Ret (if r = Inr () \<or> r = Inl Conflict then Inr () else r, t') })
     (\<lambda>r t'. inv t' \<and> extends_by chunk {(vb + i * chunk, pb + i * chunk)} p (view t) (view t') \<and>
       (r = Inr () \<and> False \<longrightarrow> covers chunk {(vb + i * chunk, pb + i * chunk)} p (view t'))) t"
    by (auto simp: wp_def run_simps)
qed

end

text \<open>Both page sizes meet the contract, for any set of table paths.\<close>

interpretation pages: chunk_mapper map_page 4096 "tables_in S" translate "\<lambda>va. page_paths va \<subseteq> S" for S
  by unfold_locales (rule wp_mono [OF map_page_ok]; auto simp: maps_one_def split: sum.splits)

interpretation huge_pages: chunk_mapper map_huge_page HUGE_PAGE_SIZE "tables_in S" translate
    "\<lambda>va. huge_paths va \<subseteq> S" for S
  by unfold_locales (rule wp_mono [OF map_huge_page_ok]; auto simp: maps_one_def split: sum.splits)

section \<open>Mapping that cannot fail\<close>

text \<open>
  Mapping an aligned page fails only when it is already mapped. The contract extends that of the range
  loops; it holds while the arena has a frame for every table that can be asked for.
\<close>

locale live_mapper = chunk_mapper +
  assumes map_one_live: "inv t \<Longrightarrow> pa < 2 ^ 52 \<Longrightarrow> allowed va \<Longrightarrow> va mod chunk = 0 \<Longrightarrow> pa mod chunk = 0 \<Longrightarrow>
    wp (map_one va pa p) (\<lambda>r t'. r = Inr () \<or> r = Inl Conflict \<and> view t va \<noteq> None) t"
begin

lemma strict_range_live:
  assumes "inv t"
    and "\<forall>i \<in> set is. vb + i * chunk < 2 ^ 64 \<and> pb + i * chunk < 2 ^ 52 \<and> allowed (vb + i * chunk)"
    and al: "vb mod chunk = 0" "pb mod chunk = 0"
    and "\<forall>i \<in> set is. view t (vb + i * chunk) = None" "distinct is"
    and "inj_on (\<lambda>i. chunk_of chunk (vb + i * chunk)) (set is)"
  shows "wp (try_for (\<lambda>i t. do {
      offset \<leftarrow> mul64 i chunk;
      v \<leftarrow> add64 vb offset;
      pa \<leftarrow> add64 pb offset;
      map_one v pa p t
    }) is) (\<lambda>r t'. r = Inr ()) t"
  using assms(1,2,5-7)
proof (induction "is" arbitrary: t)
  case (Cons i "is")
  let ?v = "vb + i * chunk" and ?a = "pb + i * chunk"
  have b: "?v < 2 ^ 64" "?a < 2 ^ 52" "allowed ?v" using Cons.prems(2) by auto
  have al': "?v mod chunk = 0" "?a mod chunk = 0" using al by simp_all
  note one = wp_conj [OF map_one_extends [OF Cons.prems(1) b(2,3), of p]
      map_one_live [OF Cons.prems(1) b(2,3) al', of p]]
  have "wp (map_one ?v ?a p) (\<lambda>r t1. r = Inr () \<and> wp (try_for (\<lambda>i t. do {
      offset \<leftarrow> mul64 i chunk; v \<leftarrow> add64 vb offset; pa \<leftarrow> add64 pb offset; map_one v pa p t }) is)
      (\<lambda>r t'. r = Inr ()) t1) t"
  proof (rule wp_mono [OF one])
    fix r :: "PagingError + unit" and t1
    assume 1: "(inv t1 \<and> extends_by chunk {(?v, ?a)} p (view t) (view t1) \<and>
        (r = Inr () \<longrightarrow> covers chunk {(?v, ?a)} p (view t1))) \<and>
      (r = Inr () \<or> r = Inl Conflict \<and> view t ?v \<noteq> None)"
    have "view t1 (vb + j * chunk) = None" if j: "j \<in> set is" for j
    proof -
      have "chunk_of chunk (vb + j * chunk) \<noteq> chunk_of chunk ?v"
        using Cons.prems(4,5) j by (auto simp: inj_on_def)
      then have "view t1 (vb + j * chunk) = view t (vb + j * chunk)" using 1 by (auto simp: extends_by_def)
      then show ?thesis using Cons.prems(3) j by simp
    qed
    then have "wp (try_for (\<lambda>i t. do {
      offset \<leftarrow> mul64 i chunk; v \<leftarrow> add64 vb offset; pa \<leftarrow> add64 pb offset; map_one v pa p t }) is)
      (\<lambda>r t'. r = Inr ()) t1"
      using 1 Cons.prems by (intro Cons.IH) auto
    then show "r = Inr () \<and> wp (try_for (\<lambda>i t. do {
      offset \<leftarrow> mul64 i chunk; v \<leftarrow> add64 vb offset; pa \<leftarrow> add64 pb offset; map_one v pa p t }) is)
      (\<lambda>r t'. r = Inr ()) t1"
      using 1 Cons.prems(3) by auto
  qed
  then show ?case using b(1,2) by (auto simp: wp_def run_simps and_then_def)
qed (simp add: wp_def)

lemma lenient_range_live:
  assumes "inv t"
    and "\<forall>i \<in> set is. vb + i * chunk < 2 ^ 64 \<and> pb + i * chunk < 2 ^ 52 \<and> allowed (vb + i * chunk)"
    and al: "vb mod chunk = 0" "pb mod chunk = 0"
  shows "wp (try_for (\<lambda>i t. do {
      offset \<leftarrow> mul64 i chunk;
      v \<leftarrow> add64 vb offset;
      pa \<leftarrow> add64 pb offset;
      (r, t') \<leftarrow> map_one v pa p t;
      Ret (if r = Inr () \<or> r = Inl Conflict then Inr () else r, t')
    }) is) (\<lambda>r t'. r = Inr ()) t"
  using assms(1,2)
proof (induction "is" arbitrary: t)
  case (Cons i "is")
  let ?v = "vb + i * chunk" and ?a = "pb + i * chunk"
  have b: "?v < 2 ^ 64" "?a < 2 ^ 52" "allowed ?v" using Cons.prems(2) by auto
  have al': "?v mod chunk = 0" "?a mod chunk = 0" using al by simp_all
  from wp_conj [OF map_one_extends [OF Cons.prems(1) b(2,3), of p] map_one_live [OF Cons.prems(1) b(2,3) al', of p]]
  obtain r t1 where 1: "map_one ?v ?a p t = Ret (r, t1)" "inv t1" "r = Inr () \<or> r = Inl Conflict"
    by (auto simp: wp_def)
  with Cons.IH [of t1] Cons.prems(2) b(1,2) show ?case by (auto simp: wp_def run_simps and_then_def)
qed (simp add: wp_def)

end

lemma maps_one_live:
  assumes "maps_one c S va pa p t r t'" "roomy S t"
  shows "tables_in S t' \<and> roomy S t'"
    and "case r of
         Inl _ \<Rightarrow> translate t' = translate t
       | Inr _ \<Rightarrow> va mod c = 0 \<and> pa mod c = 0 \<and>
          (\<forall>va'. chunk_of c va' = chunk_of c va \<longrightarrow>
             translate t va' = None \<and> translate t' va' = Some (pa + va' mod c, p)) \<and>
          (\<forall>va'. chunk_of c va' \<noteq> chunk_of c va \<longrightarrow> translate t' va' = translate t va')"
    and "va mod c = 0 \<Longrightarrow> pa mod c = 0 \<Longrightarrow> r = Inr () \<or> r = Inl Conflict"
proof -
  show inv: "tables_in S t' \<and> roomy S t'" using assms by (simp add: maps_one_def roomy_def)
  show "case r of
         Inl _ \<Rightarrow> translate t' = translate t
       | Inr _ \<Rightarrow> va mod c = 0 \<and> pa mod c = 0 \<and>
          (\<forall>va'. chunk_of c va' = chunk_of c va \<longrightarrow>
             translate t va' = None \<and> translate t' va' = Some (pa + va' mod c, p)) \<and>
          (\<forall>va'. chunk_of c va' \<noteq> chunk_of c va \<longrightarrow> translate t' va' = translate t va')"
    using assms(1) by (cases r) (simp_all add: maps_one_def)
  assume "va mod c = 0" "pa mod c = 0"
  then show "r = Inr () \<or> r = Inl Conflict"
    using assms(1) inv by (cases r; cases "projl r") (simp_all add: maps_one_def)
qed

interpretation live_pages: live_mapper map_page 4096 "\<lambda>t. tables_in S t \<and> roomy S t" translate
    "\<lambda>va. page_paths va \<subseteq> S" for S
proof
  fix t and pa va :: nat and p assume "tables_in S t \<and> roomy S t" "pa < 2 ^ 52" "page_paths va \<subseteq> S"
  then have ok: "tables_in S t" "roomy S t" "pa < 2 ^ 52" "page_paths va \<subseteq> S" by blast+
  note one = map_page_ok [OF ok(1,3,4), of p]
  show "wp (map_page va pa p) (\<lambda>r t'. (tables_in S t' \<and> roomy S t') \<and>
      (case r of
         Inl _ \<Rightarrow> translate t' = translate t
       | Inr _ \<Rightarrow> va mod 4096 = 0 \<and> pa mod 4096 = 0 \<and>
          (\<forall>va'. chunk_of 4096 va' = chunk_of 4096 va \<longrightarrow>
             translate t va' = None \<and> translate t' va' = Some (pa + va' mod 4096, p)) \<and>
          (\<forall>va'. chunk_of 4096 va' \<noteq> chunk_of 4096 va \<longrightarrow> translate t' va' = translate t va'))) t"
    by (rule wp_mono [OF one]) (use maps_one_live(1,2) [OF _ ok(2)] in blast)
  assume "va mod 4096 = 0" "pa mod 4096 = 0"
  then show "wp (map_page va pa p) (\<lambda>r t'. r = Inr () \<or> r = Inl Conflict \<and> translate t va \<noteq> None) t"
    by (intro wp_mono [OF one]) (metis maps_one_live(3) [OF _ ok(2)])
qed

interpretation live_huge_pages: live_mapper map_huge_page HUGE_PAGE_SIZE "\<lambda>t. tables_in S t \<and> roomy S t" translate
    "\<lambda>va. huge_paths va \<subseteq> S \<and> take 3 (indices va) \<notin> S" for S
proof
  fix t and pa va :: nat and p assume "tables_in S t \<and> roomy S t" "pa < 2 ^ 52" "huge_paths va \<subseteq> S \<and> take 3 (indices va) \<notin> S"
  then have ok: "tables_in S t" "roomy S t" "pa < 2 ^ 52" "huge_paths va \<subseteq> S" "take 3 (indices va) \<notin> S" by blast+
  note one = map_huge_page_ok [OF ok(1,3,4), of p]
  show "wp (map_huge_page va pa p) (\<lambda>r t'. (tables_in S t' \<and> roomy S t') \<and>
      (case r of
         Inl _ \<Rightarrow> translate t' = translate t
       | Inr _ \<Rightarrow> va mod HUGE_PAGE_SIZE = 0 \<and> pa mod HUGE_PAGE_SIZE = 0 \<and>
          (\<forall>va'. chunk_of HUGE_PAGE_SIZE va' = chunk_of HUGE_PAGE_SIZE va \<longrightarrow>
             translate t va' = None \<and> translate t' va' = Some (pa + va' mod HUGE_PAGE_SIZE, p)) \<and>
          (\<forall>va'. chunk_of HUGE_PAGE_SIZE va' \<noteq> chunk_of HUGE_PAGE_SIZE va \<longrightarrow> translate t' va' = translate t va'))) t"
    by (rule wp_mono [OF one]) (use maps_one_live(1,2) [OF _ ok(2)] in blast)
  assume "va mod HUGE_PAGE_SIZE = 0" "pa mod HUGE_PAGE_SIZE = 0"
  then show "wp (map_huge_page va pa p) (\<lambda>r t'. r = Inr () \<or> r = Inl Conflict \<and> translate t va \<noteq> None) t"
    by (intro wp_mono [OF one]) (metis maps_one_live(3) [OF _ ok(2)] ok(5))
qed

end
