(* ===== verification/Page_Ranges.thy ===== *)
theory Page_Ranges
  imports Page_Mapping
begin

text \<open>
  Fresh page tables and the range operations of \<^verbatim>\<open>paging.rs\<close>, with the statements the
  bootloader relies on: a mapped range translates linearly with the permissions asked for, nothing mapped
  before changes, and no page becomes both writable and executable.
\<close>

section \<open>Fresh tables\<close>

lemma tables_in_mono: "tables_in A t \<Longrightarrow> A \<subseteq> B \<Longrightarrow> tables_in B t"
  by (auto simp: tables_in_def)

lemma PageTables_new_ok:
  assumes "base mod 4096 = 0" "0 < frames" "base + frames * 4096 \<le> 2 ^ 52"
  shows "\<exists>t. PageTables_new mem base frames = Ret (Inr t) \<and> tables_in {[]} t \<and> translate t = Map.empty \<and>
    frames_used t = 1 \<and> pt_arena_frames t = frames \<and> cr3_value t = base"
proof -
  let ?t = "\<lparr>pt_pml4 = base, pt_arena_base = base, pt_arena_frames = frames, pt_next_frame = 1,
    pt_mem = (\<lambda>p. if base \<le> p \<and> p < base + frames * 4096 then 0 else mem p)\<rparr>"
  have "frames * 4096 < 2 ^ 64" "base < 2 ^ 64" using assms by simp_all
  then have new: "PageTables_new mem base frames = Ret (Inr ?t)"
    using assms by (simp add: PageTables_new_def take_frame_def PAGE_SIZE_def run_simps)
  have zero: "entry_at ?t k i = 0" if "k < frames" "i < 512" for k i
  proof -
    have "k * 4096 + 4096 \<le> frames * 4096" using that(1) by simp
    then have "k * 4096 + 8 * i < frames * 4096" using that(2) by simp
    then show ?thesis by (simp add: entry_at_def frame_at_def)
  qed
  then have tree: "tables_tree (\<lambda>_. []) ?t"
    using assms by (simp add: tables_tree_def arena_ok_def entry_ok_def inj_on_def)
  then have in_root: "tables_in {[]} ?t" by (auto simp: tables_in_def)
  have "translate ?t va = None" for va
  proof -
    have "walk_from ?t 0 (indices va) = None"
      using walk_from_empty [OF zero [OF assms(2) indices_below(1)]] by (simp only: indices_def)
    then show ?thesis by (simp only: translate_walk [OF in_root] option.map)
  qed
  then have "translate ?t = Map.empty" by (rule ext)
  with new in_root show ?thesis by (simp add: frames_used_def cr3_value_def)
qed

section \<open>The pages of a range\<close>

lemma div_ceil_bounds:
  assumes "0 < c"
  shows "n \<le> div_ceil64 n c * c" "div_ceil64 n c * c < n + c" "i < div_ceil64 n c \<Longrightarrow> i * c < n"
proof -
  have n: "n div c * c + n mod c = n" "n mod c < c" using assms by simp_all
  have e: "n mod c = 0 \<Longrightarrow> div_ceil64 n c * c = n div c * c" "n mod c \<noteq> 0 \<Longrightarrow> div_ceil64 n c * c = n div c * c + c"
    by (simp_all add: div_ceil64_def)
  show 1: "n \<le> div_ceil64 n c * c" "div_ceil64 n c * c < n + c"
    using n e assms by (cases "n mod c = 0"; linarith)+
  show "i * c < n" if "i < div_ceil64 n c"
  proof -
    have "Suc i * c \<le> div_ceil64 n c * c" using that by (intro mult_le_mono1) simp
    with 1(2) show ?thesis by simp
  qed
qed

abbreviation range_pages :: "nat \<Rightarrow> nat \<Rightarrow> nat \<Rightarrow> nat \<Rightarrow> (nat \<times> nat) set" where
  "range_pages c vb pb n \<equiv> (\<lambda>i. (vb + i * c, pb + i * c)) ` set [0..<n]"

lemma chunk_of_range:
  assumes "n \<le> 48" "vb mod 2 ^ n = 0" "vb + i * 2 ^ n \<le> va" "va < vb + Suc i * 2 ^ n"
  shows "chunk_of (2 ^ n) va = chunk_of (2 ^ n) (vb + i * 2 ^ n)" "va mod 2 ^ n = va - (vb + i * 2 ^ n)"
proof -
  obtain q where q: "vb = 2 ^ n * q" using assms(2) by (auto elim: dvdE)
  define r where "r = va - (vb + i * 2 ^ n)"
  have va: "va = r + (q + i) * 2 ^ n" "r < 2 ^ n"
    using assms(3,4) q by (simp_all add: r_def algebra_simps)
  then have "va div 2 ^ n = q + i" by simp
  moreover have "(vb + i * 2 ^ n) div 2 ^ n = q + i" using q by (simp add: algebra_simps flip: add_mult_distrib2)
  ultimately show "chunk_of (2 ^ n) va = chunk_of (2 ^ n) (vb + i * 2 ^ n)"
    by (simp only: chunk_of_digits [OF assms(1)])
  have "va mod 2 ^ n = r" using va by simp
  then show "va mod 2 ^ n = va - (vb + i * 2 ^ n)" by (simp only: r_def)
qed

lemma range_chunk:
  assumes c: "c = 2 ^ k" "k \<le> 48" "vb mod c = 0" and va: "vb \<le> va" "va < vb + n * c"
  shows "\<exists>i < n. chunk_of c va = chunk_of c (vb + i * c) \<and> va mod c = va - (vb + i * c) \<and> vb + i * c \<le> va"
proof -
  define i where "i = (va - vb) div c"
  have "0 < c" using c(1) by simp
  have i: "i * c \<le> va - vb" "va - vb < Suc i * c"
    using \<open>0 < c\<close> by (simp_all add: i_def div_times_less_eq_dividend dividend_less_div_times)
  have "i < n" using va \<open>0 < c\<close> by (simp add: i_def less_mult_imp_div_less)
  moreover have b: "vb + i * 2 ^ k \<le> va" "va < vb + Suc i * 2 ^ k" using i va(1) unfolding c(1) by linarith+
  moreover note chunk_of_range [OF c(2) c(3) [unfolded c(1)] b]
  ultimately show ?thesis unfolding c(1) by blast
qed

text \<open>A covered range translates linearly.\<close>

lemma covers_linear:
  assumes cov: "covers c (range_pages c vb pb n) p m" and c: "c = 2 ^ k" "k \<le> 48" "vb mod c = 0"
    and va: "vb \<le> va" "va < vb + n * c"
  shows "m va = Some (pb + (va - vb), p)"
proof -
  obtain i where i: "i < n" "chunk_of c va = chunk_of c (vb + i * c)" "va mod c = va - (vb + i * c)" "vb + i * c \<le> va"
    using range_chunk [OF c va] by blast
  have "(vb + i * c, pb + i * c) \<in> range_pages c vb pb n" using i(1) by auto
  then have "m va = Some (pb + i * c + va mod c, p)" using cov i(2) unfolding covers_def by blast
  moreover have "pb + i * c + va mod c = pb + (va - vb)" using i(3,4) by linarith
  ultimately show ?thesis by simp
qed

text \<open>An address outside the range, in the low 48 bits, keeps its translation.\<close>

lemma extends_outside:
  assumes "extends_by c (range_pages c vb pb n) p m m'" "\<forall>i < n. chunk_of c va \<noteq> chunk_of c (vb + i * c)"
  shows "m' va = m va"
  using assms unfolding extends_by_def by fastforce

lemma page_sizes: "(4096 :: nat) = 2 ^ 12" "HUGE_PAGE_SIZE = 2 ^ 21" "PAGE_SIZE = 4096"
  by (simp_all add: HUGE_PAGE_SIZE_def PAGE_SIZE_def)

section \<open>The range operations\<close>

lemma map_range_ok:
  assumes "tables_in S t" "vb + len \<le> 2 ^ 64" "pb + len \<le> 2 ^ 52"
    "\<forall>i < div_ceil64 len 4096. page_paths (vb + i * 4096) \<subseteq> S"
  shows "wp (map_range vb pb len p) (\<lambda>r t'. tables_in S t' \<and>
    extends_by 4096 (range_pages 4096 vb pb (div_ceil64 len 4096)) p (translate t) (translate t') \<and>
    (r = Inr () \<longrightarrow> covers 4096 (range_pages 4096 vb pb (div_ceil64 len 4096)) p (translate t')) \<and>
    (r = Inr () \<longrightarrow> (\<forall>i < div_ceil64 len 4096. (vb + i * 4096) mod 4096 = 0 \<and>
       (\<forall>va. chunk_of 4096 va = chunk_of 4096 (vb + i * 4096) \<longrightarrow> translate t va = None)))) t"
proof -
  have "vb + i * 4096 < 2 ^ 64 \<and> pb + i * 4096 < 2 ^ 52 \<and> page_paths (vb + i * 4096) \<subseteq> S"
    if "i < div_ceil64 len 4096" for i
    using div_ceil_bounds(3) [of 4096, OF _ that] that assms by auto
  then have "\<forall>i \<in> set [0..<div_ceil64 len 4096]. vb + i * 4096 < 2 ^ 64 \<and> pb + i * 4096 < 2 ^ 52 \<and>
      page_paths (vb + i * 4096) \<subseteq> S"
    by simp
  from wp_conj [OF pages.strict_range [OF assms(1) this, of p] pages.strict_range_fresh [OF assms(1) this, of p]]
  show ?thesis by (simp add: map_range_def page_sizes(3) Ball_def)
qed

text \<open>A range that was mapped: where it was unmapped before, and linear afterwards.\<close>

lemma map_range_success:
  assumes "tables_in S t" "vb + len \<le> 2 ^ 64" "pb + len \<le> 2 ^ 52"
    "\<forall>i < div_ceil64 len 4096. page_paths (vb + i * 4096) \<subseteq> S" "map_range vb pb len p t = Ret (Inr (), t')"
  shows "tables_in S t'" "extends_by 4096 (range_pages 4096 vb pb (div_ceil64 len 4096)) p (translate t) (translate t')"
    "\<And>va. vb \<le> va \<Longrightarrow> va < vb + len \<Longrightarrow> translate t va = None \<and> translate t' va = Some (pb + (va - vb), p)"
proof -
  let ?n = "div_ceil64 len 4096"
  have out: "tables_in S t'" "extends_by 4096 (range_pages 4096 vb pb ?n) p (translate t) (translate t')"
    "covers 4096 (range_pages 4096 vb pb ?n) p (translate t')"
    "\<forall>i < ?n. (vb + i * 4096) mod 4096 = 0 \<and>
       (\<forall>va. chunk_of 4096 va = chunk_of 4096 (vb + i * 4096) \<longrightarrow> translate t va = None)"
    using map_range_ok [OF assms(1-4), of p] assms(5) by (auto simp: wp_def)
  then show "tables_in S t'" "extends_by 4096 (range_pages 4096 vb pb ?n) p (translate t) (translate t')" by blast+
  fix va assume va: "vb \<le> va" "va < vb + len"
  have top: "va < vb + ?n * 4096" using va(2) div_ceil_bounds(1) [of 4096 len] by simp
  then have "0 < ?n" using va(1) by (cases ?n) auto
  then have al: "vb mod 4096 = 0" using out(4) by (metis add_0_right mult_0)
  obtain i where "i < ?n" "chunk_of 4096 va = chunk_of 4096 (vb + i * 4096)"
    using range_chunk [OF page_sizes(1) _ al va(1) top] by auto
  then have "translate t va = None" using out(4) by blast
  moreover have "translate t' va = Some (pb + (va - vb), p)"
    by (rule covers_linear [OF out(3) page_sizes(1) _ al va(1) top]) simp
  ultimately show "translate t va = None \<and> translate t' va = Some (pb + (va - vb), p)" by blast
qed

lemma map_huge_range_ok:
  assumes "tables_in S t" "vb + len \<le> 2 ^ 64" "pb + len \<le> 2 ^ 52"
    "\<forall>i < div_ceil64 len HUGE_PAGE_SIZE. huge_paths (vb + i * HUGE_PAGE_SIZE) \<subseteq> S"
  shows "wp (map_huge_range vb pb len p) (\<lambda>r t'. tables_in S t' \<and>
    extends_by HUGE_PAGE_SIZE (range_pages HUGE_PAGE_SIZE vb pb (div_ceil64 len HUGE_PAGE_SIZE)) p (translate t) (translate t') \<and>
    (r = Inr () \<longrightarrow> covers HUGE_PAGE_SIZE (range_pages HUGE_PAGE_SIZE vb pb (div_ceil64 len HUGE_PAGE_SIZE)) p (translate t'))) t"
    and "wp (map_huge_range_lenient vb pb len p) (\<lambda>r t'. tables_in S t' \<and>
    extends_by HUGE_PAGE_SIZE (range_pages HUGE_PAGE_SIZE vb pb (div_ceil64 len HUGE_PAGE_SIZE)) p (translate t) (translate t')) t"
proof -
  have "vb + i * HUGE_PAGE_SIZE < 2 ^ 64 \<and> pb + i * HUGE_PAGE_SIZE < 2 ^ 52 \<and> huge_paths (vb + i * HUGE_PAGE_SIZE) \<subseteq> S"
    if "i < div_ceil64 len HUGE_PAGE_SIZE" for i
    using div_ceil_bounds(3) [of HUGE_PAGE_SIZE, OF _ that] that assms by (auto simp: HUGE_PAGE_SIZE_def)
  then have b: "\<forall>i \<in> set [0..<div_ceil64 len HUGE_PAGE_SIZE].
      vb + i * HUGE_PAGE_SIZE < 2 ^ 64 \<and> pb + i * HUGE_PAGE_SIZE < 2 ^ 52 \<and> huge_paths (vb + i * HUGE_PAGE_SIZE) \<subseteq> S"
    by simp
  show "wp (map_huge_range vb pb len p) (\<lambda>r t'. tables_in S t' \<and>
    extends_by HUGE_PAGE_SIZE (range_pages HUGE_PAGE_SIZE vb pb (div_ceil64 len HUGE_PAGE_SIZE)) p (translate t) (translate t') \<and>
    (r = Inr () \<longrightarrow> covers HUGE_PAGE_SIZE (range_pages HUGE_PAGE_SIZE vb pb (div_ceil64 len HUGE_PAGE_SIZE)) p (translate t'))) t"
    using huge_pages.strict_range [OF assms(1) b, of p] by (simp add: map_huge_range_def)
  show "wp (map_huge_range_lenient vb pb len p) (\<lambda>r t'. tables_in S t' \<and>
    extends_by HUGE_PAGE_SIZE (range_pages HUGE_PAGE_SIZE vb pb (div_ceil64 len HUGE_PAGE_SIZE)) p (translate t) (translate t')) t"
    using huge_pages.lenient_range [OF assms(1) b, of p] by (simp add: map_huge_range_lenient_def)
qed

section \<open>What the mapping operations do\<close>

text \<open>
  C20. Mapping one 4 KiB page never panics and has exactly one effect: on success the processor translates
  every address of that page, which was unmapped before, to the physical page with the permissions asked
  for; all other addresses, and all addresses when an error is returned, translate as before. The errors mean what they
  say: an address that is not page-aligned, a page already mapped, no frame left in the arena.
\<close>

theorem map_page_correct:
  assumes "tables_ok t" "pa < 2 ^ 52"
  shows "\<exists>r t'. map_page va pa p t = Ret (r, t') \<and> tables_ok t' \<and>
    (\<forall>va'. translate t' va' =
       (if r = Inr () \<and> va' mod 2 ^ 48 div 4096 = va mod 2 ^ 48 div 4096 then Some (pa + va' mod 4096, p)
        else translate t va')) \<and>
    (r = Inr () \<longrightarrow> translate t va = None) \<and>
    (r = Inl Misaligned \<longleftrightarrow> va mod 4096 \<noteq> 0 \<or> pa mod 4096 \<noteq> 0) \<and>
    (r = Inl Conflict \<longrightarrow> translate t va \<noteq> None) \<and>
    (r = Inl ArenaExhausted \<longrightarrow> frames_used t' = pt_arena_frames t')"
proof -
  obtain r t' where r: "map_page va pa p t = Ret (r, t')" "maps_one 4096 UNIV va pa p t r t'"
      "r = Inl Conflict \<longrightarrow> translate t va \<noteq> None"
    using map_page_ok [OF assms, of va p] by (auto simp: wp_def)
  then show ?thesis
    by (cases r) (auto simp: maps_one_def chunk_of_def intro!: exI)
qed

text \<open>The arena of the witnesses: 256 frames at one mebibyte.\<close>

lemma demo_arena:
  "\<exists>t. PageTables_new (\<lambda>_. 0) 0x100000 ARENA_FRAMES = Ret (Inr t) \<and> tables_ok t \<and> translate t = Map.empty \<and>
    frames_used t = 1 \<and> pt_arena_frames t = 256"
  using PageTables_new_ok [of "0x100000" 256 "\<lambda>_. 0"] tables_in_mono [of "{[]}" _ UNIV]
  by (auto simp: ARENA_FRAMES_def)

theorem map_page_correct_witness:
  "\<exists>t r t'. PageTables_new (\<lambda>_. 0) 0x100000 ARENA_FRAMES = Ret (Inr t) \<and>
    map_page 0x200000 0x3000 READ_WRITE t = Ret (r, t') \<and> r \<noteq> Inl Conflict \<and> r \<noteq> Inl Misaligned \<and>
    translate t' 0x400000 = None"
proof -
  obtain t where t: "PageTables_new (\<lambda>_. 0) 0x100000 ARENA_FRAMES = Ret (Inr t)" "tables_ok t" "translate t = Map.empty"
    using demo_arena by auto
  have "(0x3000 :: nat) < 2 ^ 52" by simp
  from map_page_correct [OF t(2) this, of "0x200000" READ_WRITE] t(3)
  obtain r t' where "map_page 0x200000 0x3000 READ_WRITE t = Ret (r, t')" "r \<noteq> Inl Conflict" "r \<noteq> Inl Misaligned"
    "translate t' 0x400000 = None" by auto
  with t(1) show ?thesis by blast
qed

text \<open>
  C26. Mapping a range of 4 KiB pages never panics, changes nothing that was mapped before, and when it succeeds the
  processor translates every address of the range linearly, with the permissions asked for.
\<close>

theorem map_range_correct:
  assumes "tables_ok t" "vb mod 4096 = 0" "vb + len \<le> 2 ^ 64" "pb + len \<le> 2 ^ 52"
  shows "\<exists>r t'. map_range vb pb len p t = Ret (r, t') \<and> tables_ok t' \<and> map_le (translate t) (translate t') \<and>
    (\<forall>va. (\<forall>i < div_ceil64 len 4096. va mod 2 ^ 48 div 4096 \<noteq> (vb + i * 4096) mod 2 ^ 48 div 4096) \<longrightarrow>
       translate t' va = translate t va) \<and>
    (r = Inr () \<longrightarrow> (\<forall>va. vb \<le> va \<and> va < vb + len \<longrightarrow> translate t' va = Some (pb + (va - vb), p)))"
proof -
  let ?n = "div_ceil64 len 4096"
  obtain r t' where r: "map_range vb pb len p t = Ret (r, t')" "tables_ok t'"
      "extends_by 4096 (range_pages 4096 vb pb ?n) p (translate t) (translate t')"
      "r = Inr () \<longrightarrow> covers 4096 (range_pages 4096 vb pb ?n) p (translate t')"
    using map_range_ok [OF assms(1,3,4), of p] by (auto simp: wp_def)
  have "translate t' va = Some (pb + (va - vb), p)" if "r = Inr ()" "vb \<le> va" "va < vb + len" for va
    by (rule covers_linear [where c = 4096 and k = 12 and n = ?n])
      (use r(4) that assms(2) div_ceil_bounds(1) [of 4096 len] in auto)
  moreover note extends_outside [OF r(3)]
  moreover have "map_le (translate t) (translate t')" using r(3) by (simp add: extends_by_def)
  ultimately show ?thesis using r(1,2) unfolding chunk_of_def by blast
qed

theorem map_range_correct_witness:
  "\<exists>t r t'. PageTables_new (\<lambda>_. 0) 0x100000 ARENA_FRAMES = Ret (Inr t) \<and>
    map_range 0xFFFFFFFF80000000 0x600000 0x3000 READ_EXECUTE t = Ret (r, t') \<and>
    (r = Inr () \<longrightarrow> translate t' 0xFFFFFFFF80002FFF = Some (0x602FFF, READ_EXECUTE))"
proof -
  obtain t where t: "PageTables_new (\<lambda>_. 0) 0x100000 ARENA_FRAMES = Ret (Inr t)" "tables_ok t"
    using demo_arena by auto
  have "(0xFFFFFFFF80000000 :: nat) mod 4096 = 0" "(0xFFFFFFFF80000000 :: nat) + 0x3000 \<le> 2 ^ 64"
    "(0x600000 :: nat) + 0x3000 \<le> 2 ^ 52" by simp_all
  from map_range_correct [OF t(2) this, of READ_EXECUTE]
  obtain r t' where "map_range 0xFFFFFFFF80000000 0x600000 0x3000 READ_EXECUTE t = Ret (r, t')"
    "r = Inr () \<longrightarrow> translate t' 0xFFFFFFFF80002FFF = Some (0x600000 + (0xFFFFFFFF80002FFF - 0xFFFFFFFF80000000), READ_EXECUTE)"
    by auto
  with t(1) show ?thesis by auto
qed

section \<open>Write or execute, never both\<close>

definition wx_safe :: "(nat \<Rightarrow> (nat \<times> PagePermissions) option) \<Rightarrow> bool" where
  "wx_safe m \<longleftrightarrow> (\<forall>va pa p. m va = Some (pa, p) \<longrightarrow> \<not> (pp_writable p \<and> pp_executable p))"

lemma wx_safe_extends:
  assumes "wx_safe m" "extends_by c ps p m m'" "\<not> (pp_writable p \<and> pp_executable p)"
  shows "wx_safe m'"
  unfolding wx_safe_def
proof (intro allI impI)
  fix va pa q assume q: "m' va = Some (pa, q)"
  have "m' va = m va \<or> (\<exists>(v, a) \<in> ps. chunk_of c va = chunk_of c v \<and> m' va = Some (a + va mod c, p))"
    using assms(2) by (simp add: extends_by_def)
  with q have "m va = Some (pa, q) \<or> q = p" by auto
  then show "\<not> (pp_writable q \<and> pp_executable q)" using assms(1,3) by (auto simp: wx_safe_def)
qed

lemma wx_constants:
  "\<not> (pp_writable READ_ONLY \<and> pp_executable READ_ONLY)" "\<not> (pp_writable READ_WRITE \<and> pp_executable READ_WRITE)"
  "\<not> (pp_writable READ_EXECUTE \<and> pp_executable READ_EXECUTE)"
  by (simp_all add: READ_ONLY_def READ_WRITE_def READ_EXECUTE_def)

end
