(* ===== verification/Boot_Loader.thy ===== *)
theory Boot_Loader
  imports Boot_Memory_Map Elf_Image Page_Ranges
begin

text \<open>
  The bootloader, \<^verbatim>\<open>src/boot/loko-boot/src/main.rs\<close>, from the firmware's entry to the jump into the
  kernel. What the firmware answers through the \<^verbatim>\<open>uefi\<close> crate is a value of the record
  \<open>Firmware\<close>; what the laws about it say is named where it is used. Byte memory is a function from
  addresses, and the page-table arena a second one from the addresses of table entries: the allocations are
  disjoint and each is accessed in one way only. Log lines are left out.

  A computation that ends with a message for the user has the value \<open>Inl message\<close>. The jump is the
  end of the computation, with everything the kernel finds as its value.
\<close>

section \<open>What the firmware provides\<close>

datatype FileType = Regular | Dir

datatype GopPixelFormat = Rgb | Bgr | Bitmask | BltOnly

record GraphicsOutput =
  go_width :: nat
  go_height :: nat
  go_stride :: nat
  go_pixel_format :: GopPixelFormat
  go_frame_buffer :: nat
  go_frame_buffer_size :: nat

text \<open>
  \<open>fw_allocate k n\<close> is the answer to the \<open>k\<close>-th request for pages, of \<open>n\<close> pages.
  \<open>fw_read n\<close> are the bytes a read into a buffer of \<open>n\<close> bytes delivers. The last fields are
  the contents of memory and of the processor's \<^verbatim>\<open>IA32_EFER\<close> register.
\<close>

record Firmware =
  fw_init :: bool
  fw_image_file_system :: bool
  fw_open_volume :: bool
  fw_open_kernel :: bool
  fw_into_type :: "FileType option"
  fw_file_size :: "nat option"
  fw_read :: "nat \<Rightarrow> 8 word list option"
  fw_allocate :: "nat \<Rightarrow> nat \<Rightarrow> nat option"
  fw_gop_handle :: bool
  fw_gop :: "GraphicsOutput option"
  fw_acpi2_guid :: nat
  fw_acpi_guid :: nat
  fw_config_table :: "(nat \<times> nat) list"
  fw_memory_map :: "MemoryDescriptor list option"
  fw_exit_memory_map :: "MemoryDescriptor list"
  fw_bytes :: "nat \<Rightarrow> 8 word"
  fw_entries :: "nat \<Rightarrow> 64 word"
  fw_region :: MemoryRegion
  fw_efer :: "64 word"

section \<open>Steps that can end with a message\<close>

type_synonym 'a boot = "(rstr + 'a) run"

text \<open>The \<^verbatim>\<open>?\<close> operator, and \<^verbatim>\<open>map_err\<close>.\<close>

definition attempt :: "'a boot \<Rightarrow> ('a \<Rightarrow> 'b boot) \<Rightarrow> 'b boot" where
  "attempt m f = do { r \<leftarrow> m; case r of Inl e \<Rightarrow> Ret (Inl e) | Inr x \<Rightarrow> f x }"

definition map_err :: "('e \<Rightarrow> rstr) \<Rightarrow> ('e + 'a) run \<Rightarrow> 'a boot" where
  "map_err f m = do { r \<leftarrow> m; Ret (case r of Inl e \<Rightarrow> Inl (f e) | Inr x \<Rightarrow> Inr x) }"

text \<open>A mapping operation of the page tables, whose error ends the boot.\<close>

definition mapped :: "unit paging \<Rightarrow> PageTables \<Rightarrow> PageTables boot" where
  "mapped m t = do {
     (r, t') \<leftarrow> m t;
     Ret (case r of Inl e \<Rightarrow> Inl (PagingError_message e) | Inr _ \<Rightarrow> Inr t')
   }"

section \<open>Constants\<close>

definition KERNEL_STACK_PAGES :: nat where
  "KERNEL_STACK_PAGES = 16"

definition MEMORY_MAP_PAGES :: nat where
  "MEMORY_MAP_PAGES = 8"

definition IDENTITY_MAPPED_BYTES :: nat where
  "IDENTITY_MAPPED_BYTES = 4 * 1024 * 1024 * 1024"

text \<open>\<^verbatim>\<open>size_of::<MemoryRegion>()\<close>: two 64-bit and two 32-bit fields.\<close>

definition size_of_MemoryRegion :: nat where
  "size_of_MemoryRegion = 8 + 8 + 4 + 4"

definition region_capacity :: nat where
  "region_capacity = MEMORY_MAP_PAGES * PAGE_SIZE div size_of_MemoryRegion"

section \<open>Memory\<close>

definition allocate_pages :: "Firmware \<Rightarrow> nat \<Rightarrow> nat \<Rightarrow> (nat \<Rightarrow> 8 word) \<Rightarrow> (nat \<times> (nat \<Rightarrow> 8 word)) boot" where
  "allocate_pages fw k pages mem = (case fw_allocate fw k pages of
     None \<Rightarrow> Ret (Inl (str ''LokoOS couldn't start: there isn't enough memory in this device.''))
   | Some pointer \<Rightarrow> do {
       len \<leftarrow> mul64 pages PAGE_SIZE;
       Ret (Inr (pointer, zero_bytes mem pointer len))
     })"

section \<open>Reading the kernel\<close>

text \<open>The value is the contents of the buffer, all of its pages, and memory after it was filled.\<close>

definition read_kernel :: "Firmware \<Rightarrow> (8 word list \<times> (nat \<Rightarrow> 8 word)) boot" where
  "read_kernel fw =
     (if \<not> fw_image_file_system fw
      then Ret (Inl (str ''LokoOS couldn't read the drive it started from.''))
      else if \<not> fw_open_volume fw
      then Ret (Inl (str ''LokoOS couldn't open the drive it started from.''))
      else if \<not> fw_open_kernel fw
      then Ret (Inl (str ''The LokoOS system file is missing from this device.''))
      else if fw_into_type fw \<noteq> Some Regular
      then Ret (Inl (str ''The LokoOS system file on this device isn't valid.''))
      else case fw_file_size fw of
        None \<Rightarrow> Ret (Inl (str ''LokoOS couldn't read the size of its own system file.''))
      | Some file_size \<Rightarrow>
          if file_size = 0 then Ret (Inl (str ''The LokoOS system file on this device is empty.''))
          else do {
            let pages = div_ceil64 file_size PAGE_SIZE;
            attempt (allocate_pages fw 0 pages (fw_bytes fw)) (\<lambda>(buffer, mem).
              case fw_read fw file_size of
                None \<Rightarrow> Ret (Inl (str ''LokoOS couldn't read its own system file from this device.''))
              | Some bytes \<Rightarrow>
                  if length bytes \<noteq> file_size
                  then Ret (Inl (str ''LokoOS could only read part of its own system file.''))
                  else Ret (Inr (bytes @ replicate (pages * PAGE_SIZE - file_size) 0,
                              copy_bytes mem buffer bytes)))
          })"

section \<open>Loading the kernel image\<close>

definition copy_segment :: "Image \<Rightarrow> nat \<Rightarrow> nat \<Rightarrow> Segment \<Rightarrow> (nat \<Rightarrow> 8 word) \<Rightarrow> (nat \<Rightarrow> 8 word) run" where
  "copy_segment img kernel_low kernel_physical segment mem = do {
     offset \<leftarrow> sub64 (sg_virtual_address segment) kernel_low;
     destination \<leftarrow> add64 kernel_physical offset;
     source \<leftarrow> segment_data img segment;
     let mem = copy_bytes mem destination source;
     tail \<leftarrow> sub64 (sg_memory_size segment) (length source);
     Ret (if tail > 0 then zero_bytes mem (destination + length source) tail else mem)
   }"

definition copy_segments :: "Image \<Rightarrow> nat \<Rightarrow> nat \<Rightarrow> (nat \<Rightarrow> 8 word) \<Rightarrow> (nat \<Rightarrow> 8 word) run" where
  "copy_segments img kernel_low kernel_physical mem = do {
     ss \<leftarrow> segments img;
     run_for (copy_segment img kernel_low kernel_physical) ss mem
   }"

definition segment_permissions :: "Segment \<Rightarrow> rstr + PagePermissions" where
  "segment_permissions s = (case (is_writable s, is_executable s) of
     (False, True) \<Rightarrow> Inr READ_EXECUTE
   | (True, False) \<Rightarrow> Inr READ_WRITE
   | (False, False) \<Rightarrow> Inr READ_ONLY
   | (True, True) \<Rightarrow> Inl (str ''The LokoOS system file on this device was built incorrectly.''))"

fun map_segments :: "nat \<Rightarrow> nat \<Rightarrow> Segment list \<Rightarrow> PageTables \<Rightarrow> PageTables boot" where
  "map_segments kernel_low kernel_physical [] t = Ret (Inr t)"
| "map_segments kernel_low kernel_physical (segment # ss) t = (case segment_permissions segment of
     Inl e \<Rightarrow> Ret (Inl e)
   | Inr permissions \<Rightarrow> do {
       offset \<leftarrow> sub64 (sg_virtual_address segment) kernel_low;
       physical \<leftarrow> add64 kernel_physical offset;
       attempt (mapped (map_range (sg_virtual_address segment) physical (sg_memory_size segment) permissions) t)
         (map_segments kernel_low kernel_physical ss)
     })"

definition map_kernel :: "Image \<Rightarrow> nat \<Rightarrow> nat \<Rightarrow> PageTables \<Rightarrow> PageTables boot" where
  "map_kernel img kernel_low kernel_physical t = do {
     ss \<leftarrow> segments img;
     map_segments kernel_low kernel_physical ss t
   }"

section \<open>Hardware\<close>

text \<open>\<^verbatim>\<open>as u32\<close> keeps the low 32 bits.\<close>

definition find_framebuffer :: "Firmware \<Rightarrow> Framebuffer run" where
  "find_framebuffer fw =
     (if \<not> fw_gop_handle fw then Ret Framebuffer_NONE
      else case fw_gop fw of
        None \<Rightarrow> Ret Framebuffer_NONE
      | Some gop \<Rightarrow>
          (case (case go_pixel_format gop of Rgb \<Rightarrow> Some Rgbx8888 | Bgr \<Rightarrow> Some Bgrx8888 | _ \<Rightarrow> None) of
             None \<Rightarrow> Ret Framebuffer_NONE
           | Some format \<Rightarrow> do {
               stride \<leftarrow> mul64 (go_stride gop) 4;
               Ret \<lparr>fb_base = go_frame_buffer gop, fb_size = go_frame_buffer_size gop,
                 fb_width = go_width gop mod 2 ^ 32, fb_height = go_height gop mod 2 ^ 32,
                 fb_stride_bytes = stride mod 2 ^ 32, fb_format = format\<rparr>
             }))"

fun scan_config_table :: "nat \<Rightarrow> nat \<Rightarrow> nat \<Rightarrow> (nat \<times> nat) list \<Rightarrow> nat" where
  "scan_config_table acpi2 acpi fallback [] = fallback"
| "scan_config_table acpi2 acpi fallback ((guid, address) # entries) =
     (if guid = acpi2 then address
      else scan_config_table acpi2 acpi (if guid = acpi then address else fallback) entries)"

definition find_acpi_rsdp :: "Firmware \<Rightarrow> nat" where
  "find_acpi_rsdp fw = scan_config_table (fw_acpi2_guid fw) (fw_acpi_guid fw) 0 (fw_config_table fw)"

text \<open>\<^verbatim>\<open>enable_no_execute\<close> in \<^verbatim>\<open>paging.rs\<close>, on the value of the register.\<close>

definition enable_no_execute :: "64 word \<Rightarrow> 64 word" where
  "enable_no_execute efer = efer OR push_bit 11 1"

section \<open>The handover\<close>

text \<open>Stage 5: the page tables. \<^verbatim>\<open>!(HUGE_PAGE_SIZE - 1)\<close> is \<open>2 ^ 64 - HUGE_PAGE_SIZE\<close>.\<close>

definition map_framebuffer :: "Framebuffer \<Rightarrow> PageTables \<Rightarrow> PageTables boot" where
  "map_framebuffer framebuffer t =
     (if is_present framebuffer
      then do {
        let base = fb_base framebuffer AND (2 ^ 64 - HUGE_PAGE_SIZE);
        before \<leftarrow> sub64 (fb_base framebuffer) base;
        len \<leftarrow> add64 (fb_size framebuffer) before;
        virtual \<leftarrow> add64 DEFAULT_PHYSICAL_MEMORY_OFFSET base;
        mapped (map_huge_range_lenient virtual base len READ_WRITE) t
      }
      else Ret (Inr t))"

definition build_tables :: "(nat \<Rightarrow> 64 word) \<Rightarrow> Image \<Rightarrow> nat \<Rightarrow> nat \<Rightarrow> nat \<Rightarrow> nat \<Rightarrow> Framebuffer \<Rightarrow> PageTables boot" where
  "build_tables entries img kernel_low kernel_physical arena highest_ram framebuffer =
     attempt (map_err PagingError_message (PageTables_new entries arena ARENA_FRAMES)) (\<lambda>t.
     attempt (map_kernel img kernel_low kernel_physical t) (\<lambda>t.
     attempt (mapped (map_huge_range DEFAULT_PHYSICAL_MEMORY_OFFSET 0 highest_ram READ_WRITE) t) (\<lambda>t.
     attempt (map_framebuffer framebuffer t) (\<lambda>t.
     mapped (map_huge_range 0 0 IDENTITY_MAPPED_BYTES READ_EXECUTE) t))))"

text \<open>Everything the kernel finds when it starts.\<close>

record Handoff =
  ho_boot_info :: BootInfo
  ho_regions :: "MemoryRegion list"
  ho_bytes :: "nat \<Rightarrow> 8 word"
  ho_tables :: PageTables
  ho_cr3 :: nat
  ho_efer :: "64 word"
  ho_entry :: nat
  ho_stack_top :: nat
  ho_boot_info_virtual :: nat

text \<open>Stage 6: after boot services are gone.\<close>

definition hand_over :: "Firmware \<Rightarrow> Image \<Rightarrow> nat \<Rightarrow> nat \<Rightarrow> nat \<Rightarrow> nat \<Rightarrow> nat \<Rightarrow> nat \<Rightarrow> Framebuffer \<Rightarrow> nat \<Rightarrow>
    (nat \<Rightarrow> 8 word) \<Rightarrow> PageTables \<Rightarrow> Handoff boot" where
  "hand_over fw img kernel_low kernel_span kernel_physical stack regions boot_info framebuffer rsdp mem t = do {
     stack_size \<leftarrow> mul64 KERNEL_STACK_PAGES PAGE_SIZE;
     stack_top_physical \<leftarrow> add64 stack stack_size;
     (region_array, region_count) \<leftarrow>
       convert_memory_map (fw_exit_memory_map fw) (replicate region_capacity (fw_region fw)) region_capacity;
     memory_map \<leftarrow> add64 DEFAULT_PHYSICAL_MEMORY_OFFSET regions;
     boot_info_virtual \<leftarrow> add64 DEFAULT_PHYSICAL_MEMORY_OFFSET boot_info;
     stack_top_virtual \<leftarrow> add64 DEFAULT_PHYSICAL_MEMORY_OFFSET stack_top_physical;
     Ret (Inr \<lparr>
       ho_boot_info = \<lparr>
         bi_magic = BOOT_MAGIC,
         bi_version_major = PROTOCOL_VERSION_MAJOR,
         bi_version_minor = PROTOCOL_VERSION_MINOR,
         bi_size = size_of_BootInfo,
         bi_memory_map = memory_map,
         bi_memory_map_len = region_count,
         bi_physical_memory_offset = DEFAULT_PHYSICAL_MEMORY_OFFSET,
         bi_rsdp_addr = rsdp,
         bi_kernel_physical_base = kernel_physical,
         bi_kernel_virtual_base = kernel_low,
         bi_kernel_size = kernel_span,
         bi_framebuffer = framebuffer,
         bi_flags = 0,
         bi_reserved = 0\<rparr>,
       ho_regions = region_array,
       ho_bytes = mem,
       ho_tables = t,
       ho_cr3 = cr3_value t,
       ho_efer = enable_no_execute (fw_efer fw),
       ho_entry = im_entry img,
       ho_stack_top = stack_top_virtual,
       ho_boot_info_virtual = boot_info_virtual\<rparr>)
   }"

definition load_and_start :: "Firmware \<Rightarrow> Handoff boot" where
  "load_and_start fw =
     attempt (read_kernel fw) (\<lambda>(kernel_bytes, mem).
     attempt (map_err ElfError_message (Image_parse kernel_bytes)) (\<lambda>img. do {
       (kernel_low, kernel_high) \<leftarrow> virtual_extent img;
       kernel_span \<leftarrow> sub64 kernel_high kernel_low;
       let kernel_pages = div_ceil64 kernel_span PAGE_SIZE;
       attempt (allocate_pages fw 1 kernel_pages mem) (\<lambda>(kernel_physical, mem).
       attempt (allocate_pages fw 2 ARENA_FRAMES mem) (\<lambda>(arena, mem).
       attempt (allocate_pages fw 3 KERNEL_STACK_PAGES mem) (\<lambda>(stack, mem).
       attempt (allocate_pages fw 4 MEMORY_MAP_PAGES mem) (\<lambda>(regions, mem).
       attempt (allocate_pages fw 5 1 mem) (\<lambda>(boot_info, mem). do {
         mem \<leftarrow> copy_segments img kernel_low kernel_physical mem;
         framebuffer \<leftarrow> find_framebuffer fw;
         let rsdp = find_acpi_rsdp fw;
         attempt (highest_ram_address (fw_memory_map fw)) (\<lambda>highest_ram.
         attempt (build_tables (fw_entries fw) img kernel_low kernel_physical arena highest_ram framebuffer)
           (hand_over fw img kernel_low kernel_span kernel_physical stack regions boot_info framebuffer rsdp mem))
       })))))
     }))"

datatype Status = ABORTED | LOAD_ERROR

definition boot_main :: "Firmware \<Rightarrow> (Status + Handoff) run" where
  "boot_main fw =
     (if \<not> fw_init fw then Ret (Inl ABORTED)
      else do {
        r \<leftarrow> load_and_start fw;
        Ret (case r of Inl _ \<Rightarrow> Inl LOAD_ERROR | Inr h \<Rightarrow> Inr h)
      })"

end
