(* ===== verification/Boot_Handover.thy ===== *)
theory Boot_Handover
  imports Boot_Loader
begin

text \<open>
  What holds when the bootloader jumps into the kernel: the boot information is one the kernel accepts, the
  address space is laid out as the protocol says, the kernel image is in memory as its file describes it,
  with the permissions each segment declared and nothing both writable and executable.
\<close>

section \<open>Successful steps\<close>

lemma attempt_Inr: "attempt m f = Some (Inr y) \<longleftrightarrow> (\<exists>x. m = Some (Inr x) \<and> f x = Some (Inr y))"
  by (auto simp: attempt_def split: bind_splits sum.splits)

lemma map_err_Inr: "map_err f m = Some (Inr y) \<longleftrightarrow> m = Some (Inr y)"
  by (auto simp: map_err_def split: bind_splits sum.splits)

lemma mapped_Inr: "mapped m t = Some (Inr t') \<longleftrightarrow> m t = Some (Inr (), t')"
  by (auto simp: mapped_def split: bind_splits sum.splits)

lemmas success_simps = attempt_Inr map_err_Inr mapped_Inr bind_eq_Some_conv

lemma allocate_pages_Inr:
  "allocate_pages fw k n mem = Some (Inr (a, mem')) \<longleftrightarrow>
     fw_allocate fw k n = Some a \<and> n * 4096 < 2 ^ 64 \<and> mem' = zero_bytes mem a (n * 4096)"
  by (auto simp: allocate_pages_def PAGE_SIZE_def success_simps split: option.splits)

lemma read_kernel_length:
  assumes "read_kernel fw = Ret (Inr (data, mem))"
  shows "length data < 2 ^ 64"
proof -
  from assms obtain n bytes buffer mem0 where n:
      "allocate_pages fw 0 (div_ceil64 n PAGE_SIZE) (fw_bytes fw) = Ret (Inr (buffer, mem0))"
      "data = bytes @ replicate (div_ceil64 n PAGE_SIZE * PAGE_SIZE - n) 0" "length bytes = n"
    by (auto simp: read_kernel_def success_simps Let_def split: if_splits option.splits)
  have "n \<le> div_ceil64 n PAGE_SIZE * PAGE_SIZE" by (rule div_ceil_bounds) (simp add: PAGE_SIZE_def)
  then show ?thesis using n by (simp add: allocate_pages_Inr PAGE_SIZE_def)
qed

text \<open>The steps of a boot that reached the jump.\<close>

lemma load_and_start_success:
  assumes "load_and_start fw = Ret (Inr h)"
  obtains data mem0 img low high kphys arena stack regions boot_info mem fb highest where
    "read_kernel fw = Ret (Inr (data, mem0))" "Image_parse data = Ret (Inr img)" "virtual_extent img = Ret (low, high)" "low \<le> high"
    "fw_allocate fw 1 (div_ceil64 (high - low) PAGE_SIZE) = Some kphys" "fw_allocate fw 2 ARENA_FRAMES = Some arena"
    "fw_allocate fw 3 KERNEL_STACK_PAGES = Some stack" "fw_allocate fw 4 MEMORY_MAP_PAGES = Some regions"
    "fw_allocate fw 5 1 = Some boot_info" "copy_segments img low kphys mem = Ret (ho_bytes h)"
    "find_framebuffer fw = Ret fb" "highest_ram_address (fw_memory_map fw) = Ret (Inr highest)"
    "build_tables (fw_entries fw) img low kphys arena highest fb = Ret (Inr (ho_tables h))"
    "hand_over fw img low (high - low) kphys stack regions boot_info fb (find_acpi_rsdp fw) (ho_bytes h) (ho_tables h) =
       Ret (Inr h)"
proof -
  from assms obtain data mem0 img low high kphys mem1 arena mem2 stack mem3 regions mem4 boot_info mem5 mem fb highest t where
    s: "read_kernel fw = Ret (Inr (data, mem0))" "Image_parse data = Ret (Inr img)"
      "virtual_extent img = Ret (low, high)" "low \<le> high"
      "allocate_pages fw 1 (div_ceil64 (high - low) PAGE_SIZE) mem0 = Ret (Inr (kphys, mem1))"
      "allocate_pages fw 2 ARENA_FRAMES mem1 = Ret (Inr (arena, mem2))"
      "allocate_pages fw 3 KERNEL_STACK_PAGES mem2 = Ret (Inr (stack, mem3))"
      "allocate_pages fw 4 MEMORY_MAP_PAGES mem3 = Ret (Inr (regions, mem4))"
      "allocate_pages fw 5 1 mem4 = Ret (Inr (boot_info, mem5))"
      "copy_segments img low kphys mem5 = Ret mem" "find_framebuffer fw = Ret fb"
      "highest_ram_address (fw_memory_map fw) = Ret (Inr highest)"
      "build_tables (fw_entries fw) img low kphys arena highest fb = Ret (Inr t)"
      "hand_over fw img low (high - low) kphys stack regions boot_info fb (find_acpi_rsdp fw) mem t = Ret (Inr h)"
    unfolding load_and_start_def success_simps Let_def split_paired_Ex prod.case by auto
  have "ho_bytes h = mem" "ho_tables h = t"
    using s(14) by (auto simp: hand_over_def success_simps)
  with s read_kernel_length [OF s(1)] show ?thesis by (intro that) (auto simp: allocate_pages_Inr)
qed

section \<open>The kernel's segments in the page tables\<close>

definition in_segment :: "Segment \<Rightarrow> nat \<Rightarrow> bool" where
  "in_segment s va \<longleftrightarrow> sg_virtual_address s \<le> va \<and> va < sg_virtual_address s + sg_memory_size s"

definition segments_disjoint :: "Segment \<Rightarrow> Segment \<Rightarrow> bool" where
  "segments_disjoint a b \<longleftrightarrow> (\<forall>va. \<not> (in_segment a va \<and> in_segment b va))"

text \<open>The segment lies in the address space and in the memory allocated for the image.\<close>

definition segment_fits :: "nat \<Rightarrow> nat \<Rightarrow> Segment \<Rightarrow> bool" where
  "segment_fits low kphys s \<longleftrightarrow> low \<le> sg_virtual_address s \<and> sg_virtual_address s + sg_memory_size s \<le> 2 ^ 64 \<and>
     kphys + (sg_virtual_address s - low) + sg_memory_size s \<le> 2 ^ 52"

lemma segment_permissions_wx: "segment_permissions s = Inr p \<Longrightarrow>
    pp_writable p = is_writable s \<and> pp_executable p = is_executable s \<and> \<not> (pp_writable p \<and> pp_executable p)"
  by (auto simp: segment_permissions_def READ_ONLY_def READ_WRITE_def READ_EXECUTE_def split: bool.splits)

lemma map_le_None: "map_le m m' \<Longrightarrow> m' x = None \<Longrightarrow> m x = None"
  by (metis domIff map_le_def)

lemma map_le_Some: "map_le m m' \<Longrightarrow> m x = Some y \<Longrightarrow> m' x = Some y"
  by (metis domI map_le_def)

lemma map_segments_success:
  assumes "tables_ok t" "\<forall>s \<in> set ss. segment_fits low kphys s" "map_segments low kphys ss t = Ret (Inr t')"
  shows "tables_ok t' \<and> map_le (translate t) (translate t') \<and> (wx_safe (translate t) \<longrightarrow> wx_safe (translate t')) \<and>
    (\<forall>s \<in> set ss. \<exists>p. segment_permissions s = Inr p \<and>
       (\<forall>va. in_segment s va \<longrightarrow> translate t va = None \<and> translate t' va = Some (kphys + (va - low), p))) \<and>
    sorted_wrt segments_disjoint ss"
  using assms
proof (induction ss arbitrary: t)
  case (Cons s ss)
  let ?v = "sg_virtual_address s" and ?n = "sg_memory_size s"
  have fit: "low \<le> ?v" "?v + ?n \<le> 2 ^ 64" "kphys + (?v - low) + ?n \<le> 2 ^ 52"
    using Cons.prems(2) by (auto simp: segment_fits_def)
  obtain p t1 where p: "segment_permissions s = Inr p" "map_range ?v (kphys + (?v - low)) ?n p t = Ret (Inr (), t1)"
      "map_segments low kphys ss t1 = Ret (Inr t')"
    using Cons.prems(3) by (auto simp: success_simps split: sum.splits)
  have S: "\<forall>i < div_ceil64 ?n 4096. page_paths (?v + i * 4096) \<subseteq> UNIV" by simp
  note one = map_range_success [OF Cons.prems(1) fit(2,3) S p(2)]
  have le: "map_le (translate t) (translate t1)" using one(2) by (simp add: extends_by_def)
  have here: "translate t va = None" "translate t1 va = Some (kphys + (va - low), p)" if "in_segment s va" for va
    using one(3) [of va] that fit(1) by (simp_all add: in_segment_def)
  have rest: "tables_ok t' \<and> map_le (translate t1) (translate t') \<and> (wx_safe (translate t1) \<longrightarrow> wx_safe (translate t')) \<and>
    (\<forall>s \<in> set ss. \<exists>p. segment_permissions s = Inr p \<and>
       (\<forall>va. in_segment s va \<longrightarrow> translate t1 va = None \<and> translate t' va = Some (kphys + (va - low), p))) \<and>
    sorted_wrt segments_disjoint ss"
    by (rule Cons.IH [OF one(1) _ p(3)]) (use Cons.prems(2) in simp)
  have "wx_safe (translate t1)" if "wx_safe (translate t)"
    by (rule wx_safe_extends [OF that one(2)]) (use segment_permissions_wx [OF p(1)] in blast)
  moreover have "segments_disjoint s r" if "r \<in> set ss" for r
    unfolding segments_disjoint_def
  proof (intro allI notI)
    fix va assume "in_segment s va \<and> in_segment r va"
    then show False using here(2) rest that by fastforce
  qed
  moreover have "\<exists>p. segment_permissions r = Inr p \<and>
      (\<forall>va. in_segment r va \<longrightarrow> translate t va = None \<and> translate t' va = Some (kphys + (va - low), p))"
    if r: "r \<in> set (s # ss)" for r
  proof (cases "r = s")
    case True
    have le2: "map_le (translate t1) (translate t')" using rest by blast
    have "translate t' va = Some (kphys + (va - low), p)" if "in_segment s va" for va
      by (rule map_le_Some [OF le2 here(2) [OF that]])
    then show ?thesis by (intro exI [of _ p]) (simp add: True p(1) here(1))
  next
    case False
    then have "r \<in> set ss" using r by simp
    then obtain q where "segment_permissions r = Inr q"
      "\<forall>va. in_segment r va \<longrightarrow> translate t1 va = None \<and> translate t' va = Some (kphys + (va - low), q)"
      using rest by blast
    then show ?thesis using map_le_None [OF le] by blast
  qed
  moreover have "map_le (translate t) (translate t')" by (rule map_le_trans [OF le]) (use rest in blast)
  moreover have "sorted_wrt segments_disjoint ss" "tables_ok t'" "wx_safe (translate t1) \<longrightarrow> wx_safe (translate t')"
    using rest by blast+
  ultimately show ?case by simp
qed simp

section \<open>The kernel's segments in memory\<close>

text \<open>The byte the image has at an address of a segment.\<close>

definition image_byte :: "Image \<Rightarrow> Segment \<Rightarrow> nat \<Rightarrow> 8 word" where
  "image_byte img s va =
     (if va - sg_virtual_address s < sg_file_size s
      then im_data img ! (sg_file_offset s + (va - sg_virtual_address s)) else 0)"

lemma copy_and_zero:
  "(if tail > 0 then zero_bytes (copy_bytes mem d bs) (d + length bs) tail else copy_bytes mem d bs) =
    (\<lambda>p. if d \<le> p \<and> p < d + (length bs + tail) then (if p - d < length bs then bs ! (p - d) else 0) else mem p)"
  by (rule ext) (auto simp: copy_bytes_def zero_bytes_def)

lemma copy_segment_effect:
  assumes "segment_ok img s" "length (im_data img) < 2 ^ 64" "segment_fits low kphys s"
  shows "\<exists>mem'. copy_segment img low kphys s mem = Ret mem' \<and>
    (\<forall>va. in_segment s va \<longrightarrow> mem' (kphys + (va - low)) = image_byte img s va) \<and>
    (\<forall>va \<ge> low. \<not> in_segment s va \<longrightarrow> mem' (kphys + (va - low)) = mem (kphys + (va - low)))"
proof -
  let ?v = "sg_virtual_address s" and ?data = "take (sg_file_size s) (drop (sg_file_offset s) (im_data img))"
  let ?d = "kphys + (?v - low)"
  have seg: "segment_data img s = Ret ?data" "length ?data = sg_file_size s" "sg_file_size s \<le> sg_memory_size s"
    using assms(1,2) by (auto simp: segment_data_def segment_ok_def run_simps)
  have low: "low \<le> ?v" and d: "?d < 2 ^ 64" using assms(3) by (auto simp: segment_fits_def)
  let ?mem = "\<lambda>p. if ?d \<le> p \<and> p < ?d + (length ?data + (sg_memory_size s - length ?data))
    then (if p - ?d < length ?data then ?data ! (p - ?d) else 0) else mem p"
  have steps: "sub64 ?v low = Ret (?v - low)" "add64 kphys (?v - low) = Ret ?d"
    "sub64 (sg_memory_size s) (length ?data) = Ret (sg_memory_size s - length ?data)"
    using low d seg(2,3) by (auto simp: run_simps)
  have "copy_segment img low kphys s mem = Ret ?mem"
    by (simp only: copy_segment_def steps seg(1) bind.bind_lunit Let_def copy_and_zero)
  moreover have "?mem (kphys + (va - low)) = image_byte img s va" if "in_segment s va" for va
    using that low seg(2,3) by (auto simp: in_segment_def image_byte_def)
  moreover have "?mem (kphys + (va - low)) = mem (kphys + (va - low))" if "low \<le> va" "\<not> in_segment s va" for va
    using that low seg(2,3) by (auto simp: in_segment_def)
  ultimately show ?thesis by blast
qed

lemma copy_loop:
  assumes "\<forall>s \<in> set ss. segment_ok img s \<and> segment_fits low kphys s" "length (im_data img) < 2 ^ 64"
    "sorted_wrt segments_disjoint ss"
  shows "\<exists>mem'. run_for (copy_segment img low kphys) ss mem = Ret mem' \<and>
    (\<forall>s \<in> set ss. \<forall>va. in_segment s va \<longrightarrow> mem' (kphys + (va - low)) = image_byte img s va) \<and>
    (\<forall>va \<ge> low. (\<forall>s \<in> set ss. \<not> in_segment s va) \<longrightarrow> mem' (kphys + (va - low)) = mem (kphys + (va - low)))"
  using assms
proof (induction ss arbitrary: mem)
  case (Cons s ss)
  then have s: "segment_ok img s" "segment_fits low kphys s" by simp_all
  obtain mem1 where 1: "copy_segment img low kphys s mem = Ret mem1"
      "\<forall>va. in_segment s va \<longrightarrow> mem1 (kphys + (va - low)) = image_byte img s va"
      "\<forall>va \<ge> low. \<not> in_segment s va \<longrightarrow> mem1 (kphys + (va - low)) = mem (kphys + (va - low))"
    using copy_segment_effect [OF s(1) Cons.prems(2) s(2)] by blast
  obtain mem2 where 2: "run_for (copy_segment img low kphys) ss mem1 = Ret mem2"
      "\<forall>s \<in> set ss. \<forall>va. in_segment s va \<longrightarrow> mem2 (kphys + (va - low)) = image_byte img s va"
      "\<forall>va \<ge> low. (\<forall>s \<in> set ss. \<not> in_segment s va) \<longrightarrow> mem2 (kphys + (va - low)) = mem1 (kphys + (va - low))"
    using Cons.IH [of mem1] Cons.prems by auto
  have "mem2 (kphys + (va - low)) = image_byte img s va" if va: "in_segment s va" for va
  proof -
    have "low \<le> va" using va s(2) by (simp add: in_segment_def segment_fits_def)
    moreover have "\<forall>r \<in> set ss. \<not> in_segment r va" using Cons.prems(3) va by (auto simp: segments_disjoint_def)
    ultimately show ?thesis using 1(2) 2(3) va by metis
  qed
  then show ?case using 1 2 by simp
qed simp

section \<open>The address space\<close>

lemma window_constants: "DEFAULT_PHYSICAL_MEMORY_OFFSET = 2 ^ 64 - 2 ^ 47" "MAX_MAPPED_PHYSICAL = 2 ^ 36"
    "IDENTITY_MAPPED_BYTES = 2 ^ 32" "ARENA_FRAMES = 256"
  by (simp_all add: DEFAULT_PHYSICAL_MEMORY_OFFSET_def MAX_MAPPED_PHYSICAL_def IDENTITY_MAPPED_BYTES_def ARENA_FRAMES_def)

lemma highest_ram_limit:
  "highest_ram_address m = Ret (Inr h) \<Longrightarrow> h \<le> 2 ^ 36"
  by (auto simp: highest_ram_address_def window_constants(2) success_simps split: option.splits)

text \<open>A huge range that was mapped, and one that was mapped leniently.\<close>

lemma huge_range_success:
  assumes "tables_ok t" "vb mod HUGE_PAGE_SIZE = 0" "vb + len \<le> 2 ^ 64" "pb + len \<le> 2 ^ 52"
    "mapped (map_huge_range vb pb len p) t = Ret (Inr t')" "\<not> (pp_writable p \<and> pp_executable p)"
  shows "tables_ok t'" "map_le (translate t) (translate t')" "wx_safe (translate t) \<Longrightarrow> wx_safe (translate t')"
    "\<And>va. vb \<le> va \<Longrightarrow> va < vb + len \<Longrightarrow> translate t' va = Some (pb + (va - vb), p)"
proof -
  let ?n = "div_ceil64 len HUGE_PAGE_SIZE"
  have S: "\<forall>i < ?n. huge_paths (vb + i * HUGE_PAGE_SIZE) \<subseteq> UNIV" by simp
  have r: "map_huge_range vb pb len p t = Ret (Inr (), t')" using assms(5) by (simp add: mapped_Inr)
  have out: "tables_ok t'" "extends_by HUGE_PAGE_SIZE (range_pages HUGE_PAGE_SIZE vb pb ?n) p (translate t) (translate t')"
    "covers HUGE_PAGE_SIZE (range_pages HUGE_PAGE_SIZE vb pb ?n) p (translate t')"
    using map_huge_range_ok(1) [OF assms(1,3,4) S, of p] r by (auto simp: wp_def)
  then show "tables_ok t'" "map_le (translate t) (translate t')" by (simp_all add: extends_by_def)
  show "wx_safe (translate t')" if "wx_safe (translate t)" by (rule wx_safe_extends [OF that out(2) assms(6)])
  fix va assume va: "vb \<le> va" "va < vb + len"
  have top: "va < vb + ?n * HUGE_PAGE_SIZE"
    using va(2) div_ceil_bounds(1) [of HUGE_PAGE_SIZE len] by (simp add: HUGE_PAGE_SIZE_def)
  show "translate t' va = Some (pb + (va - vb), p)"
    by (rule covers_linear [OF out(3) page_sizes(2) _ assms(2) va(1) top]) simp
qed

lemma map_framebuffer_success:
  assumes "tables_ok t" "fb_base fb + fb_size fb \<le> 2 ^ 47" "map_framebuffer fb t = Ret (Inr t')"
  shows "tables_ok t'" "map_le (translate t) (translate t')" "wx_safe (translate t) \<Longrightarrow> wx_safe (translate t')"
proof -
  have all: "tables_ok t' \<and> map_le (translate t) (translate t') \<and> (wx_safe (translate t) \<longrightarrow> wx_safe (translate t'))"
  proof (cases "is_present fb")
    case True
    define base where "base = fb_base fb AND (2 ^ 64 - HUGE_PAGE_SIZE)"
    define len where "len = fb_size fb + (fb_base fb - base)"
    have r: "base \<le> fb_base fb"
        "map_huge_range_lenient (DEFAULT_PHYSICAL_MEMORY_OFFSET + base) base len READ_WRITE t = Ret (Inr (), t')"
      using assms(3) True by (auto simp: map_framebuffer_def success_simps base_def len_def Let_def)
    have "base + len \<le> 2 ^ 47" using r(1) assms(2) by (simp add: len_def)
    then have b: "DEFAULT_PHYSICAL_MEMORY_OFFSET + base + len \<le> 2 ^ 64" "base + len \<le> 2 ^ 52"
      by (simp_all add: window_constants)
    have S: "\<forall>i < div_ceil64 len HUGE_PAGE_SIZE.
        huge_paths (DEFAULT_PHYSICAL_MEMORY_OFFSET + base + i * HUGE_PAGE_SIZE) \<subseteq> UNIV" by simp
    have out: "tables_ok t'"
      "extends_by HUGE_PAGE_SIZE (range_pages HUGE_PAGE_SIZE (DEFAULT_PHYSICAL_MEMORY_OFFSET + base) base
         (div_ceil64 len HUGE_PAGE_SIZE)) READ_WRITE (translate t) (translate t')"
      using map_huge_range_ok(2) [OF assms(1) b S, of READ_WRITE] r(2) by (auto simp: wp_def)
    then show ?thesis using wx_safe_extends [OF _ out(2) wx_constants(2)] by (simp add: extends_by_def)
  next
    case False
    then show ?thesis using assms(1,3) by (simp add: map_framebuffer_def)
  qed
  then show "tables_ok t'" "map_le (translate t) (translate t')" "wx_safe (translate t) \<Longrightarrow> wx_safe (translate t')"
    by blast+
qed

text \<open>The complete tables: kernel, physical memory and identity map, and nothing both writable and executable.\<close>

definition address_space :: "PageTables \<Rightarrow> Segment list \<Rightarrow> nat \<Rightarrow> nat \<Rightarrow> nat \<Rightarrow> bool" where
  "address_space t ss low kphys highest \<longleftrightarrow> tables_ok t \<and> wx_safe (translate t) \<and>
     (\<forall>s \<in> set ss. \<exists>p. segment_permissions s = Inr p \<and>
        (\<forall>va. in_segment s va \<longrightarrow> translate t va = Some (kphys + (va - low), p))) \<and>
     (\<forall>pa < highest. translate t (DEFAULT_PHYSICAL_MEMORY_OFFSET + pa) = Some (pa, READ_WRITE)) \<and>
     (\<forall>va < 2 ^ 32. translate t va = Some (va, READ_EXECUTE))"

lemma build_tables_success:
  assumes arena: "arena mod 4096 = 0" "arena + 256 * 4096 \<le> 2 ^ 52"
    and segs: "segments img = Ret ss" "\<forall>s \<in> set ss. segment_fits low kphys s"
    and "highest \<le> 2 ^ 36" "fb_base fb + fb_size fb \<le> 2 ^ 47"
    and build: "build_tables entries img low kphys arena highest fb = Ret (Inr t)"
  shows "address_space t ss low kphys highest \<and> sorted_wrt segments_disjoint ss"
proof -
  obtain t0 t1 t2 t3 where steps: "PageTables_new entries arena ARENA_FRAMES = Ret (Inr t0)"
      "map_segments low kphys ss t0 = Ret (Inr t1)"
      "mapped (map_huge_range DEFAULT_PHYSICAL_MEMORY_OFFSET 0 highest READ_WRITE) t1 = Ret (Inr t2)"
      "map_framebuffer fb t2 = Ret (Inr t3)"
      "mapped (map_huge_range 0 0 IDENTITY_MAPPED_BYTES READ_EXECUTE) t3 = Ret (Inr t)"
    using build by (auto simp: build_tables_def attempt_Inr map_err_Inr map_kernel_def segs(1))
  have t0: "tables_ok t0" "wx_safe (translate t0)"
    using PageTables_new_ok [OF arena(1) _ arena(2), of entries] steps(1) tables_in_mono [of "{[]}" t0 UNIV]
    by (auto simp: window_constants(4) wx_safe_def)
  note seg = map_segments_success [OF t0(1) segs(2) steps(2), THEN conjunct1]
    map_segments_success [OF t0(1) segs(2) steps(2), THEN conjunct2, THEN conjunct2, THEN conjunct1]
    map_segments_success [OF t0(1) segs(2) steps(2), THEN conjunct2, THEN conjunct2, THEN conjunct2, THEN conjunct1]
    map_segments_success [OF t0(1) segs(2) steps(2), THEN conjunct2, THEN conjunct2, THEN conjunct2, THEN conjunct2]
  have t1: "tables_ok t1" "wx_safe (translate t1)" using seg(1,2) t0(2) by simp_all
  have ok: "DEFAULT_PHYSICAL_MEMORY_OFFSET mod HUGE_PAGE_SIZE = 0" "DEFAULT_PHYSICAL_MEMORY_OFFSET + highest \<le> 2 ^ 64"
    "0 + highest \<le> 2 ^ 52" "0 mod HUGE_PAGE_SIZE = 0" "0 + IDENTITY_MAPPED_BYTES \<le> 2 ^ 64"
    "0 + IDENTITY_MAPPED_BYTES \<le> 2 ^ 52"
    using assms(5) by (simp_all add: window_constants HUGE_PAGE_SIZE_def)
  note win = huge_range_success [OF t1(1) ok(1-3) steps(3) wx_constants(2)]
  note fb = map_framebuffer_success [OF win(1) assms(6) steps(4)]
  note ident = huge_range_success [OF fb(1) ok(4-6) steps(5) wx_constants(3)]
  have le: "map_le (translate t2) (translate t)" by (rule map_le_trans [OF fb(2) ident(2)])
  have le1: "map_le (translate t1) (translate t)" by (rule map_le_trans [OF win(2) le])
  have "\<exists>p. segment_permissions s = Inr p \<and> (\<forall>va. in_segment s va \<longrightarrow> translate t va = Some (kphys + (va - low), p))"
    if "s \<in> set ss" for s
  proof -
    from bspec [OF seg(3) that] obtain p where p: "segment_permissions s = Inr p"
      "\<forall>va. in_segment s va \<longrightarrow> translate t0 va = None \<and> translate t1 va = Some (kphys + (va - low), p)"
      by (elim exE conjE)
    have "translate t va = Some (kphys + (va - low), p)" if "in_segment s va" for va
      by (rule map_le_Some [OF le1]) (use p(2) that in simp)
    with p(1) show ?thesis by (intro exI [of _ p]) simp
  qed
  moreover have "translate t (DEFAULT_PHYSICAL_MEMORY_OFFSET + pa) = Some (pa, READ_WRITE)" if "pa < highest" for pa
    using map_le_Some [OF le win(4) [of "DEFAULT_PHYSICAL_MEMORY_OFFSET + pa"]] that by simp
  moreover have "translate t va = Some (va, READ_EXECUTE)" if "va < 2 ^ 32" for va
    using ident(4) [of va] that by (simp add: window_constants(3))
  moreover have "wx_safe (translate t)" by (rule ident(3) [OF fb(3) [OF win(3) [OF t1(2)]]])
  moreover note seg(4)
  ultimately show ?thesis using ident(1) unfolding address_space_def by simp
qed

section \<open>The state the kernel starts in\<close>

text \<open>
  The UEFI specification has allocated pages aligned, and identity-mapped while boot services run, so they
  and the framebuffer lie in the lower half of the address space. The pointer is never null.
\<close>

definition firmware_memory_ok :: "Firmware \<Rightarrow> bool" where
  "firmware_memory_ok fw \<longleftrightarrow>
     (\<forall>k n a. fw_allocate fw k n = Some a \<longrightarrow> 0 < a \<and> a mod 4096 = 0 \<and> a + n * 4096 < 2 ^ 47) \<and>
     (\<forall>gop. fw_gop fw = Some gop \<longrightarrow> go_frame_buffer gop + go_frame_buffer_size gop < 2 ^ 47)"

lemma find_framebuffer_bound:
  assumes "firmware_memory_ok fw" "find_framebuffer fw = Ret fb"
  shows "fb_base fb + fb_size fb < 2 ^ 47"
  using assms by (auto simp: find_framebuffer_def firmware_memory_ok_def Framebuffer_NONE_def success_simps
    split: if_splits option.splits GopPixelFormat.splits)

lemma kernel_fits:
  assumes ok: "firmware_memory_ok fw" and parse: "length data < 2 ^ 64" "Image_parse data = Ret (Inr img)"
    and ext: "virtual_extent img = Ret (low, high)"
    and alloc: "fw_allocate fw 1 (div_ceil64 (high - low) PAGE_SIZE) = Some kphys"
  obtains ss where "segments img = Ret ss" "ss \<noteq> []" "length (im_data img) < 2 ^ 64" "0 < kphys" "low \<le> high"
    "\<And>s. s \<in> set ss \<Longrightarrow> segment_ok img s"
    "\<And>s. s \<in> set ss \<Longrightarrow> kphys + (sg_virtual_address s - low) < 2 ^ 64 \<Longrightarrow> segment_fits low kphys s"
    "\<And>s. s \<in> set ss \<Longrightarrow> sg_virtual_address s < U64_MAX \<Longrightarrow> segment_fits low kphys s"
proof -
  have img: "image_ok img" "im_data img = data"
    using Image_parse_cases [OF parse(1)] parse(2) by auto
  obtain n where n: "n > 0" "count_loadable img [0..<im_program_header_count img] 0 = Ret (Inr n)"
    using Image_parse_cases [OF parse(1)] parse(2) by auto
  obtain ss where ss: "segments img = Ret ss" "\<forall>s \<in> set ss. segment_ok img s"
    using segments_from_total [OF img(1), of "[0..<im_program_header_count img]"] by (auto simp: segments_def)
  have "ss \<noteq> []"
    using count_loadable_total [OF img(1), of "[0..<im_program_header_count img]" 0] n ss(1)
    by (auto simp: segments_def)
  have k: "0 < kphys" "kphys + div_ceil64 (high - low) PAGE_SIZE * 4096 < 2 ^ 47"
    using ok alloc by (auto simp: firmware_memory_ok_def)
  have span: "kphys + (high - low) \<le> 2 ^ 47"
    using k(2) div_ceil_bounds(1) [of 4096 "high - low"] by (simp add: PAGE_SIZE_def)
  have fits: "segment_fits low kphys s" if "s \<in> set ss" "\<not> (low = 0 \<and> sg_virtual_address s = U64_MAX)" for s
    using virtual_extent_bounds [OF ss(1) ext that(1)] that(2) span
    by (auto simp: segment_fits_def segment_top_def)
  have "low \<le> high" using virtual_extent_bounds(4) [OF ss(1) ext] \<open>ss \<noteq> []\<close> by (cases ss) auto
  then show ?thesis
    using that [OF ss(1) \<open>ss \<noteq> []\<close>] k(1) ss(2) img parse(1) fits by (force simp: U64_MAX_def)
qed

lemma hand_over_fields:
  assumes "hand_over fw img low span kphys stack regions boot_info fb rsdp mem t = Ret (Inr h)"
  shows "convert_memory_map (fw_exit_memory_map fw) (replicate region_capacity (fw_region fw)) region_capacity =
      Ret (ho_regions h, bi_memory_map_len (ho_boot_info h)) \<and>
    bi_magic (ho_boot_info h) = BOOT_MAGIC \<and> bi_version_major (ho_boot_info h) = PROTOCOL_VERSION_MAJOR \<and>
    bi_size (ho_boot_info h) = size_of_BootInfo \<and> 0 < bi_memory_map (ho_boot_info h) \<and>
    bi_physical_memory_offset (ho_boot_info h) = DEFAULT_PHYSICAL_MEMORY_OFFSET \<and>
    ho_entry h = im_entry img \<and> bi_kernel_physical_base (ho_boot_info h) = kphys \<and>
    bi_kernel_size (ho_boot_info h) = span \<and> bi_framebuffer (ho_boot_info h) = fb \<and>
    bi_memory_map (ho_boot_info h) = DEFAULT_PHYSICAL_MEMORY_OFFSET + regions \<and>
    ho_boot_info_virtual h = DEFAULT_PHYSICAL_MEMORY_OFFSET + boot_info \<and>
    ho_stack_top h = DEFAULT_PHYSICAL_MEMORY_OFFSET + (stack + KERNEL_STACK_PAGES * PAGE_SIZE) \<and>
    ho_cr3 h = cr3_value t"
  using assms by (auto simp: hand_over_def success_simps window_constants(1) run_simps)

text \<open>Everything the boot has established about the kernel image.\<close>

definition kernel_loaded :: "Firmware \<Rightarrow> Handoff \<Rightarrow> Image \<Rightarrow> Segment list \<Rightarrow> bool" where
  "kernel_loaded fw h img ss \<longleftrightarrow> ho_entry h = im_entry img \<and>
     (\<exists>data mem. read_kernel fw = Ret (Inr (data, mem)) \<and> Image_parse data = Ret (Inr img)) \<and>
     segments img = Ret ss \<and> ss \<noteq> [] \<and>
     (\<forall>s \<in> set ss. \<not> (is_writable s \<and> is_executable s) \<and>
        (\<forall>va. in_segment s va \<longrightarrow> (\<exists>pa. translate (ho_tables h) va =
            Some (pa, \<lparr>pp_writable = is_writable s, pp_executable = is_executable s\<rparr>) \<and>
            ho_bytes h pa = image_byte img s va)))"

lemma load_and_start_state:
  assumes boot: "load_and_start fw = Ret (Inr h)" and ok: "firmware_memory_ok fw"
  obtains img ss low kphys highest where
    "kernel_loaded fw h img ss" "highest_ram_address (fw_memory_map fw) = Ret (Inr highest)"
    "address_space (ho_tables h) ss low kphys highest"
proof (rule load_and_start_success [OF boot])
  fix data mem0 img low high kphys arena stack regions boot_info mem fb highest
  assume s: "read_kernel fw = Ret (Inr (data, mem0))" "Image_parse data = Ret (Inr img)"
    "virtual_extent img = Ret (low, high)" "low \<le> high"
    "fw_allocate fw 1 (div_ceil64 (high - low) PAGE_SIZE) = Some kphys" "fw_allocate fw 2 ARENA_FRAMES = Some arena"
    "fw_allocate fw 3 KERNEL_STACK_PAGES = Some stack" "fw_allocate fw 4 MEMORY_MAP_PAGES = Some regions"
    "fw_allocate fw 5 1 = Some boot_info" "copy_segments img low kphys mem = Ret (ho_bytes h)"
    "find_framebuffer fw = Ret fb" "highest_ram_address (fw_memory_map fw) = Ret (Inr highest)"
    "build_tables (fw_entries fw) img low kphys arena highest fb = Ret (Inr (ho_tables h))"
    "hand_over fw img low (high - low) kphys stack regions boot_info fb (find_acpi_rsdp fw) (ho_bytes h) (ho_tables h) =
       Ret (Inr h)"
  obtain ss where ss: "segments img = Ret ss" "ss \<noteq> []" "length (im_data img) < 2 ^ 64"
    "\<And>s. s \<in> set ss \<Longrightarrow> segment_ok img s"
    "\<And>s. s \<in> set ss \<Longrightarrow> kphys + (sg_virtual_address s - low) < 2 ^ 64 \<Longrightarrow> segment_fits low kphys s"
    using kernel_fits [OF ok read_kernel_length [OF s(1)] s(2,3,5)] by metis
  have loop: "run_for (copy_segment img low kphys) ss mem = Ret (ho_bytes h)"
    using s(10) by (simp add: copy_segments_def ss(1))
  have fits: "segment_fits low kphys x" if "x \<in> set ss" for x
  proof (rule ss(5) [OF that])
    show "kphys + (sg_virtual_address x - low) < 2 ^ 64"
      using run_for_Ret_step [OF loop that] by (auto simp: copy_segment_def bind_eq_Some_conv)
  qed
  have arena: "arena mod 4096 = 0" "arena + 256 * 4096 \<le> 2 ^ 52"
    using ok s(6) by (fastforce simp: firmware_memory_ok_def window_constants(4))+
  have "\<forall>s \<in> set ss. segment_fits low kphys s" using fits by blast
  note space = build_tables_success [OF arena ss(1) this highest_ram_limit [OF s(12)] less_imp_le [OF find_framebuffer_bound [OF ok s(11)]] s(13)]
  have bytes: "ho_bytes h (kphys + (va - low)) = image_byte img x va" if "x \<in> set ss" "in_segment x va" for x va
    using copy_loop [of ss img low kphys mem] ss(3,4) fits space loop that by auto
  have "ho_entry h = im_entry img" using hand_over_fields [OF s(14)] by blast
  moreover have "\<not> (is_writable x \<and> is_executable x) \<and> (\<forall>va. in_segment x va \<longrightarrow> (\<exists>pa. translate (ho_tables h) va =
            Some (pa, \<lparr>pp_writable = is_writable x, pp_executable = is_executable x\<rparr>) \<and>
            ho_bytes h pa = image_byte img x va))" if x: "x \<in> set ss" for x
  proof -
    have "\<forall>s \<in> set ss. \<exists>p. segment_permissions s = Inr p \<and>
        (\<forall>va. in_segment s va \<longrightarrow> translate (ho_tables h) va = Some (kphys + (va - low), p))"
      using space unfolding address_space_def by blast
    from bspec [OF this x] obtain p where p: "segment_permissions x = Inr p"
      "\<forall>va. in_segment x va \<longrightarrow> translate (ho_tables h) va = Some (kphys + (va - low), p)" by (elim exE conjE)
    have "p = \<lparr>pp_writable = is_writable x, pp_executable = is_executable x\<rparr>"
      using segment_permissions_wx [OF p(1)] by (cases p) simp
    then show ?thesis using segment_permissions_wx [OF p(1)] p(2) bytes [OF x] by auto
  qed
  ultimately have "kernel_loaded fw h img ss" using s(1,2) ss(1,2) unfolding kernel_loaded_def by blast
  then show thesis by (rule that [OF _ s(12) conjunct1 [OF space]])
qed

text \<open>The array of regions the boot information points to.\<close>

definition handoff_memory :: "Handoff \<Rightarrow> region_memory" where
  "handoff_memory h p n = (if p = bi_memory_map (ho_boot_info h) then take n (ho_regions h) else [])"

lemma region_capacity_eq: "region_capacity = 1365"
  by (simp add: region_capacity_def MEMORY_MAP_PAGES_def PAGE_SIZE_def size_of_MemoryRegion_def)

lemma boot_info_fields:
  assumes "load_and_start fw = Ret (Inr h)"
  shows "convert_memory_map (fw_exit_memory_map fw) (replicate region_capacity (fw_region fw)) region_capacity =
      Ret (ho_regions h, bi_memory_map_len (ho_boot_info h))"
    and "bi_magic (ho_boot_info h) = BOOT_MAGIC \<and> bi_version_major (ho_boot_info h) = PROTOCOL_VERSION_MAJOR \<and>
      bi_size (ho_boot_info h) = size_of_BootInfo \<and> 0 < bi_memory_map (ho_boot_info h) \<and>
      bi_physical_memory_offset (ho_boot_info h) = DEFAULT_PHYSICAL_MEMORY_OFFSET"
proof -
  have "convert_memory_map (fw_exit_memory_map fw) (replicate region_capacity (fw_region fw)) region_capacity =
      Ret (ho_regions h, bi_memory_map_len (ho_boot_info h)) \<and>
    bi_magic (ho_boot_info h) = BOOT_MAGIC \<and> bi_version_major (ho_boot_info h) = PROTOCOL_VERSION_MAJOR \<and>
      bi_size (ho_boot_info h) = size_of_BootInfo \<and> 0 < bi_memory_map (ho_boot_info h) \<and>
      bi_physical_memory_offset (ho_boot_info h) = DEFAULT_PHYSICAL_MEMORY_OFFSET"
    by (rule load_and_start_success [OF assms]) (use hand_over_fields in metis)
  then show "convert_memory_map (fw_exit_memory_map fw) (replicate region_capacity (fw_region fw)) region_capacity =
      Ret (ho_regions h, bi_memory_map_len (ho_boot_info h))"
    and "bi_magic (ho_boot_info h) = BOOT_MAGIC \<and> bi_version_major (ho_boot_info h) = PROTOCOL_VERSION_MAJOR \<and>
      bi_size (ho_boot_info h) = size_of_BootInfo \<and> 0 < bi_memory_map (ho_boot_info h) \<and>
      bi_physical_memory_offset (ho_boot_info h) = DEFAULT_PHYSICAL_MEMORY_OFFSET"
    by blast+
qed

lemma handoff_regions:
  assumes boot: "load_and_start fw = Ret (Inr h)" and map_ok: "firmware_map_ok (fw_exit_memory_map fw)"
    and few: "length (nonempty (fw_exit_memory_map fw)) \<le> region_capacity"
  shows "handoff_memory h (bi_memory_map (ho_boot_info h)) (bi_memory_map_len (ho_boot_info h)) =
      sort_key mr_start (map region_of (nonempty (fw_exit_memory_map fw)))"
    and "bi_memory_map_len (ho_boot_info h) = length (nonempty (fw_exit_memory_map fw))"
proof -
  let ?ds = "fw_exit_memory_map fw" and ?out = "replicate region_capacity (fw_region fw)"
  have "\<forall>d \<in> set ?ds. md_page_count d * 4096 < 2 ^ 64"
    using map_ok unfolding firmware_map_ok_def nonempty_def descriptor_end_def by fastforce
  from collect_regions_spec [OF this, of ?out 0 "take (length ?out - 0) (map region_of (nonempty ?ds))"]
  have c: "convert_memory_map ?ds ?out region_capacity =
      Ret (sort_key mr_start (map region_of (nonempty ?ds)) @ drop (length (nonempty ?ds)) ?out, length (nonempty ?ds))"
    using few sort_prefix [of "map region_of (nonempty ?ds)"]
    by (simp add: convert_memory_map_def region_capacity_eq)
  have info: "ho_regions h = sort_key mr_start (map region_of (nonempty ?ds)) @ drop (length (nonempty ?ds)) ?out"
    "bi_memory_map_len (ho_boot_info h) = length (nonempty ?ds)"
    using boot_info_fields(1) [OF boot] unfolding c by (metis option.inject prod.inject)+
  show "handoff_memory h (bi_memory_map (ho_boot_info h)) (bi_memory_map_len (ho_boot_info h)) =
      sort_key mr_start (map region_of (nonempty ?ds))"
    by (simp add: handoff_memory_def info)
  show "bi_memory_map_len (ho_boot_info h) = length (nonempty ?ds)" by (rule info(2))
qed

lemma boot_info_valid:
  assumes boot: "load_and_start fw = Ret (Inr h)" and map_ok: "firmware_map_ok (fw_exit_memory_map fw)"
    and few: "length (nonempty (fw_exit_memory_map fw)) \<le> region_capacity"
  shows "BootInfo_validate (handoff_memory h) (ho_boot_info h) = Inr ()"
proof -
  let ?ds = "fw_exit_memory_map fw"
  have spec: "memory_map_spec (sort_key mr_start (map region_of (nonempty ?ds)))" by (rule sorted_map_spec [OF map_ok])
  then have "nonempty ?ds \<noteq> []" by (auto simp: memory_map_spec_def)
  then show ?thesis
    using boot_info_fields(2) [OF boot] spec handoff_regions [OF assms]
    by (simp add: BootInfo_validate_def validate_memory_map_iff window_constants(1))
qed

end
