(* ===== verification/Boot_Success.thy ===== *)
theory Boot_Success
  imports Boot_Handover
begin

text \<open>
  When the boot succeeds. The page-table arena has 256 frames; the tables the bootloader builds have at most
  201 different paths, so the arena is never used up. A well-linked kernel of up to 256 MiB is mapped
  without conflict, and the computation reaches the jump.
\<close>

section \<open>Ranges that cannot fail\<close>

lemma chunk_inj:
  assumes "vb mod 2 ^ k = 0" "k \<le> 48" "n \<le> 2 ^ (48 - k)"
  shows "inj_on (\<lambda>i. chunk_of (2 ^ k) (vb + i * 2 ^ k)) {0..<n}"
proof (rule linorder_inj_onI)
  obtain q where q: "vb = 2 ^ k * q" using assms(1) by (auto elim: dvdE)
  have chunk: "chunk_of (2 ^ k) (vb + i * 2 ^ k) = (q + i) mod 2 ^ (48 - k)" for i
    unfolding chunk_of_digits [OF assms(2)] by (simp add: q algebra_simps flip: add_mult_distrib2)
  fix i j assume ij: "i < j" "i \<in> {0..<n}" "j \<in> {0..<n}"
  show "chunk_of (2 ^ k) (vb + i * 2 ^ k) \<noteq> chunk_of (2 ^ k) (vb + j * 2 ^ k)"
  proof
    assume "chunk_of (2 ^ k) (vb + i * 2 ^ k) = chunk_of (2 ^ k) (vb + j * 2 ^ k)"
    then have "(q + j) mod 2 ^ (48 - k) = (q + i) mod 2 ^ (48 - k)" by (simp add: chunk)
    then have "2 ^ (48 - k) dvd (q + j) - (q + i)" using ij(1) by (simp add: mod_eq_dvd_iff_nat)
    then have "2 ^ (48 - k) \<le> j - i" using ij(1) by (auto dest: dvd_imp_le)
    then show False using ij assms(3) by auto
  qed
qed auto

abbreviation arena_inv :: "nat list set \<Rightarrow> PageTables \<Rightarrow> bool" where
  "arena_inv S t \<equiv> tables_in S t \<and> roomy S t"

lemma map_range_live:
  assumes inv: "arena_inv S t" and b: "vb + len \<le> 2 ^ 64" "pb + len \<le> 2 ^ 52"
    and al: "vb mod 4096 = 0" "pb mod 4096 = 0" "len \<le> 2 ^ 47"
    and free: "\<forall>i < div_ceil64 len 4096. page_paths (vb + i * 4096) \<subseteq> S \<and> translate t (vb + i * 4096) = None"
  shows "\<exists>t'. map_range vb pb len p t = Ret (Inr (), t') \<and> arena_inv S t' \<and>
    extends_by 4096 (range_pages 4096 vb pb (div_ceil64 len 4096)) p (translate t) (translate t')"
proof -
  let ?n = "div_ceil64 len 4096"
  have bnd: "\<forall>i \<in> set [0..<?n]. vb + i * 4096 < 2 ^ 64 \<and> pb + i * 4096 < 2 ^ 52 \<and> page_paths (vb + i * 4096) \<subseteq> S"
    using div_ceil_bounds(3) [of 4096 _ len] b free by fastforce
  have "?n \<le> 2 ^ 36" using div_ceil_bounds(2) [of 4096 len] al(3) by simp
  then have "inj_on (\<lambda>i. chunk_of 4096 (vb + i * 4096)) (set [0..<?n])"
    using chunk_inj [of vb 12 ?n] al(1) by simp
  with live_pages.strict_range_live [OF inv bnd al(1,2), of p] free
  have "wp (map_range vb pb len p) (\<lambda>r t'. r = Inr ()) t" by (simp add: map_range_def page_sizes(3))
  moreover have "wp (map_range vb pb len p) (\<lambda>r t'. arena_inv S t' \<and>
      extends_by 4096 (range_pages 4096 vb pb ?n) p (translate t) (translate t')) t"
    using live_pages.strict_range [OF inv bnd, of p] by (auto simp: map_range_def page_sizes(3) elim!: wp_mono)
  ultimately show ?thesis by (auto simp: wp_def)
qed

lemma map_huge_range_live:
  assumes inv: "arena_inv S t" and b: "vb + len \<le> 2 ^ 64" "pb + len \<le> 2 ^ 52"
    and al: "vb mod HUGE_PAGE_SIZE = 0" "pb mod HUGE_PAGE_SIZE = 0" "len \<le> 2 ^ 47"
    and paths: "\<forall>i < div_ceil64 len HUGE_PAGE_SIZE. huge_paths (vb + i * HUGE_PAGE_SIZE) \<subseteq> S \<and>
      take 3 (indices (vb + i * HUGE_PAGE_SIZE)) \<notin> S"
  shows "\<forall>i < div_ceil64 len HUGE_PAGE_SIZE. translate t (vb + i * HUGE_PAGE_SIZE) = None \<Longrightarrow>
      \<exists>t'. map_huge_range vb pb len p t = Ret (Inr (), t') \<and> arena_inv S t' \<and>
        extends_by HUGE_PAGE_SIZE (range_pages HUGE_PAGE_SIZE vb pb (div_ceil64 len HUGE_PAGE_SIZE)) p (translate t) (translate t')"
    and "\<exists>t'. map_huge_range_lenient vb pb len p t = Ret (Inr (), t') \<and> arena_inv S t' \<and>
        extends_by HUGE_PAGE_SIZE (range_pages HUGE_PAGE_SIZE vb pb (div_ceil64 len HUGE_PAGE_SIZE)) p (translate t) (translate t')"
proof -
  let ?n = "div_ceil64 len HUGE_PAGE_SIZE"
  have pos: "0 < HUGE_PAGE_SIZE" by (simp add: HUGE_PAGE_SIZE_def)
  have bnd: "\<forall>i \<in> set [0..<?n]. vb + i * HUGE_PAGE_SIZE < 2 ^ 64 \<and> pb + i * HUGE_PAGE_SIZE < 2 ^ 52 \<and>
      huge_paths (vb + i * HUGE_PAGE_SIZE) \<subseteq> S \<and> take 3 (indices (vb + i * HUGE_PAGE_SIZE)) \<notin> S"
    using div_ceil_bounds(3) [OF pos, of _ len] b paths by fastforce
  have "?n \<le> 2 ^ 27" using div_ceil_bounds(2) [OF pos, of len] al(3) by (simp add: HUGE_PAGE_SIZE_def)
  then have inj: "inj_on (\<lambda>i. chunk_of HUGE_PAGE_SIZE (vb + i * HUGE_PAGE_SIZE)) (set [0..<?n])"
    using chunk_inj [of vb 21 ?n] al(1) by (simp add: page_sizes(2))
  show "\<exists>t'. map_huge_range vb pb len p t = Ret (Inr (), t') \<and> arena_inv S t' \<and>
        extends_by HUGE_PAGE_SIZE (range_pages HUGE_PAGE_SIZE vb pb ?n) p (translate t) (translate t')"
    if "\<forall>i < ?n. translate t (vb + i * HUGE_PAGE_SIZE) = None"
    using live_huge_pages.strict_range_live [OF inv bnd al(1,2), of p] that inj
      live_huge_pages.strict_range [OF inv bnd, of p]
    by (auto simp: map_huge_range_def wp_def)
  show "\<exists>t'. map_huge_range_lenient vb pb len p t = Ret (Inr (), t') \<and> arena_inv S t' \<and>
        extends_by HUGE_PAGE_SIZE (range_pages HUGE_PAGE_SIZE vb pb ?n) p (translate t) (translate t')"
    using live_huge_pages.lenient_range_live [OF inv bnd al(1,2), of p]
      live_huge_pages.lenient_range [OF inv bnd, of p]
    by (auto simp: map_huge_range_lenient_def wp_def)
qed

section \<open>The tables a boot needs\<close>

definition boot_paths :: "nat list set" where
  "boot_paths = set ([[], [256], [0], [511], [511, 510]] @ map (\<lambda>q. [256, q]) [0..<64] @
     map (\<lambda>q. [0, q]) [0..<4] @ map (\<lambda>j. [511, 510, j]) [0..<128])"

lemma boot_paths_card: "finite boot_paths" "card boot_paths \<le> 201"
proof -
  show "finite boot_paths" by (simp add: boot_paths_def)
  have "card boot_paths \<le> length ([[], [256], [0], [511], [511, 510]] @ map (\<lambda>q. [256, q]) [0..<64] @
     map (\<lambda>q. [0, q]) [0..<4] @ map (\<lambda>j. [511, 510, j]) [0..<128] :: nat list list)"
    unfolding boot_paths_def by (rule card_length)
  then show "card boot_paths \<le> 201" by simp
qed

lemma boot_paths_simps:
  "[p] \<in> boot_paths \<longleftrightarrow> p = 256 \<or> p = 0 \<or> p = 511"
  "[p, q] \<in> boot_paths \<longleftrightarrow> p = 511 \<and> q = 510 \<or> p = 256 \<and> q < 64 \<or> p = 0 \<and> q < 4"
  "[p, q, r] \<in> boot_paths \<longleftrightarrow> p = 511 \<and> q = 510 \<and> r < 128"
  by (auto simp: boot_paths_def)

text \<open>The index of an address in an interval.\<close>

lemma index_of_interval:
  fixes va :: nat
  assumes "m * 2 ^ n \<le> va" "va < Suc m * 2 ^ n"
  shows "va div 2 ^ n = m"
  using assms by (intro div_nat_eqI) (simp_all add: mult.commute)

lemma kernel_paths:
  assumes "KERNEL_VIRTUAL_BASE \<le> va" "va < KERNEL_VIRTUAL_BASE + 2 ^ 28"
  shows "page_paths va \<subseteq> boot_paths"
proof -
  have b: "0xFFFFFFFF80000000 \<le> va" "va < 0xFFFFFFFF90000000"
    using assms by (simp_all add: KERNEL_VIRTUAL_BASE_def)
  have 1: "va div 2 ^ 39 = 2 ^ 25 - 1" by (rule index_of_interval) (use b in simp_all)
  have 2: "va div 2 ^ 30 = 2 ^ 34 - 2" by (rule index_of_interval) (use b in simp_all)
  have "0xFFFFFFFF80000000 div 2 ^ 21 \<le> va div 2 ^ 21" "va div 2 ^ 21 \<le> 0xFFFFFFFF8FFFFFFF div 2 ^ 21"
    by (intro div_le_mono; use b in simp)+
  then obtain r where r: "va div 2 ^ 21 = 512 * 17179869182 + r" "r < 128"
    using le_Suc_ex [of "512 * 17179869182" "va div 2 ^ 21"] by auto
  then have 3: "va div 2 ^ 21 mod 512 < 128" unfolding r(1) mod_mult_self4 by simp
  have 4: "va div 2 ^ 39 mod 512 = 511" "va div 2 ^ 30 mod 512 = 510" by (simp_all only: 1 2) simp_all
  show ?thesis using 3 4 by (simp add: page_paths_def indices_def index_digits boot_paths_simps)
qed

lemma window_paths:
  assumes "x < 2 ^ 36"
  shows "huge_paths (DEFAULT_PHYSICAL_MEMORY_OFFSET + x) \<subseteq> boot_paths"
    "take 3 (indices (DEFAULT_PHYSICAL_MEMORY_OFFSET + x)) \<notin> boot_paths"
proof -
  have 1: "(DEFAULT_PHYSICAL_MEMORY_OFFSET + x) div 2 ^ 39 = 2 ^ 25 - 256"
    by (rule index_of_interval) (use assms in \<open>simp_all add: window_constants\<close>)
  have "DEFAULT_PHYSICAL_MEMORY_OFFSET + x = x + (2 ^ 34 - 2 ^ 17) * 2 ^ 30" by (simp add: window_constants)
  then have "(DEFAULT_PHYSICAL_MEMORY_OFFSET + x) div 2 ^ 30 = x div 2 ^ 30 + (2 ^ 34 - 2 ^ 17)"
    by (simp only: div_mult_self1 power_not_zero zero_neq_numeral not_False_eq_True add.commute)
  moreover have "x div 2 ^ 30 < 64" using assms by (simp add: less_mult_imp_div_less)
  ultimately have 2: "(DEFAULT_PHYSICAL_MEMORY_OFFSET + x) div 2 ^ 30 mod 512 < 64"
    using mod_mult_self1 [of "x div 2 ^ 30" "33554176" 512] by simp
  have 3: "(DEFAULT_PHYSICAL_MEMORY_OFFSET + x) div 2 ^ 39 mod 512 = 256" by (simp only: 1) simp
  show "huge_paths (DEFAULT_PHYSICAL_MEMORY_OFFSET + x) \<subseteq> boot_paths"
    "take 3 (indices (DEFAULT_PHYSICAL_MEMORY_OFFSET + x)) \<notin> boot_paths"
    using 2 3 by (simp_all add: huge_paths_def indices_def index_digits boot_paths_simps)
qed

lemma identity_paths:
  assumes "x < 2 ^ 32"
  shows "huge_paths x \<subseteq> boot_paths" "take 3 (indices x) \<notin> boot_paths"
proof -
  have 1: "x div 2 ^ 39 = 0" using assms by simp
  have 2: "x div 2 ^ 30 < 4" using assms by (simp add: less_mult_imp_div_less)
  show "huge_paths x \<subseteq> boot_paths" "take 3 (indices x) \<notin> boot_paths"
    using 1 2 by (simp_all add: huge_paths_def indices_def index_digits boot_paths_simps)
qed

section \<open>Where mappings are\<close>

text \<open>Every mapped address, in its low 48 bits, satisfies \<open>P\<close>.\<close>

definition maps_only :: "(nat \<Rightarrow> bool) \<Rightarrow> PageTables \<Rightarrow> bool" where
  "maps_only P t \<longleftrightarrow> (\<forall>va. translate t va \<noteq> None \<longrightarrow> P (va mod 2 ^ 48))"

lemma maps_only_None: "maps_only P t \<Longrightarrow> \<not> P (va mod 2 ^ 48) \<Longrightarrow> translate t va = None"
  unfolding maps_only_def by blast

lemma maps_only_extends:
  assumes "maps_only P t" "extends_by c ps p (translate t) (translate t')"
    and "\<And>v a x. (v, a) \<in> ps \<Longrightarrow> x div c = chunk_of c v \<Longrightarrow> P x"
  shows "maps_only P t'"
  unfolding maps_only_def
proof (intro allI impI)
  fix va assume m: "translate t' va \<noteq> None"
  have "translate t' va = translate t va \<or>
      (\<exists>(v, a) \<in> ps. chunk_of c va = chunk_of c v \<and> translate t' va = Some (a + va mod c, p))"
    using assms(2) by (simp add: extends_by_def)
  then show "P (va mod 2 ^ 48)"
  proof
    assume "translate t' va = translate t va"
    then show ?thesis using assms(1) m by (simp add: maps_only_def)
  next
    assume "\<exists>(v, a) \<in> ps. chunk_of c va = chunk_of c v \<and> translate t' va = Some (a + va mod c, p)"
    then obtain v a where "(v, a) \<in> ps" "chunk_of c va = chunk_of c v" by auto
    then show ?thesis using assms(3) by (simp add: chunk_of_def)
  qed
qed

section \<open>Mapping a well-linked kernel\<close>

definition page_end :: "Segment \<Rightarrow> nat" where
  "page_end s = sg_virtual_address s + div_ceil64 (sg_memory_size s) 4096 * 4096"

text \<open>Page-aligned segments in the kernel's 256 MiB that share no page, none both writable and executable.\<close>

definition well_linked :: "Segment list \<Rightarrow> bool" where
  "well_linked ss \<longleftrightarrow>
     (\<forall>s \<in> set ss. sg_virtual_address s mod 4096 = 0 \<and> KERNEL_VIRTUAL_BASE \<le> sg_virtual_address s \<and>
        page_end s \<le> KERNEL_VIRTUAL_BASE + 2 ^ 28 \<and> \<not> (is_writable s \<and> is_executable s)) \<and>
     sorted_wrt (\<lambda>a b. page_end a \<le> sg_virtual_address b \<or> page_end b \<le> sg_virtual_address a) ss"

definition kernel_half :: "nat \<Rightarrow> bool" where
  "kernel_half x \<longleftrightarrow> 2 ^ 48 - 2 ^ 31 \<le> x"

lemma kernel_chunk:
  assumes "KERNEL_VIRTUAL_BASE \<le> x" "x < KERNEL_VIRTUAL_BASE + 2 ^ 28"
  shows "chunk_of 4096 x = x div 4096 - 65535 * 2 ^ 36" "2 ^ 52 - 2 ^ 19 \<le> x div 4096"
proof -
  have "0xFFFFFFFF80000000 div 4096 \<le> x div 4096" "x div 4096 \<le> 0xFFFFFFFF8FFFFFFF div 4096"
    by (intro div_le_mono; use assms in \<open>simp add: KERNEL_VIRTUAL_BASE_def\<close>)+
  then have b: "2 ^ 52 - 2 ^ 19 \<le> x div 4096" "x div 4096 < 2 ^ 52" by simp_all
  then have "x div 4096 div 2 ^ 36 = 65535" by (intro index_of_interval) simp_all
  then have "x div 4096 mod 2 ^ 36 = x div 4096 - 65535 * 2 ^ 36" by (metis minus_div_mult_eq_mod)
  then show "chunk_of 4096 x = x div 4096 - 65535 * 2 ^ 36" "2 ^ 52 - 2 ^ 19 \<le> x div 4096"
    using chunk_of_digits [of 12 x] b(1) by simp_all
qed

lemma kernel_chunk_inj:
  assumes "KERNEL_VIRTUAL_BASE \<le> x" "x < KERNEL_VIRTUAL_BASE + 2 ^ 28" "x mod 4096 = 0"
    and "KERNEL_VIRTUAL_BASE \<le> y" "y < KERNEL_VIRTUAL_BASE + 2 ^ 28" "y mod 4096 = 0"
    and "chunk_of 4096 x = chunk_of 4096 y"
  shows "x = y"
proof -
  have "x div 4096 = y div 4096"
    using kernel_chunk [OF assms(1,2)] kernel_chunk [OF assms(4,5)] assms(7) by simp linarith
  then show ?thesis using assms(3,6) by (metis div_mult_mod_eq)
qed

text \<open>The pages of a segment.\<close>

lemma segment_page:
  assumes "well_linked ss" "s \<in> set ss" "i < div_ceil64 (sg_memory_size s) 4096"
  shows "KERNEL_VIRTUAL_BASE \<le> sg_virtual_address s + i * 4096"
    "sg_virtual_address s + i * 4096 < KERNEL_VIRTUAL_BASE + 2 ^ 28"
    "(sg_virtual_address s + i * 4096) mod 4096 = 0"
    "sg_virtual_address s + i * 4096 < page_end s"
proof -
  show "sg_virtual_address s + i * 4096 < page_end s" using assms(3) by (simp add: page_end_def)
  then show "KERNEL_VIRTUAL_BASE \<le> sg_virtual_address s + i * 4096"
    "sg_virtual_address s + i * 4096 < KERNEL_VIRTUAL_BASE + 2 ^ 28"
    using assms(1,2) unfolding well_linked_def by fastforce+
  show "(sg_virtual_address s + i * 4096) mod 4096 = 0" using assms(1,2) by (simp add: well_linked_def)
qed

lemma segment_permissions_Inr: "\<not> (is_writable s \<and> is_executable s) \<Longrightarrow> \<exists>p. segment_permissions s = Inr p"
  by (auto simp: segment_permissions_def split: bool.splits)

lemma map_segments_live:
  assumes "arena_inv boot_paths t" "well_linked ss" "\<forall>s \<in> set ss. segment_fits low kphys s"
    and al: "low mod 4096 = 0" "kphys mod 4096 = 0" and "maps_only kernel_half t"
    and "\<forall>s \<in> set ss. \<forall>i < div_ceil64 (sg_memory_size s) 4096. translate t (sg_virtual_address s + i * 4096) = None"
  shows "\<exists>t'. map_segments low kphys ss t = Ret (Inr t') \<and> arena_inv boot_paths t' \<and> maps_only kernel_half t'"
  using assms(1,2,3,6,7)
proof (induction ss arbitrary: t)
  case (Cons s ss)
  let ?v = "sg_virtual_address s" and ?n = "div_ceil64 (sg_memory_size s) 4096"
  let ?pa = "kphys + (?v - low)" and ?len = "sg_memory_size s"
  have s: "?v mod 4096 = 0" "KERNEL_VIRTUAL_BASE \<le> ?v" "page_end s \<le> KERNEL_VIRTUAL_BASE + 2 ^ 28"
    using Cons.prems(2) by (simp_all add: well_linked_def)
  obtain p where p: "segment_permissions s = Inr p"
    using segment_permissions_Inr [of s] Cons.prems(2) by (auto simp: well_linked_def)
  have fit: "low \<le> ?v" "?v + ?len \<le> 2 ^ 64" "?pa + ?len \<le> 2 ^ 52" using Cons.prems(3) by (auto simp: segment_fits_def)
  have len: "?len \<le> 2 ^ 47" using s(2,3) div_ceil_bounds(1) [of 4096 ?len] by (simp add: page_end_def)
  have pal: "?pa mod 4096 = 0" using al s(1) by (simp only: mod_eq_0_iff_dvd dvd_add dvd_diff_nat)
  note page = segment_page [OF Cons.prems(2), of s]
  have free: "\<forall>i < ?n. page_paths (?v + i * 4096) \<subseteq> boot_paths \<and> translate t (?v + i * 4096) = None"
    using kernel_paths page(1,2) Cons.prems(5) by simp
  obtain t1 where t1: "map_range ?v ?pa ?len p t = Ret (Inr (), t1)" "arena_inv boot_paths t1"
      "extends_by 4096 (range_pages 4096 ?v ?pa ?n) p (translate t) (translate t1)"
    using map_range_live [OF Cons.prems(1) fit(2,3) s(1) pal len free] by blast
  have step: "map_segments low kphys (s # ss) t = map_segments low kphys ss t1"
  proof -
    have "sub64 ?v low = Ret (?v - low)" "add64 kphys (?v - low) = Ret ?pa" using fit by (auto simp: run_simps)
    then show ?thesis
      by (simp only: map_segments.simps p sum.case bind.bind_lunit attempt_def mapped_def t1(1) prod.case)
  qed
  have only: "maps_only kernel_half t1"
  proof (rule maps_only_extends [OF Cons.prems(4) t1(3)])
    fix v a x assume "(v, a) \<in> range_pages 4096 ?v ?pa ?n" "x div 4096 = chunk_of 4096 v"
    then obtain i where i: "i < ?n" "x div 4096 = chunk_of 4096 (?v + i * 4096)" by auto
    have "2 ^ 36 - 2 ^ 19 \<le> x div 4096"
      using kernel_chunk [of "?v + i * 4096"] page(1,2) i by simp
    then have "(2 ^ 36 - 2 ^ 19) * 4096 \<le> x" by (simp add: less_eq_div_iff_mult_less_eq)
    then show "kernel_half x" by (simp add: kernel_half_def)
  qed
  have "translate t1 (sg_virtual_address r + j * 4096) = None"
    if r: "r \<in> set ss" "j < div_ceil64 (sg_memory_size r) 4096" for r j
  proof -
    have rp: "r \<in> set (s # ss)" using r(1) by simp
    note pr = segment_page [OF Cons.prems(2) rp r(2)]
    have apart: "page_end s \<le> sg_virtual_address r \<or> page_end r \<le> ?v" using Cons.prems(2) r(1) by (simp add: well_linked_def)
    have "chunk_of 4096 (sg_virtual_address r + j * 4096) \<noteq> chunk_of 4096 (?v + i * 4096)" if i: "i < ?n" for i
    proof
      assume "chunk_of 4096 (sg_virtual_address r + j * 4096) = chunk_of 4096 (?v + i * 4096)"
      then have "sg_virtual_address r + j * 4096 = ?v + i * 4096"
        using kernel_chunk_inj [OF pr(1-3), of "?v + i * 4096"] page(1-3) [OF _ i] by simp
      then show False using apart pr(4) page(4) [OF _ i] by simp
    qed
    then have "translate t1 (sg_virtual_address r + j * 4096) = translate t (sg_virtual_address r + j * 4096)"
      using extends_outside [OF t1(3)] by blast
    then show ?thesis using Cons.prems(5) r by simp
  qed
  then show ?case
    unfolding step using Cons.prems(2,3) by (intro Cons.IH [OF t1(2) _ _ only]) (auto simp: well_linked_def)
qed simp

section \<open>Building all of the tables\<close>

lemma window_mod: "y < 2 ^ 47 \<Longrightarrow> (DEFAULT_PHYSICAL_MEMORY_OFFSET + y) mod 2 ^ 48 = 2 ^ 47 + y"
proof -
  assume y: "y < 2 ^ 47"
  have "DEFAULT_PHYSICAL_MEMORY_OFFSET + y = (2 ^ 47 + y) + 65535 * 2 ^ 48" by (simp add: window_constants)
  then have "(DEFAULT_PHYSICAL_MEMORY_OFFSET + y) mod 2 ^ 48 = (2 ^ 47 + y) mod 2 ^ 48" by (simp only: mod_mult_self1)
  then show ?thesis using y by simp
qed

definition upper_half :: "nat \<Rightarrow> bool" where
  "upper_half x \<longleftrightarrow> 2 ^ 47 \<le> x"

lemma maps_only_mono: "maps_only P t \<Longrightarrow> (\<And>x. P x \<Longrightarrow> Q x) \<Longrightarrow> maps_only Q t"
  by (auto simp: maps_only_def)

lemma window_upper:
  assumes "(v, a) \<in> range_pages HUGE_PAGE_SIZE (DEFAULT_PHYSICAL_MEMORY_OFFSET + y) b n" "y + n * HUGE_PAGE_SIZE \<le> 2 ^ 47"
    "x div HUGE_PAGE_SIZE = chunk_of HUGE_PAGE_SIZE v"
  shows "upper_half x"
proof -
  obtain i where i: "i < n" "v = DEFAULT_PHYSICAL_MEMORY_OFFSET + (y + i * HUGE_PAGE_SIZE)"
    using assms(1) by (auto simp: add.assoc)
  have "Suc i * HUGE_PAGE_SIZE \<le> n * HUGE_PAGE_SIZE" using i(1) by (intro mult_le_mono1) simp
  then have "y + i * HUGE_PAGE_SIZE < 2 ^ 47" using assms(2) by (simp add: HUGE_PAGE_SIZE_def)
  then have "chunk_of HUGE_PAGE_SIZE v = (2 ^ 47 + (y + i * HUGE_PAGE_SIZE)) div HUGE_PAGE_SIZE"
    unfolding chunk_of_def i(2) by (simp only: window_mod)
  then have "2 ^ 47 div HUGE_PAGE_SIZE \<le> x div HUGE_PAGE_SIZE" unfolding assms(3) by (simp add: div_le_mono)
  then have "2 ^ 26 * 2 ^ 21 \<le> x" unfolding page_sizes(2) by (simp add: less_eq_div_iff_mult_less_eq)
  then show ?thesis by (simp add: upper_half_def)
qed

lemma round_down:
  assumes "x < (2 :: nat) ^ 64"
  shows "x AND (2 ^ 64 - HUGE_PAGE_SIZE) = x div HUGE_PAGE_SIZE * HUGE_PAGE_SIZE"
proof -
  have mask: "(2 :: nat) ^ 64 - HUGE_PAGE_SIZE = push_bit 21 (mask 43)"
    by (simp add: HUGE_PAGE_SIZE_def mask_eq_exp_minus_1 push_bit_eq_mult)
  have "x AND push_bit 21 (mask 43) = push_bit 21 (drop_bit 21 x)"
  proof (rule bit_eqI)
    fix n
    have "bit x n \<Longrightarrow> n < 64"
      using assms by (metis bit_take_bit_iff take_bit_nat_eq_self)
    then show "bit (x AND push_bit 21 (mask 43)) n \<longleftrightarrow> bit (push_bit 21 (drop_bit 21 x)) n"
      by (auto simp: bit_simps)
  qed
  then show ?thesis unfolding mask by (simp add: push_bit_eq_mult drop_bit_eq_div HUGE_PAGE_SIZE_def)
qed

text \<open>The window over physical memory.\<close>

lemma window_live:
  assumes "arena_inv boot_paths t" "maps_only kernel_half t" "highest \<le> 2 ^ 36"
  shows "\<exists>t'. mapped (map_huge_range DEFAULT_PHYSICAL_MEMORY_OFFSET 0 highest READ_WRITE) t = Ret (Inr t') \<and>
    arena_inv boot_paths t' \<and> maps_only upper_half t'"
proof -
  let ?n = "div_ceil64 highest HUGE_PAGE_SIZE"
  have pos: "0 < HUGE_PAGE_SIZE" by (simp add: HUGE_PAGE_SIZE_def)
  have x: "i * HUGE_PAGE_SIZE < 2 ^ 36" if "i < ?n" for i using div_ceil_bounds(3) [OF pos that] assms(3) by simp
  have b: "DEFAULT_PHYSICAL_MEMORY_OFFSET + highest \<le> 2 ^ 64" "0 + highest \<le> 2 ^ 52"
    "DEFAULT_PHYSICAL_MEMORY_OFFSET mod HUGE_PAGE_SIZE = 0" "0 mod HUGE_PAGE_SIZE = 0" "highest \<le> 2 ^ 47"
    using assms(3) by (simp_all add: window_constants HUGE_PAGE_SIZE_def)
  have paths: "\<forall>i < ?n. huge_paths (DEFAULT_PHYSICAL_MEMORY_OFFSET + i * HUGE_PAGE_SIZE) \<subseteq> boot_paths \<and>
      take 3 (indices (DEFAULT_PHYSICAL_MEMORY_OFFSET + i * HUGE_PAGE_SIZE)) \<notin> boot_paths"
    using window_paths x by blast
  have free: "\<forall>i < ?n. translate t (DEFAULT_PHYSICAL_MEMORY_OFFSET + i * HUGE_PAGE_SIZE) = None"
  proof (intro allI impI maps_only_None [OF assms(2)])
    fix i assume "i < ?n"
    note x [OF this]
    moreover from this have "i * HUGE_PAGE_SIZE < 2 ^ 47" by simp
    ultimately show "\<not> kernel_half ((DEFAULT_PHYSICAL_MEMORY_OFFSET + i * HUGE_PAGE_SIZE) mod 2 ^ 48)"
      unfolding kernel_half_def by (simp only: window_mod) simp
  qed
  from map_huge_range_live(1) [OF assms(1) b paths free, of READ_WRITE] obtain t' where
    t': "map_huge_range DEFAULT_PHYSICAL_MEMORY_OFFSET 0 highest READ_WRITE t = Ret (Inr (), t')" "arena_inv boot_paths t'"
      "extends_by HUGE_PAGE_SIZE (range_pages HUGE_PAGE_SIZE DEFAULT_PHYSICAL_MEMORY_OFFSET 0 ?n) READ_WRITE (translate t) (translate t')"
    by blast
  have "?n * HUGE_PAGE_SIZE < highest + HUGE_PAGE_SIZE" by (rule div_ceil_bounds(2) [OF pos])
  then have top: "0 + ?n * HUGE_PAGE_SIZE \<le> 2 ^ 47" using assms(3) by (simp add: HUGE_PAGE_SIZE_def)
  have "maps_only upper_half t" by (rule maps_only_mono [OF assms(2)]) (simp add: kernel_half_def upper_half_def)
  then have "maps_only upper_half t'"
  proof (rule maps_only_extends [OF _ t'(3)])
    fix v a x
    assume "(v, a) \<in> range_pages HUGE_PAGE_SIZE DEFAULT_PHYSICAL_MEMORY_OFFSET 0 ?n"
      and c: "x div HUGE_PAGE_SIZE = chunk_of HUGE_PAGE_SIZE v"
    then show "upper_half x" by (intro window_upper [where y = 0 and b = 0 and a = a, OF _ top c]) simp
  qed
  with t' show ?thesis by (simp add: mapped_Inr)
qed

lemma framebuffer_live:
  assumes "arena_inv boot_paths t" "maps_only upper_half t" "is_present fb \<longrightarrow> fb_base fb + fb_size fb \<le> 2 ^ 36"
  shows "\<exists>t'. map_framebuffer fb t = Ret (Inr t') \<and> arena_inv boot_paths t' \<and> maps_only upper_half t'"
proof (cases "is_present fb")
  case True
  let ?base = "fb_base fb div HUGE_PAGE_SIZE * HUGE_PAGE_SIZE"
  let ?len = "fb_size fb + (fb_base fb - ?base)"
  let ?n = "div_ceil64 ?len HUGE_PAGE_SIZE"
  have pos: "0 < HUGE_PAGE_SIZE" by (simp add: HUGE_PAGE_SIZE_def)
  have le: "?base \<le> fb_base fb" by (rule div_times_less_eq_dividend)
  have fit: "?base + ?len \<le> 2 ^ 36" using assms(3) True le by linarith
  have base: "fb_base fb AND (2 ^ 64 - HUGE_PAGE_SIZE) = ?base" by (rule round_down) (use assms(3) True in simp)
  have x: "?base + i * HUGE_PAGE_SIZE < 2 ^ 36" if "i < ?n" for i using div_ceil_bounds(3) [OF pos that] fit by linarith
  have b: "DEFAULT_PHYSICAL_MEMORY_OFFSET + ?base + ?len \<le> 2 ^ 64" "?base + ?len \<le> 2 ^ 52"
    "(DEFAULT_PHYSICAL_MEMORY_OFFSET + ?base) mod HUGE_PAGE_SIZE = 0" "?base mod HUGE_PAGE_SIZE = 0" "?len \<le> 2 ^ 47"
    using fit by (simp_all add: window_constants HUGE_PAGE_SIZE_def)
  have paths: "\<forall>i < ?n. huge_paths (DEFAULT_PHYSICAL_MEMORY_OFFSET + ?base + i * HUGE_PAGE_SIZE) \<subseteq> boot_paths \<and>
      take 3 (indices (DEFAULT_PHYSICAL_MEMORY_OFFSET + ?base + i * HUGE_PAGE_SIZE)) \<notin> boot_paths"
    using window_paths x by (simp only: add.assoc) blast
  from map_huge_range_live(2) [OF assms(1) b paths, of READ_WRITE] obtain t' where
    t': "map_huge_range_lenient (DEFAULT_PHYSICAL_MEMORY_OFFSET + ?base) ?base ?len READ_WRITE t = Ret (Inr (), t')"
      "arena_inv boot_paths t'"
      "extends_by HUGE_PAGE_SIZE (range_pages HUGE_PAGE_SIZE (DEFAULT_PHYSICAL_MEMORY_OFFSET + ?base) ?base ?n) READ_WRITE (translate t) (translate t')"
    by blast
  have "?n * HUGE_PAGE_SIZE < ?len + HUGE_PAGE_SIZE" by (rule div_ceil_bounds(2) [OF pos])
  then have top: "?base + ?n * HUGE_PAGE_SIZE \<le> 2 ^ 47" using fit unfolding HUGE_PAGE_SIZE_def by simp
  have "maps_only upper_half t'"
    by (rule maps_only_extends [OF assms(2) t'(3)]) (rule window_upper [OF _ top], simp_all)
  moreover have "sub64 (fb_base fb) ?base = Ret (fb_base fb - ?base)" "add64 (fb_size fb) (fb_base fb - ?base) = Ret ?len"
    "add64 DEFAULT_PHYSICAL_MEMORY_OFFSET ?base = Ret (DEFAULT_PHYSICAL_MEMORY_OFFSET + ?base)"
    using le fit by (auto simp: run_simps window_constants)
  ultimately show ?thesis using t'(1,2)
    by (simp only: map_framebuffer_def if_P [OF True] base Let_def bind.bind_lunit mapped_Inr) blast
qed (use assms in \<open>simp add: map_framebuffer_def\<close>)

lemma identity_live:
  assumes "arena_inv boot_paths t" "maps_only upper_half t"
  shows "\<exists>t'. mapped (map_huge_range 0 0 IDENTITY_MAPPED_BYTES READ_EXECUTE) t = Ret (Inr t')"
proof -
  let ?n = "div_ceil64 IDENTITY_MAPPED_BYTES HUGE_PAGE_SIZE"
  have pos: "0 < HUGE_PAGE_SIZE" by (simp add: HUGE_PAGE_SIZE_def)
  have x: "0 + i * HUGE_PAGE_SIZE < 2 ^ 32" if "i < ?n" for i
    using div_ceil_bounds(3) [OF pos that] by (simp add: window_constants)
  have b: "0 + IDENTITY_MAPPED_BYTES \<le> 2 ^ 64" "0 + IDENTITY_MAPPED_BYTES \<le> 2 ^ 52" "0 mod HUGE_PAGE_SIZE = 0"
    "0 mod HUGE_PAGE_SIZE = 0" "IDENTITY_MAPPED_BYTES \<le> 2 ^ 47"
    by (simp_all add: window_constants HUGE_PAGE_SIZE_def)
  have paths: "\<forall>i < ?n. huge_paths (0 + i * HUGE_PAGE_SIZE) \<subseteq> boot_paths \<and>
      take 3 (indices (0 + i * HUGE_PAGE_SIZE)) \<notin> boot_paths"
    using identity_paths x by blast
  have free: "\<forall>i < ?n. translate t (0 + i * HUGE_PAGE_SIZE) = None"
  proof (intro allI impI maps_only_None [OF assms(2)])
    fix i assume "i < ?n"
    from x [OF this] show "\<not> upper_half ((0 + i * HUGE_PAGE_SIZE) mod 2 ^ 48)" by (simp add: upper_half_def)
  qed
  from map_huge_range_live(1) [OF assms(1) b paths free, of READ_EXECUTE] show ?thesis by (auto simp: mapped_Inr)
qed

lemma build_tables_live:
  assumes arena: "arena mod 4096 = 0" "arena + 256 * 4096 \<le> 2 ^ 52"
    and segs: "segments img = Ret ss" "well_linked ss" "\<forall>s \<in> set ss. segment_fits low kphys s"
    and al: "low mod 4096 = 0" "kphys mod 4096 = 0"
    and hw: "highest \<le> 2 ^ 36" "is_present fb \<longrightarrow> fb_base fb + fb_size fb \<le> 2 ^ 36"
  shows "\<exists>t. build_tables entries img low kphys arena highest fb = Ret (Inr t)"
proof -
  obtain t0 where t0: "PageTables_new entries arena ARENA_FRAMES = Ret (Inr t0)" "tables_in {[]} t0"
      "translate t0 = Map.empty" "pt_arena_frames t0 = 256"
    using PageTables_new_ok [OF arena(1) _ arena(2), of entries] by (auto simp: window_constants(4))
  have inv0: "arena_inv boot_paths t0"
    using tables_in_mono [OF t0(2), of boot_paths] boot_paths_card t0(4) by (auto simp: roomy_def boot_paths_def)
  have only0: "maps_only kernel_half t0" by (simp add: maps_only_def t0(3))
  have "\<forall>s \<in> set ss. \<forall>i < div_ceil64 (sg_memory_size s) 4096. translate t0 (sg_virtual_address s + i * 4096) = None"
    by (simp add: t0(3))
  from map_segments_live [OF inv0 segs(2,3) al only0 this] obtain t1 where
    t1: "map_segments low kphys ss t0 = Ret (Inr t1)" "arena_inv boot_paths t1" "maps_only kernel_half t1" by blast
  from window_live [OF t1(2,3) hw(1)] obtain t2 where
    t2: "mapped (map_huge_range DEFAULT_PHYSICAL_MEMORY_OFFSET 0 highest READ_WRITE) t1 = Ret (Inr t2)"
      "arena_inv boot_paths t2" "maps_only upper_half t2" by blast
  from framebuffer_live [OF t2(2,3) hw(2)] obtain t3 where
    t3: "map_framebuffer fb t2 = Ret (Inr t3)" "arena_inv boot_paths t3" "maps_only upper_half t3" by blast
  from identity_live [OF t3(2,3)] obtain t4 where
    t4: "mapped (map_huge_range 0 0 IDENTITY_MAPPED_BYTES READ_EXECUTE) t3 = Ret (Inr t4)" by blast
  have "map_kernel img low kphys t0 = Ret (Inr t1)" by (simp add: map_kernel_def segs(1) t1(1))
  then have "build_tables entries img low kphys arena highest fb = Ret (Inr t4)"
    by (simp only: build_tables_def attempt_def map_err_def t0(1) t2(1) t3(1) t4 bind.bind_lunit sum.case)
  then show ?thesis by blast
qed

section \<open>The whole boot\<close>

text \<open>
  A machine the bootloader can start: the kernel file is read and holds a well-linked image, the requests for memory
  are met, the framebuffer, if there is one, lies below 64 GiB, and the memory maps stay inside the address space.
\<close>

definition machine_ready :: "Firmware \<Rightarrow> Image \<Rightarrow> bool" where
  "machine_ready fw img \<longleftrightarrow> firmware_memory_ok fw \<and>
     (\<exists>data mem. read_kernel fw = Ret (Inr (data, mem)) \<and> Image_parse data = Ret (Inr img)) \<and>
     (\<exists>ss. segments img = Ret ss \<and> well_linked ss) \<and>
     (\<forall>k. \<forall>n \<le> 2 ^ 16. fw_allocate fw k n \<noteq> None) \<and>
     (\<exists>fb. find_framebuffer fw = Ret fb \<and> (is_present fb \<longrightarrow> fb_base fb + fb_size fb \<le> 2 ^ 36)) \<and>
     (\<exists>ds. fw_memory_map fw = Some ds \<and>
        (\<forall>d \<in> set ds. is_installed_ram (md_ty d) \<longrightarrow> descriptor_end d < 2 ^ 64)) \<and>
     (\<forall>d \<in> set (fw_exit_memory_map fw). md_page_count d * 4096 < 2 ^ 64)"

lemma well_linked_segment:
  assumes "well_linked ss" "s \<in> set ss"
  shows "KERNEL_VIRTUAL_BASE \<le> sg_virtual_address s" "segment_top s \<le> KERNEL_VIRTUAL_BASE + 2 ^ 28"
    "sg_virtual_address s < U64_MAX" "segment_top s < 2 ^ 64"
proof -
  have b: "KERNEL_VIRTUAL_BASE \<le> sg_virtual_address s" "page_end s \<le> KERNEL_VIRTUAL_BASE + 2 ^ 28"
    using assms by (auto simp: well_linked_def)
  then show "KERNEL_VIRTUAL_BASE \<le> sg_virtual_address s" "segment_top s \<le> KERNEL_VIRTUAL_BASE + 2 ^ 28"
    using div_ceil_bounds(1) [of 4096 "sg_memory_size s"] by (simp_all add: page_end_def segment_top_def)
  then show "sg_virtual_address s < U64_MAX" "segment_top s < 2 ^ 64"
    by (simp_all add: segment_top_def U64_MAX_def KERNEL_VIRTUAL_BASE_def)
qed

lemma well_linked_extent:
  assumes "segments img = Ret ss" "ss \<noteq> []" "well_linked ss"
  obtains low high where "virtual_extent img = Ret (low, high)" "low mod 4096 = 0" "high - low \<le> 2 ^ 28"
proof -
  let ?low = "Min (sg_virtual_address ` set ss)" and ?high = "Max (segment_top ` set ss)"
  note seg = well_linked_segment [OF assms(3)]
  have ext: "virtual_extent img = Ret (?low, ?high)"
    using virtual_extent_cases [OF assms(1,2)] seg(3,4) by simp
  have fin: "finite (sg_virtual_address ` set ss)" "sg_virtual_address ` set ss \<noteq> {}"
    "finite (segment_top ` set ss)" "segment_top ` set ss \<noteq> {}"
    using assms(2) by simp_all
  obtain a where a: "a \<in> set ss" "?low = sg_virtual_address a" using Min_in [OF fin(1,2)] by auto
  obtain b where b: "b \<in> set ss" "?high = segment_top b" using Max_in [OF fin(3,4)] by auto
  have "?low mod 4096 = 0" using a assms(3) by (simp add: well_linked_def)
  moreover have "?high - ?low \<le> 2 ^ 28" using seg(1) [OF a(1)] seg(2) [OF b(1)] a(2) b(2) by linarith
  ultimately show ?thesis by (rule that [OF ext])
qed

lemma well_linked_disjoint: "well_linked ss \<Longrightarrow> sorted_wrt segments_disjoint ss"
  unfolding well_linked_def
proof (elim conjE, erule sorted_wrt_mono_rel [rotated])
  fix a b assume "page_end a \<le> sg_virtual_address b \<or> page_end b \<le> sg_virtual_address a"
  then show "segments_disjoint a b"
    using div_ceil_bounds(1) [of 4096 "sg_memory_size a"] div_ceil_bounds(1) [of 4096 "sg_memory_size b"]
    by (auto simp: segments_disjoint_def in_segment_def page_end_def)
qed

lemma hand_over_live:
  assumes "firmware_memory_ok fw" "\<forall>d \<in> set (fw_exit_memory_map fw). md_page_count d * 4096 < 2 ^ 64"
    and alloc: "fw_allocate fw 3 KERNEL_STACK_PAGES = Some stack" "fw_allocate fw 4 MEMORY_MAP_PAGES = Some regions"
      "fw_allocate fw 5 1 = Some boot_info"
  shows "\<exists>h. hand_over fw img low span kphys stack regions boot_info fb rsdp mem t = Ret (Inr h)"
proof -
  obtain arr n where c: "convert_memory_map (fw_exit_memory_map fw) (replicate region_capacity (fw_region fw))
      region_capacity = Ret (arr, n)"
    using convert_memory_map_sorted [OF assms(2), of "replicate region_capacity (fw_region fw)"]
    by (auto simp: region_capacity_eq)
  have "stack + 65536 < 2 ^ 47" "regions + 32768 < 2 ^ 47" "boot_info + 4096 < 2 ^ 47"
    using assms(1) alloc by (fastforce simp: firmware_memory_ok_def KERNEL_STACK_PAGES_def MEMORY_MAP_PAGES_def)+
  then have steps: "mul64 KERNEL_STACK_PAGES PAGE_SIZE = Ret 65536" "add64 stack 65536 = Ret (stack + 65536)"
    "add64 DEFAULT_PHYSICAL_MEMORY_OFFSET regions = Ret (DEFAULT_PHYSICAL_MEMORY_OFFSET + regions)"
    "add64 DEFAULT_PHYSICAL_MEMORY_OFFSET boot_info = Ret (DEFAULT_PHYSICAL_MEMORY_OFFSET + boot_info)"
    "add64 DEFAULT_PHYSICAL_MEMORY_OFFSET (stack + 65536) = Ret (DEFAULT_PHYSICAL_MEMORY_OFFSET + (stack + 65536))"
    by (auto simp: run_simps window_constants KERNEL_STACK_PAGES_def PAGE_SIZE_def)
  show ?thesis by (simp only: hand_over_def steps c bind.bind_lunit prod.case) blast
qed

lemma boot_reaches_kernel:
  assumes "machine_ready fw img"
  shows "\<exists>h. load_and_start fw = Ret (Inr h)"
proof -
  obtain data mem ss fb ds where r: "firmware_memory_ok fw" "read_kernel fw = Ret (Inr (data, mem))"
      "Image_parse data = Ret (Inr img)" "segments img = Ret ss" "well_linked ss" "find_framebuffer fw = Ret fb"
      "is_present fb \<longrightarrow> fb_base fb + fb_size fb \<le> 2 ^ 36" "fw_memory_map fw = Some ds"
      "\<forall>d \<in> set ds. is_installed_ram (md_ty d) \<longrightarrow> descriptor_end d < 2 ^ 64"
      "\<forall>d \<in> set (fw_exit_memory_map fw). md_page_count d * 4096 < 2 ^ 64"
    using assms by (auto simp: machine_ready_def)
  note seg = well_linked_segment [OF r(5)]
  have alloc: "\<exists>a. fw_allocate fw k n = Some a \<and> a mod 4096 = 0 \<and> a + n * 4096 < 2 ^ 47" if "n \<le> 2 ^ 16" for k n
  proof -
    have "fw_allocate fw k n \<noteq> None" using assms that unfolding machine_ready_def by blast
    then show ?thesis using r(1) by (auto simp: firmware_memory_ok_def)
  qed
  have "\<exists>n > 0. count_loadable img [0..<im_program_header_count img] 0 = Ret (Inr n)" "image_ok img"
    using Image_parse_cases [OF read_kernel_length [OF r(2)]] r(3) by auto
  then have ne: "ss \<noteq> []"
    using count_loadable_total [of img "[0..<im_program_header_count img]" 0] r(4) by (auto simp: segments_def)
  obtain low high where ext: "virtual_extent img = Ret (low, high)" "low mod 4096 = 0" "high - low \<le> 2 ^ 28"
    by (rule well_linked_extent [OF r(4) ne r(5)])
  let ?pages = "div_ceil64 (high - low) PAGE_SIZE"
  have "?pages \<le> 2 ^ 16" using div_ceil_bounds(2) [of 4096 "high - low"] ext(3) by (simp add: PAGE_SIZE_def)
  then obtain kphys arena stack regions boot_info where a: "fw_allocate fw 1 ?pages = Some kphys" "kphys mod 4096 = 0"
      "fw_allocate fw 2 ARENA_FRAMES = Some arena" "arena mod 4096 = 0" "arena + 256 * 4096 < 2 ^ 47"
      "fw_allocate fw 3 KERNEL_STACK_PAGES = Some stack" "fw_allocate fw 4 MEMORY_MAP_PAGES = Some regions"
      "fw_allocate fw 5 1 = Some boot_info"
    using alloc [of ?pages 1] alloc [of ARENA_FRAMES 2] alloc [of KERNEL_STACK_PAGES 3] alloc [of MEMORY_MAP_PAGES 4]
      alloc [of 1 5] by (auto simp: window_constants(4) KERNEL_STACK_PAGES_def MEMORY_MAP_PAGES_def)
  obtain ss' where k: "segments img = Ret ss'" "length (im_data img) < 2 ^ 64" "low \<le> high"
      "\<And>s. s \<in> set ss' \<Longrightarrow> segment_ok img s"
      "\<And>s. s \<in> set ss' \<Longrightarrow> sg_virtual_address s < U64_MAX \<Longrightarrow> segment_fits low kphys s"
    using kernel_fits [OF r(1) read_kernel_length [OF r(2)] r(3) ext(1) a(1)] by metis
  then have fits: "\<forall>s \<in> set ss. segment_ok img s \<and> segment_fits low kphys s" using r(4) seg(3) by auto
  obtain highest where high: "highest_ram_address (fw_memory_map fw) = Ret (Inr highest)"
    using highest_ram_cases [OF r(9)] r(8) by auto
  have copy: "\<exists>mem'. copy_segments img low kphys m = Ret mem'" for m
    using copy_loop [OF fits k(2) well_linked_disjoint [OF r(5)], of m] by (auto simp: copy_segments_def r(4))
  have arena: "arena + 256 * 4096 \<le> 2 ^ 52" using a(5) by simp
  obtain t where t: "build_tables (fw_entries fw) img low kphys arena highest fb = Ret (Inr t)"
    using build_tables_live [OF a(4) arena r(4,5) _ ext(2) a(2) highest_ram_limit [OF high] r(7)] fits by blast
  have m: "mul64 ?pages PAGE_SIZE = Ret (?pages * 4096)" "mul64 ARENA_FRAMES PAGE_SIZE = Ret (256 * 4096)"
    "mul64 KERNEL_STACK_PAGES PAGE_SIZE = Ret (16 * 4096)" "mul64 MEMORY_MAP_PAGES PAGE_SIZE = Ret (8 * 4096)"
    "mul64 1 PAGE_SIZE = Ret 4096" "sub64 high low = Ret (high - low)"
    using \<open>?pages \<le> 2 ^ 16\<close> k(3)
    by (auto simp: run_simps PAGE_SIZE_def window_constants(4) KERNEL_STACK_PAGES_def MEMORY_MAP_PAGES_def)
  define mem5 where "mem5 = zero_bytes (zero_bytes (zero_bytes (zero_bytes (zero_bytes mem kphys (?pages * 4096))
    arena (256 * 4096)) stack (16 * 4096)) regions (8 * 4096)) boot_info 4096"
  obtain mem6 where mem6: "copy_segments img low kphys mem5 = Ret mem6" using copy by blast
  have "load_and_start fw = hand_over fw img low (high - low) kphys stack regions boot_info fb (find_acpi_rsdp fw) mem6 t"
    by (simp only: load_and_start_def attempt_def map_err_def r(2,3,6) ext(1) m Let_def allocate_pages_def a option.case
      bind.bind_lunit sum.case prod.case mem5_def [symmetric] mem6 high t)
  then show ?thesis using hand_over_live [OF r(1,10) a(6-8)] by simp
qed

end
