(* ===== verification/Boot_Correct.thy ===== *)
theory Boot_Correct
  imports Boot_Success
begin

text \<open>
  The properties of the whole boot, and a small machine on which they are checked: its kernel file is one page with a
  single executable segment at the kernel's virtual base.
\<close>

section \<open>What the kernel finds\<close>

text \<open>
  C5. When the bootloader jumps, the kernel is in memory as its file describes it: every address of every segment
  translates, with exactly the permissions the segment declared, to memory holding the segment's byte from
  the file, or zero beyond the file contents. No segment is both writable and executable, and no two segments
  overwrite each other, or the boot would have ended with a message.
\<close>

theorem kernel_image_loaded:
  assumes "load_and_start fw = Ret (Inr h)" and "firmware_memory_ok fw"
  shows "\<exists>img ss. kernel_loaded fw h img ss"
  using load_and_start_state [OF assms] by metis

text \<open>
  C11. The address space the kernel starts in is the one the protocol promises: all installed memory below 64 GiB
  is readable and writable through the window at the physical-memory offset, the low four GiB are identity-mapped for
  execution, and no address at all is both writable and executable.
\<close>

theorem handover_address_space:
  assumes "load_and_start fw = Ret (Inr h)" and "firmware_memory_ok fw"
  shows "wx_safe (translate (ho_tables h)) \<and>
    (\<forall>va < 2 ^ 32. translate (ho_tables h) va = Some (va, READ_EXECUTE)) \<and>
    (\<exists>highest. highest_ram_address (fw_memory_map fw) = Ret (Inr highest) \<and>
       (\<forall>pa < highest. translate (ho_tables h) (DEFAULT_PHYSICAL_MEMORY_OFFSET + pa) = Some (pa, READ_WRITE)))"
proof -
  obtain ss low kphys highest where "highest_ram_address (fw_memory_map fw) = Ret (Inr highest)"
    "address_space (ho_tables h) ss low kphys highest"
    using load_and_start_state [OF assms] by metis
  then show ?thesis unfolding address_space_def by blast
qed

text \<open>
  The kernel accepts what the bootloader hands it: for every firmware memory map that keeps the UEFI specification, in any
  order and with empty entries, the boot information passes all of the kernel's validation.
\<close>

theorem boot_info_accepted:
  assumes boot: "load_and_start fw = Ret (Inr h)" and map_ok: "firmware_map_ok (fw_exit_memory_map fw)"
    and few: "length (nonempty (fw_exit_memory_map fw)) \<le> region_capacity"
  shows "BootInfo_validate (handoff_memory h) (ho_boot_info h) = Inr ()"
  by (rule boot_info_valid [OF assms])

text \<open>
  C15. The bootloader starts every machine that is ready for it: with a well-linked kernel image and enough memory the boot
  neither panics nor ends with a message, and in particular the 256 page tables of its arena are enough for
  the largest kernel, 64 GiB of memory and the identity mapping together.
\<close>

theorem boot_succeeds:
  assumes "machine_ready fw img"
  shows "\<exists>h. load_and_start fw = Ret (Inr h)"
  by (rule boot_reaches_kernel [OF assms])

section \<open>A machine\<close>

definition demo_kernel_header :: "8 word list" where
  "demo_kernel_header =
     [0x7F, 0x45, 0x4C, 0x46, 2, 1, 1, 0, 0, 0, 0, 0, 0, 0, 0, 0,
      2, 0, 0x3E, 0, 1, 0, 0, 0, 0, 0, 0, 0x80, 0xFF, 0xFF, 0xFF, 0xFF,
      64, 0, 0, 0, 0, 0, 0, 0, 0, 0, 0, 0, 0, 0, 0, 0,
      0, 0, 0, 0, 64, 0, 56, 0, 1, 0, 0, 0, 0, 0, 0, 0]"

definition demo_kernel_program_header :: "8 word list" where
  "demo_kernel_program_header =
     [1, 0, 0, 0, 5, 0, 0, 0, 120, 0, 0, 0, 0, 0, 0, 0,
      0, 0, 0, 0x80, 0xFF, 0xFF, 0xFF, 0xFF, 0, 0, 0, 0, 0, 0, 0, 0,
      2, 0, 0, 0, 0, 0, 0, 0, 8, 0, 0, 0, 0, 0, 0, 0, 0, 0, 0, 0, 0, 0, 0, 0]"

definition demo_kernel_file :: "8 word list" where
  "demo_kernel_file = demo_kernel_header @ demo_kernel_program_header @ [0xF4, 0xC3]"

text \<open>The buffer the file is read into is a whole page.\<close>

definition demo_buffer :: "8 word list" where
  "demo_buffer = demo_kernel_file @ replicate 3974 0"

definition demo_kernel :: Image where
  "demo_kernel = \<lparr>im_data = demo_buffer, im_entry = 0xFFFFFFFF80000000, im_program_header_offset = 64,
     im_program_header_count = 1, im_program_header_size = 56\<rparr>"

definition demo_text :: Segment where
  "demo_text = \<lparr>sg_file_offset = 120, sg_file_size = 2, sg_virtual_address = 0xFFFFFFFF80000000,
     sg_memory_size = 8, sg_flags = 5\<rparr>"

lemmas demo_kernel_defs = demo_kernel_file_def demo_kernel_header_def demo_kernel_program_header_def

definition demo_ram :: "MemoryDescriptor list" where
  "demo_ram =
     [\<lparr>md_ty = LOADER_DATA, md_phys_start = 0x10000000, md_page_count = 0x80000\<rparr>,
      \<lparr>md_ty = CONVENTIONAL, md_phys_start = 0x1000, md_page_count = 0x4000\<rparr>]"

definition demo_gop :: GraphicsOutput where
  "demo_gop = \<lparr>go_width = 1024, go_height = 768, go_stride = 1024, go_pixel_format = Bgr,
     go_frame_buffer = 0xC0000000, go_frame_buffer_size = 3145728\<rparr>"

definition demo_firmware :: Firmware where
  "demo_firmware = \<lparr>fw_init = True, fw_image_file_system = True, fw_open_volume = True, fw_open_kernel = True,
     fw_into_type = Some Regular, fw_file_size = Some 122, fw_read = (\<lambda>n. Some demo_kernel_file),
     fw_allocate = (\<lambda>k n. if n \<le> 2 ^ 16 then Some ((min k 5 + 1) * 2 ^ 28) else None),
     fw_gop_handle = True, fw_gop = Some demo_gop, fw_acpi2_guid = 2, fw_acpi_guid = 1,
     fw_config_table = [(1, 0xE0000), (2, 0xE1000)], fw_memory_map = Some demo_ram,
     fw_exit_memory_map = demo_ram, fw_bytes = (\<lambda>p. 0), fw_entries = (\<lambda>p. 0),
     fw_region = \<lparr>mr_start = 0, mr_len = 0, mr_kind = Reserved, mr_reserved = 0\<rparr>, fw_efer = 0\<rparr>"

lemma demo_kernel_reads:
  "length demo_buffer = 4096" "take 4 demo_buffer = [0x7F, 0x45, 0x4C, 0x46]" "demo_buffer ! 4 = 2" "demo_buffer ! 5 = 1"
  "read_u16 demo_buffer 0x12 = Ret 62" "read_u16 demo_buffer 0x10 = Ret 2"
  "read_u64 demo_buffer 0x18 = Ret 0xFFFFFFFF80000000" "read_u64 demo_buffer 0x20 = Ret 64"
  "read_u16 demo_buffer 0x36 = Ret 56" "read_u16 demo_buffer 0x38 = Ret 1"
  by (simp_all add: demo_buffer_def demo_kernel_defs read_defs read_le_def run_simps)

lemma demo_kernel_segment: "segment_at demo_kernel 0 = Ret (Inr (Some demo_text))"
  by (simp add: segment_at_def demo_kernel_def demo_text_def demo_buffer_def demo_kernel_defs read_defs read_le_def run_simps
    PT_LOAD_def checked_add64_def)

lemma demo_kernel_parse: "Image_parse demo_buffer = Ret (Inr demo_kernel)"
proof -
  have "\<lparr>im_data = demo_buffer, im_entry = 0xFFFFFFFF80000000, im_program_header_offset = 64,
      im_program_header_count = Suc 0, im_program_header_size = 56\<rparr> = demo_kernel"
    by (simp add: demo_kernel_def)
  then show ?thesis
    by (simp add: Image_parse_def demo_kernel_reads Let_def demo_kernel_segment
      ELF_HEADER_SIZE_def EM_X86_64_def ET_EXEC_def PROGRAM_HEADER_SIZE_def checked_add64_def checked_mul64_def)
qed

lemma demo_kernel_segments: "segments demo_kernel = Ret [demo_text]"
  by (simp add: segments_def demo_kernel_def [THEN arg_cong [where f = im_program_header_count]] demo_kernel_segment)

lemma demo_well_linked: "well_linked [demo_text]"
  by (simp add: well_linked_def demo_text_def page_end_def KERNEL_VIRTUAL_BASE_def is_writable_def is_executable_def
    div_ceil64_def)

lemma demo_memory_ok: "firmware_memory_ok demo_firmware"
  by (auto simp: firmware_memory_ok_def demo_firmware_def demo_gop_def min_def split: if_splits)

lemma demo_read: "\<exists>mem. read_kernel demo_firmware = Ret (Inr (demo_buffer, mem))"
proof -
  have "length demo_kernel_file = 122" by (simp add: demo_kernel_defs)
  then show ?thesis
    by (simp add: read_kernel_def demo_firmware_def allocate_pages_def attempt_def div_ceil64_def PAGE_SIZE_def run_simps
      demo_buffer_def)
qed

lemma demo_ready: "machine_ready demo_firmware demo_kernel"
proof -
  have "\<exists>data mem. read_kernel demo_firmware = Ret (Inr (data, mem)) \<and> Image_parse data = Ret (Inr demo_kernel)"
    using demo_read demo_kernel_parse by blast
  moreover have "\<exists>ss. segments demo_kernel = Ret ss \<and> well_linked ss"
    using demo_kernel_segments demo_well_linked by blast
  moreover have "\<exists>fb. find_framebuffer demo_firmware = Ret fb \<and> (is_present fb \<longrightarrow> fb_base fb + fb_size fb \<le> 2 ^ 36)"
    by (simp add: find_framebuffer_def demo_firmware_def demo_gop_def run_simps)
  moreover have "\<forall>k. \<forall>n \<le> 2 ^ 16. fw_allocate demo_firmware k n \<noteq> None" by (simp add: demo_firmware_def)
  moreover have "\<exists>ds. fw_memory_map demo_firmware = Some ds \<and>
        (\<forall>d \<in> set ds. is_installed_ram (md_ty d) \<longrightarrow> descriptor_end d < 2 ^ 64)"
    by (simp add: demo_firmware_def demo_ram_def descriptor_end_def)
  moreover have "\<forall>d \<in> set (fw_exit_memory_map demo_firmware). md_page_count d * 4096 < 2 ^ 64"
    by (simp add: demo_firmware_def demo_ram_def)
  ultimately show ?thesis unfolding machine_ready_def using demo_memory_ok by blast
qed

lemma demo_map_ok:
  "firmware_map_ok (fw_exit_memory_map demo_firmware)"
  "length (nonempty (fw_exit_memory_map demo_firmware)) \<le> region_capacity"
  by (simp_all add: demo_firmware_def demo_ram_def firmware_map_ok_def nonempty_def descriptor_end_def region_capacity_eq)

theorem boot_succeeds_witness: "\<exists>h. load_and_start demo_firmware = Ret (Inr h)"
  by (rule boot_succeeds [OF demo_ready])

lemma demo_boot: "\<exists>h. load_and_start demo_firmware = Ret (Inr h)"
  by (rule boot_reaches_kernel [OF demo_ready])

theorem kernel_image_loaded_witness:
  "\<exists>h img ss. load_and_start demo_firmware = Ret (Inr h) \<and> kernel_loaded demo_firmware h img ss"
  using kernel_image_loaded [OF _ demo_memory_ok] demo_boot by blast

theorem handover_address_space_witness:
  "\<exists>h. load_and_start demo_firmware = Ret (Inr h) \<and> wx_safe (translate (ho_tables h)) \<and>
    translate (ho_tables h) 0x200123 = Some (0x200123, READ_EXECUTE)"
proof -
  obtain h where h: "load_and_start demo_firmware = Ret (Inr h)" using demo_boot by blast
  have "\<forall>va < 2 ^ 32. translate (ho_tables h) va = Some (va, READ_EXECUTE)" "wx_safe (translate (ho_tables h))"
    using handover_address_space [OF h demo_memory_ok] by blast+
  then show ?thesis using h by (intro exI [of _ h]) simp
qed

theorem boot_info_accepted_witness:
  "\<exists>h. load_and_start demo_firmware = Ret (Inr h) \<and> BootInfo_validate (handoff_memory h) (ho_boot_info h) = Inr ()"
  using boot_info_accepted [OF _ demo_map_ok] demo_boot by blast

end
