(* ===== verification/Pool_Spec.thy ===== *)
theory Pool_Spec
  imports Loko_Prelude
begin

text \<open>
  The two interfaces of physical memory management, as locales. \<open>bit_array\<close> is what the frame
  allocator needs of its bitmap: reading and writing one bit. \<open>frame_pool\<close> is what the rest
  of the kernel needs of the frame allocator: contiguous runs are handed out and taken back, and
  a run handed out is out of the pool until it is given back. Both are interpreted on the model
  of \<^verbatim>\<open>FrameAllocator\<close> in the theory of the allocator.
\<close>

section \<open>Bit arrays\<close>

locale bit_array =
  fixes get :: "'s \<Rightarrow> nat \<Rightarrow> bool run"
    and set :: "'s \<Rightarrow> nat \<Rightarrow> bool \<Rightarrow> 's run"
    and view :: "'s \<Rightarrow> nat \<Rightarrow> bool"
    and cap :: "'s \<Rightarrow> nat"
    and rest :: "'s \<Rightarrow> 'r"
  assumes get_view: "i < cap s \<Longrightarrow> get s i = Ret (view s i)"
    and set_view: "i < cap s \<Longrightarrow>
      \<exists>s'. set s i b = Ret s' \<and> view s' = (view s)(i := b) \<and> cap s' = cap s \<and> rest s' = rest s"
begin

lemma set_range:
  assumes "j \<le> cap s"
  shows "\<exists>s'. run_for (\<lambda>i s. set s i b) [i..<j] s = Ret s' \<and>
    view s' = (\<lambda>k. if i \<le> k \<and> k < j then b else view s k) \<and> cap s' = cap s \<and> rest s' = rest s"
proof (cases "i \<le> j")
  case True
  then show ?thesis using assms
  proof (induction j)
    case (Suc j)
    show ?case
    proof (cases "i \<le> j")
      case le: True
      with Suc obtain t where t: "run_for (\<lambda>i s. set s i b) [i..<j] s = Ret t"
          "view t = (\<lambda>k. if i \<le> k \<and> k < j then b else view s k)" "cap t = cap s" "rest t = rest s"
        by auto
      obtain t' where t': "set t j b = Ret t'" "view t' = (view t)(j := b)" "cap t' = cap t"
          "rest t' = rest t"
        using set_view [of j t b] Suc.prems(2) t(3) by auto
      have "run_for (\<lambda>i s. set s i b) [i..<Suc j] s = Ret t'"
        using t(1) t'(1) le by (simp add: run_for_append)
      moreover have "view t' = (\<lambda>k. if i \<le> k \<and> k < Suc j then b else view s k)"
        using t(2) t'(2) le by (auto simp: fun_eq_iff)
      ultimately show ?thesis using t t' by auto
    next
      case False
      then have "i = Suc j" using Suc.prems(1) by simp
      then show ?thesis by (auto simp: fun_eq_iff)
    qed
  qed auto
qed (auto simp: fun_eq_iff)

lemma find_range:
  "j \<le> cap s \<Longrightarrow> run_find (get s) [i..<j] = Ret (find (view s) [i..<j])"
  by (rule run_find_total) (simp add: get_view)

lemma count_range:
  assumes "n \<le> cap s"
  shows "run_count (get s) [0..<n] = Ret (card {i. i < n \<and> view s i})"
proof -
  have "run_count (get s) [0..<n] = Ret (length (filter (view s) [0..<n]))"
    using assms by (intro run_count_total) (simp add: get_view)
  then show ?thesis by (simp only: length_filter_upt)
qed

end

section \<open>Pools of contiguous frames\<close>

text \<open>
  A client of a pool takes runs and gives back runs it owns, in any order. \<open>serve\<close> executes
  such a sequence of requests against the operations of a pool, and keeps the runs the client
  owns as pairs of first frame and length.
\<close>

datatype request = Take nat | Give nat nat

fun serve :: "('s \<Rightarrow> nat \<Rightarrow> ('s \<times> ('e + nat)) run) \<Rightarrow>
    ('s \<Rightarrow> nat \<Rightarrow> nat \<Rightarrow> ('s \<times> ('e + unit)) run) \<Rightarrow>
    request list \<Rightarrow> 's \<times> (nat \<times> nat) list \<Rightarrow> ('s \<times> (nat \<times> nat) list) run" where
  "serve alloc dealloc [] (s, owned) = Ret (s, owned)"
| "serve alloc dealloc (Take n # reqs) (s, owned) =
     do { (s', r) \<leftarrow> alloc s n;
          serve alloc dealloc reqs
            (s', case r of Inr f \<Rightarrow> (f, n) # owned | Inl _ \<Rightarrow> owned) }"
| "serve alloc dealloc (Give f n # reqs) (s, owned) =
     (if (f, n) \<in> set owned
      then do { (s', r) \<leftarrow> dealloc s f n;
                serve alloc dealloc reqs
                  (s', case r of Inr _ \<Rightarrow> remove1 (f, n) owned | Inl _ \<Rightarrow> owned) }
      else serve alloc dealloc reqs (s, owned))"

definition frames_of :: "nat \<times> nat \<Rightarrow> nat set" where
  "frames_of run = {fst run..<fst run + snd run}"

text \<open>The runs of a list start at frame numbers, are non-empty, pairwise disjoint and disjoint from a set of frames.\<close>

primrec separate :: "(nat \<times> nat) list \<Rightarrow> nat set \<Rightarrow> bool" where
  "separate [] F = True"
| "separate (x # xs) F \<longleftrightarrow> u64_ok (fst x) \<and> 0 < snd x \<and> frames_of x \<inter> F = {} \<and> separate xs (F \<union> frames_of x)"

primrec all_frames :: "(nat \<times> nat) list \<Rightarrow> nat set" where
  "all_frames [] = {}"
| "all_frames (x # xs) = frames_of x \<union> all_frames xs"

lemma separate_iff:
  "separate xs F \<longleftrightarrow> (\<forall>x \<in> set xs. u64_ok (fst x) \<and> 0 < snd x) \<and> all_frames xs \<inter> F = {} \<and>
     sorted_wrt (\<lambda>x y. frames_of x \<inter> frames_of y = {}) xs"
proof (induction xs arbitrary: F)
  case (Cons x xs)
  have "all_frames xs = \<Union> (frames_of ` set xs)" by (induction xs) auto
  then show ?case unfolding separate.simps Cons.IH by auto
qed simp

lemma all_frames_remove1:
  "x \<in> set xs \<Longrightarrow> all_frames xs = frames_of x \<union> all_frames (remove1 x xs)"
  by (induction xs) auto

lemma separate_remove1:
  "x \<in> set xs \<Longrightarrow> separate xs F \<Longrightarrow>
     frames_of x \<inter> F = {} \<and> u64_ok (fst x) \<and> separate (remove1 x xs) (F \<union> frames_of x)"
proof (induction xs arbitrary: F)
  case (Cons y ys)
  show ?case
  proof (cases "x = y")
    case True
    with Cons.prems show ?thesis by simp
  next
    case False
    with Cons have "frames_of x \<inter> (F \<union> frames_of y) = {}" "u64_ok (fst x)"
        "separate (remove1 x ys) (F \<union> frames_of y \<union> frames_of x)"
      by auto
    moreover have "F \<union> frames_of y \<union> frames_of x = F \<union> frames_of x \<union> frames_of y" by auto
    ultimately show ?thesis using False Cons.prems by auto
  qed
qed simp

locale frame_pool =
  fixes inv :: "'s \<Rightarrow> bool"
    and free_set :: "'s \<Rightarrow> nat set"
    and alloc :: "'s \<Rightarrow> nat \<Rightarrow> ('s \<times> ('e + nat)) run"
    and dealloc :: "'s \<Rightarrow> nat \<Rightarrow> nat \<Rightarrow> ('s \<times> ('e + unit)) run"
  assumes alloc_ok: "inv s \<Longrightarrow>
      (\<exists>s' f. alloc s n = Ret (s', Inr f) \<and> inv s' \<and> u64_ok f \<and> 0 < n \<and> {f..<f + n} \<subseteq> free_set s \<and>
         free_set s' = free_set s - {f..<f + n}) \<or>
      (\<exists>e. alloc s n = Ret (s, Inl e) \<and> (0 < n \<longrightarrow> (\<nexists>f. {f..<f + n} \<subseteq> free_set s)))"
    and dealloc_ok: "inv s \<Longrightarrow> u64_ok f \<Longrightarrow>
      (\<exists>s'. dealloc s f n = Ret (s', Inr ()) \<and> inv s' \<and> {f..<f + n} \<inter> free_set s = {} \<and>
         free_set s' = free_set s \<union> {f..<f + n}) \<or>
      (\<exists>e. dealloc s f n = Ret (s, Inl e))"
begin

lemma alloc_returns: "inv s \<Longrightarrow> alloc s n \<noteq> Panic"
  using alloc_ok [of s n] by auto

lemma alloc_complete:
  assumes "inv s" "{f..<f + n} \<subseteq> free_set s" "0 < n"
  shows "\<exists>s' g. alloc s n = Ret (s', Inr g)"
  using alloc_ok [of s n] assms by blast

text \<open>Whatever the client asks for, no frame is owned twice and none is lost or invented.\<close>

lemma serve_conserves:
  assumes "inv s" "separate owned (free_set s)"
  shows "\<exists>s' owned'. serve alloc dealloc reqs (s, owned) = Ret (s', owned') \<and> inv s' \<and>
    separate owned' (free_set s') \<and>
    free_set s' \<union> all_frames owned' = free_set s \<union> all_frames owned"
  using assms
proof (induction reqs arbitrary: s owned)
  case (Cons r reqs)
  show ?case
  proof (cases r)
    case (Take n)
    from alloc_ok [OF Cons.prems(1), of n] show ?thesis
    proof (elim disjE exE conjE)
      fix s' f
      assume a: "alloc s n = Ret (s', Inr f)" "inv s'" "0 < n" "{f..<f + n} \<subseteq> free_set s"
        "free_set s' = free_set s - {f..<f + n}" "u64_ok f"
      have eq: "free_set s' \<union> frames_of (f, n) = free_set s"
        using a(4,5) by (auto simp: frames_of_def)
      moreover have "frames_of (f, n) \<inter> free_set s' = {}" using a(5) by (auto simp: frames_of_def)
      ultimately have sep: "separate ((f, n) # owned) (free_set s')"
        using Cons.prems(2) a(3,6) by simp
      from Cons.IH [OF a(2) sep] eq show ?thesis
        using Take a(1) by (auto simp: Un_ac)
    next
      fix e assume "alloc s n = Ret (s, Inl e)"
      with Cons.IH [OF Cons.prems] Take show ?thesis by simp
    qed
  next
    case (Give f n)
    show ?thesis
    proof (cases "(f, n) \<in> set owned")
      case True
      note rem = all_frames_remove1 [OF True] separate_remove1 [OF True Cons.prems(2)]
      have "u64_ok f" using rem by simp
      from dealloc_ok [OF Cons.prems(1) this, of n] show ?thesis
      proof (elim disjE exE conjE)
        fix s' assume d: "dealloc s f n = Ret (s', Inr ())" "inv s'"
          "free_set s' = free_set s \<union> {f..<f + n}"
        have eq: "free_set s' = free_set s \<union> frames_of (f, n)"
          using d(3) by (simp add: frames_of_def)
        have "separate (remove1 (f, n) owned) (free_set s')"
          using rem eq by simp
        from Cons.IH [OF d(2) this] show ?thesis
          using Give True d(1) eq rem(1) by (auto simp: Un_ac)
      next
        fix e assume "dealloc s f n = Ret (s, Inl e)"
        with Cons.IH [OF Cons.prems] Give True show ?thesis by simp
      qed
    next
      case False
      with Cons.IH [OF Cons.prems] Give show ?thesis by simp
    qed
  qed
qed simp

end

end
