(* ===== verification/Frame_Allocator.thy ===== *)
theory Frame_Allocator
  imports Boot_Protocol Pool_Spec
begin

text \<open>
  The bitmap frame allocator, \<^verbatim>\<open>src/kernel/loko-memory/src/lib.rs\<close>. The bitmap is a
  list of 64-bit words; frame numbers and counts are \<open>nat\<close> values below \<open>2 ^ 64\<close> with
  every checked operation of the source written out. An operation on \<^verbatim>\<open>&mut self\<close>
  returns the allocator as it is left behind together with its \<^verbatim>\<open>Result\<close>, also when
  that result is an error. The theory interprets the interfaces \<open>bit_array\<close> and
  \<open>frame_pool\<close> on these definitions.
\<close>

section \<open>Frames and the allocator's state\<close>

definition FRAME_SIZE :: nat where
  "FRAME_SIZE = 4096"

definition frame_containing :: "nat \<Rightarrow> nat" where
  "frame_containing address = address div FRAME_SIZE"

definition start_address :: "nat \<Rightarrow> nat run" where
  "start_address frame = mul64 frame FRAME_SIZE"

datatype MemoryError = OutOfMemory | OutOfRange | NotAllocated | BitmapTooSmall

record FrameAllocator =
  fa_bitmap :: "64 word list"
  fa_base :: nat
  fa_frames :: nat
  fa_allocated :: nat
  fa_cursor :: nat

definition bitmap_words_for :: "nat \<Rightarrow> nat" where
  "bitmap_words_for frames = div_ceil64 frames 64"

definition fa_new :: "64 word list \<Rightarrow> nat \<Rightarrow> nat \<Rightarrow> MemoryError + FrameAllocator" where
  "fa_new bitmap base frames =
     (if length bitmap < bitmap_words_for frames then Inl BitmapTooSmall
      else Inr \<lparr>fa_bitmap = map (\<lambda>_. - 1) bitmap, fa_base = base, fa_frames = frames,
                fa_allocated = frames, fa_cursor = 0\<rparr>)"

section \<open>Single bits and single frames\<close>

definition index_of :: "FrameAllocator \<Rightarrow> nat \<Rightarrow> nat option" where
  "index_of a frame =
     (if frame < fa_base a then None
      else let index = frame - fa_base a in
        if index \<ge> fa_frames a then None else Some index)"

definition fa_get :: "FrameAllocator \<Rightarrow> nat \<Rightarrow> bool run" where
  "fa_get a index =
     (if index div 64 < length (fa_bitmap a)
      then Ret (fa_bitmap a ! (index div 64) AND push_bit (index mod 64) 1 \<noteq> 0)
      else Panic)"

definition fa_set :: "FrameAllocator \<Rightarrow> nat \<Rightarrow> bool \<Rightarrow> FrameAllocator run" where
  "fa_set a index allocated =
     (if index div 64 < length (fa_bitmap a)
      then let word = fa_bitmap a ! (index div 64);
               mask = push_bit (index mod 64) 1
           in Ret (a\<lparr>fa_bitmap := (fa_bitmap a)[index div 64 :=
                      (if allocated then word OR mask else word AND NOT mask)]\<rparr>)
      else Panic)"

definition release :: "FrameAllocator \<Rightarrow> nat \<Rightarrow> (FrameAllocator \<times> (MemoryError + unit)) run" where
  "release a frame =
     (case index_of a frame of
        None \<Rightarrow> Ret (a, Inl OutOfRange)
      | Some index \<Rightarrow> do {
          b \<leftarrow> fa_get a index;
          if b then do {
            a' \<leftarrow> fa_set a index False;
            n \<leftarrow> sub64 (fa_allocated a') 1;
            Ret (a'\<lparr>fa_allocated := n\<rparr>, Inr ())
          } else Ret (a, Inr ())
        })"

definition reserve :: "FrameAllocator \<Rightarrow> nat \<Rightarrow> (FrameAllocator \<times> (MemoryError + unit)) run" where
  "reserve a frame =
     (case index_of a frame of
        None \<Rightarrow> Ret (a, Inl OutOfRange)
      | Some index \<Rightarrow> do {
          b \<leftarrow> fa_get a index;
          if \<not> b then do {
            a' \<leftarrow> fa_set a index True;
            n \<leftarrow> add64 (fa_allocated a') 1;
            Ret (a'\<lparr>fa_allocated := n\<rparr>, Inr ())
          } else Ret (a, Inr ())
        })"

definition reserve_range :: "FrameAllocator \<Rightarrow> nat \<Rightarrow> nat \<Rightarrow> FrameAllocator run" where
  "reserve_range a start len =
     (if len = 0 then Ret a
      else do {
        len1 \<leftarrow> sub64 len 1;
        let first = frame_containing start;
        let last = frame_containing (saturating_add64 start len1);
        run_for (\<lambda>f a. do { (a', _) \<leftarrow> reserve a f; Ret a' }) [first..<Suc last] a
      })"

section \<open>Building an allocator from a memory map\<close>

definition release_region :: "MemoryRegion \<Rightarrow> FrameAllocator \<Rightarrow> FrameAllocator run" where
  "release_region region a =
     (let first = frame_containing (mr_start region);
          count = mr_len region div FRAME_SIZE
      in run_for (\<lambda>i a. do { f \<leftarrow> add64 first i; (a', _) \<leftarrow> release a f; Ret a' }) [0..<count] a)"

definition from_memory_map ::
    "64 word list \<Rightarrow> MemoryRegion list \<Rightarrow> (MemoryError + FrameAllocator) run" where
  "from_memory_map bitmap regions =
     (let highest = foldr max (map region_end regions) 0;
          describable = saturating_mul64 (length bitmap) 64;
          frames = min (highest div FRAME_SIZE) describable
      in case fa_new bitmap 0 frames of
           Inl e \<Rightarrow> Ret (Inl e)
         | Inr a \<Rightarrow> do {
             a' \<leftarrow> run_for release_region (filter (\<lambda>r. usable_at_handoff (mr_kind r)) regions) a;
             Ret (Inr a')
           })"

section \<open>Contiguous allocation\<close>

definition first_allocated_in :: "FrameAllocator \<Rightarrow> nat \<Rightarrow> nat \<Rightarrow> nat option run" where
  "first_allocated_in a from to = run_find (fa_get a) [from..<to]"

lemma first_allocated_in_range:
  "first_allocated_in a from to = Ret (Some b) \<Longrightarrow> from \<le> b \<and> b < to"
  by (auto simp: first_allocated_in_def dest: run_find_Some_in)

text \<open>
  The \<^verbatim>\<open>while index + count <= limit\<close> loop of \<^verbatim>\<open>allocate_contiguous\<close>: it
  ends with the index of a clear window or past the limit.
\<close>

function scan_window :: "FrameAllocator \<Rightarrow> nat \<Rightarrow> nat \<Rightarrow> nat option run" where
  "scan_window a count index =
     (case add64 index count of
        Panic \<Rightarrow> Panic
      | Ret end_index \<Rightarrow>
          if end_index \<le> fa_frames a
          then (case first_allocated_in a index end_index of
                  Panic \<Rightarrow> Panic
                | Ret None \<Rightarrow> Ret (Some index)
                | Ret (Some blocker) \<Rightarrow>
                    (case add64 blocker 1 of
                       Panic \<Rightarrow> Panic
                     | Ret index' \<Rightarrow> scan_window a count index'))
          else Ret None)"
  by pat_completeness auto
termination
  by (relation "measure (\<lambda>(a, count, index). fa_frames a - index)")
    (auto dest!: first_allocated_in_range)

declare scan_window.simps [simp del]

definition take_window ::
    "FrameAllocator \<Rightarrow> nat \<Rightarrow> nat \<Rightarrow> (FrameAllocator \<times> (MemoryError + nat)) run" where
  "take_window a index count = do {
     end_index \<leftarrow> add64 index count;
     a' \<leftarrow> run_for (\<lambda>i a. fa_set a i True) [index..<end_index] a;
     n \<leftarrow> add64 (fa_allocated a') count;
     frame \<leftarrow> add64 (fa_base a') index;
     Ret (a'\<lparr>fa_allocated := n, fa_cursor := end_index\<rparr>, Inr frame)
   }"

primrec allocate_from ::
    "FrameAllocator \<Rightarrow> nat \<Rightarrow> nat list \<Rightarrow> (FrameAllocator \<times> (MemoryError + nat)) run" where
  "allocate_from a count [] = Ret (a, Inl OutOfMemory)"
| "allocate_from a count (start # starts) = do {
     found \<leftarrow> scan_window a count start;
     case found of
       Some index \<Rightarrow> take_window a index count
     | None \<Rightarrow> allocate_from a count starts
   }"

definition allocate_contiguous ::
    "FrameAllocator \<Rightarrow> nat \<Rightarrow> (FrameAllocator \<times> (MemoryError + nat)) run" where
  "allocate_contiguous a count =
     (if count = 0 \<or> count > fa_frames a then Ret (a, Inl OutOfMemory)
      else allocate_from a count [fa_cursor a, 0])"

definition allocate :: "FrameAllocator \<Rightarrow> (FrameAllocator \<times> (MemoryError + nat)) run" where
  "allocate a = allocate_contiguous a 1"

section \<open>Freeing\<close>

definition fa_free :: "FrameAllocator \<Rightarrow> nat \<Rightarrow> (FrameAllocator \<times> (MemoryError + unit)) run" where
  "fa_free a frame =
     (case index_of a frame of
        None \<Rightarrow> Ret (a, Inl OutOfRange)
      | Some index \<Rightarrow> do {
          b \<leftarrow> fa_get a index;
          if \<not> b then Ret (a, Inl NotAllocated)
          else do {
            a' \<leftarrow> fa_set a index False;
            n \<leftarrow> sub64 (fa_allocated a') 1;
            let a'' = a'\<lparr>fa_allocated := n\<rparr>;
            Ret (if index < fa_cursor a'' then a''\<lparr>fa_cursor := index\<rparr> else a'', Inr ())
          }
        })"

text \<open>The validating loop of \<^verbatim>\<open>free_contiguous\<close>, then the loop that frees.\<close>

fun check_allocated :: "FrameAllocator \<Rightarrow> nat \<Rightarrow> nat list \<Rightarrow> (MemoryError + unit) run" where
  "check_allocated a frame [] = Ret (Inr ())"
| "check_allocated a frame (i # is) = do {
     f \<leftarrow> add64 frame i;
     case index_of a f of
       None \<Rightarrow> Ret (Inl OutOfRange)
     | Some index \<Rightarrow> do {
         b \<leftarrow> fa_get a index;
         if \<not> b then Ret (Inl NotAllocated) else check_allocated a frame is
       }
   }"

fun free_each ::
    "FrameAllocator \<Rightarrow> nat \<Rightarrow> nat list \<Rightarrow> (FrameAllocator \<times> (MemoryError + unit)) run" where
  "free_each a frame [] = Ret (a, Inr ())"
| "free_each a frame (i # is) = do {
     f \<leftarrow> add64 frame i;
     (a', r) \<leftarrow> fa_free a f;
     case r of Inl e \<Rightarrow> Ret (a', Inl e) | Inr _ \<Rightarrow> free_each a' frame is
   }"

definition free_contiguous ::
    "FrameAllocator \<Rightarrow> nat \<Rightarrow> nat \<Rightarrow> (FrameAllocator \<times> (MemoryError + unit)) run" where
  "free_contiguous a frame count = do {
     checked \<leftarrow> check_allocated a frame [0..<count];
     case checked of
       Inl e \<Rightarrow> Ret (a, Inl e)
     | Inr _ \<Rightarrow> free_each a frame [0..<count]
   }"

section \<open>Queries\<close>

definition is_allocated :: "FrameAllocator \<Rightarrow> nat \<Rightarrow> bool option run" where
  "is_allocated a frame =
     (case index_of a frame of
        None \<Rightarrow> Ret None
      | Some i \<Rightarrow> do { b \<leftarrow> fa_get a i; Ret (Some b) })"

definition total_frames :: "FrameAllocator \<Rightarrow> nat" where
  "total_frames a = fa_frames a"

definition allocated_frames :: "FrameAllocator \<Rightarrow> nat" where
  "allocated_frames a = fa_allocated a"

definition free_frames :: "FrameAllocator \<Rightarrow> nat run" where
  "free_frames a = sub64 (fa_frames a) (fa_allocated a)"

definition free_bytes :: "FrameAllocator \<Rightarrow> nat run" where
  "free_bytes a = do { n \<leftarrow> free_frames a; mul64 n FRAME_SIZE }"

definition audit :: "FrameAllocator \<Rightarrow> bool run" where
  "audit a = do {
     counted \<leftarrow> run_count (fa_get a) [0..<fa_frames a];
     Ret (counted = fa_allocated a)
   }"

section \<open>The abstract view and the invariant\<close>

definition fa_bit :: "FrameAllocator \<Rightarrow> nat \<Rightarrow> bool" where
  "fa_bit a i = bit (fa_bitmap a ! (i div 64)) (i mod 64)"

definition fa_rest :: "FrameAllocator \<Rightarrow> nat \<times> nat \<times> nat \<times> nat" where
  "fa_rest a = (fa_base a, fa_frames a, fa_allocated a, fa_cursor a)"

definition fa_capacity :: "FrameAllocator \<Rightarrow> nat" where
  "fa_capacity a = 64 * length (fa_bitmap a)"

text \<open>
  The invariant: the bitmap covers the managed frames, the frame numbers and twice the frame
  count stay below \<open>2 ^ 64\<close> (so that no index computation can overflow), the cursor is in
  range, and the running total is the number of set bits.
\<close>

definition fa_inv :: "FrameAllocator \<Rightarrow> bool" where
  "fa_inv a \<longleftrightarrow> fa_frames a \<le> fa_capacity a \<and> fa_base a + 2 * fa_frames a < 2 ^ 64 \<and>
     fa_cursor a \<le> fa_frames a \<and>
     fa_allocated a = card {i. i < fa_frames a \<and> fa_bit a i}"

definition free_set :: "FrameAllocator \<Rightarrow> nat set" where
  "free_set a = {fa_base a + i | i. i < fa_frames a \<and> \<not> fa_bit a i}"

definition managed :: "FrameAllocator \<Rightarrow> nat set" where
  "managed a = {fa_base a..<fa_base a + fa_frames a}"

section \<open>The bitmap is a bit array\<close>

lemma fa_view_simps [simp]:
  "fa_bit (a\<lparr>fa_allocated := n\<rparr>) = fa_bit a" "fa_bit (a\<lparr>fa_cursor := c\<rparr>) = fa_bit a"
  "fa_capacity (a\<lparr>fa_allocated := n\<rparr>) = fa_capacity a"
  "fa_capacity (a\<lparr>fa_cursor := c\<rparr>) = fa_capacity a"
  "free_set (a\<lparr>fa_allocated := n\<rparr>) = free_set a" "free_set (a\<lparr>fa_cursor := c\<rparr>) = free_set a"
  "managed (a\<lparr>fa_allocated := n\<rparr>) = managed a" "managed (a\<lparr>fa_cursor := c\<rparr>) = managed a"
  by (simp_all add: fa_bit_def fun_eq_iff fa_capacity_def free_set_def managed_def)

lemma fa_set_view:
  assumes "i < fa_capacity a"
  shows "\<exists>a'. fa_set a i b = Ret a' \<and> fa_bit a' = (fa_bit a)(i := b) \<and>
    fa_capacity a' = fa_capacity a \<and> fa_rest a' = fa_rest a"
proof -
  have len: "i div 64 < length (fa_bitmap a)"
    using assms by (simp add: fa_capacity_def div_less_iff_less_mult mult.commute)
  let ?w = "fa_bitmap a ! (i div 64)" and ?m = "push_bit (i mod 64) (1 :: 64 word)"
  let ?w' = "if b then ?w OR ?m else ?w AND NOT ?m"
  let ?a = "a\<lparr>fa_bitmap := (fa_bitmap a)[i div 64 := ?w']\<rparr>"
  have bits: "bit ?w' n \<longleftrightarrow> (if n = i mod 64 then b else bit ?w n)" if "n < 64" for n
    using that by (auto simp: bit_simps)
  have "fa_bit ?a k = ((fa_bit a)(i := b)) k" for k
  proof (cases "k div 64 = i div 64")
    case True
    moreover have "k mod 64 = i mod 64 \<longleftrightarrow> k = i"
      using True by (metis div_mult_mod_eq)
    ultimately show ?thesis using len bits [of "k mod 64"] by (simp add: fa_bit_def)
  next
    case False
    then show ?thesis by (auto simp: fa_bit_def)
  qed
  then have "fa_bit ?a = (fa_bit a)(i := b)" by blast
  moreover have "fa_set a i b = Ret ?a" using len by (simp add: fa_set_def Let_def)
  ultimately show ?thesis by (auto simp: fa_capacity_def fa_rest_def)
qed

interpretation bits: bit_array fa_get fa_set fa_bit fa_capacity fa_rest
proof unfold_locales
  fix i :: nat and s :: FrameAllocator
  assume "i < fa_capacity s"
  then have "i div 64 < length (fa_bitmap s)"
    by (simp add: fa_capacity_def div_less_iff_less_mult mult.commute)
  then show "fa_get s i = Ret (fa_bit s i)"
    by (simp add: fa_get_def fa_bit_def word_and_single_bit del: push_bit_of_1)
qed (rule fa_set_view)

lemma fa_restD:
  assumes "fa_rest a' = fa_rest a"
  shows "fa_base a' = fa_base a" "fa_frames a' = fa_frames a" "fa_allocated a' = fa_allocated a"
    "fa_cursor a' = fa_cursor a"
  using assms by (simp_all add: fa_rest_def)

lemma index_of_eq:
  "index_of a f = (if f \<in> managed a then Some (f - fa_base a) else None)"
  by (auto simp: index_of_def managed_def Let_def)

lemma fa_get_inv: "fa_inv a \<Longrightarrow> i < fa_frames a \<Longrightarrow> fa_get a i = Ret (fa_bit a i)"
  by (rule bits.get_view) (simp add: fa_inv_def)

lemma mem_free_set:
  "f \<in> free_set a \<longleftrightarrow> f \<in> managed a \<and> \<not> fa_bit a (f - fa_base a)"
  by (auto simp: free_set_def managed_def intro: exI [of _ "f - fa_base a"])

lemma free_set_managed: "free_set a \<subseteq> managed a"
  by (auto simp: mem_free_set)

lemma finite_managed [simp]: "finite (managed a)"
  by (simp add: managed_def)

section \<open>One bit, one frame\<close>

text \<open>Flipping one bit and adjusting the total keeps the invariant.\<close>

lemma flip_bit:
  assumes inv: "fa_inv a" and i: "i < fa_frames a" and flip: "fa_bit a i \<noteq> b"
  defines "n \<equiv> if b then fa_allocated a + 1 else fa_allocated a - 1"
  shows "\<exists>a'. fa_set a i b = Ret a' \<and> fa_rest a' = fa_rest a \<and>
    fa_inv (a'\<lparr>fa_allocated := n\<rparr>) \<and>
    free_set a' = (if b then free_set a - {fa_base a + i} else insert (fa_base a + i) (free_set a)) \<and>
    n < 2 ^ 64 \<and> (b \<or> 0 < fa_allocated a)"
proof -
  have cap: "i < fa_capacity a" using inv i by (simp add: fa_inv_def)
  obtain a' where a': "fa_set a i b = Ret a'" "fa_bit a' = (fa_bit a)(i := b)"
      "fa_capacity a' = fa_capacity a" "fa_rest a' = fa_rest a"
    using fa_set_view [OF cap] by blast
  note rest = fa_restD [OF a'(4)]
  have al: "fa_allocated a = card {k. k < fa_frames a \<and> fa_bit a k}"
    using inv by (simp add: fa_inv_def)
  have n: "n = card {k. k < fa_frames a \<and> fa_bit a' k}"
  proof (cases b)
    case True
    with card_upd_True [OF i, of "fa_bit a"] flip a'(2) al show ?thesis by (simp add: n_def)
  next
    case False
    with card_upd_False(1) [OF i, of "fa_bit a"] flip a'(2) al show ?thesis by (simp add: n_def)
  qed
  have "n \<le> card {..<fa_frames a}" unfolding n by (rule card_mono) auto
  then have "n < 2 ^ 64" using inv by (simp add: fa_inv_def)
  moreover have "b \<or> 0 < fa_allocated a"
    using card_upd_False(2) [OF i, of "fa_bit a"] flip al by auto
  moreover have "fa_inv (a'\<lparr>fa_allocated := n\<rparr>)"
    using inv n a'(3) rest by (simp add: fa_inv_def)
  moreover have "free_set a' =
      (if b then free_set a - {fa_base a + i} else insert (fa_base a + i) (free_set a))"
    using i rest a'(2) by (auto simp: free_set_def)
  ultimately show ?thesis using a' by blast
qed

lemma release_managed:
  assumes "fa_inv a" "f \<in> managed a"
  shows "\<exists>a'. release a f = Ret (a', Inr ()) \<and> fa_inv a' \<and>
    free_set a' = insert f (free_set a) \<and> managed a' = managed a"
proof -
  let ?i = "f - fa_base a"
  have i: "?i < fa_frames a" "fa_base a + ?i = f" using assms(2) by (auto simp: managed_def)
  have get: "fa_get a ?i = Ret (fa_bit a ?i)" by (rule fa_get_inv [OF assms(1) i(1)])
  show ?thesis
  proof (cases "fa_bit a ?i")
    case True
    with flip_bit [OF assms(1) i(1), of False] obtain a' where
        a': "fa_set a ?i False = Ret a'" "fa_rest a' = fa_rest a"
        "fa_inv (a'\<lparr>fa_allocated := fa_allocated a - 1\<rparr>)"
        "free_set a' = insert f (free_set a)" "0 < fa_allocated a"
      using i(2) by auto
    then have "release a f = Ret (a'\<lparr>fa_allocated := fa_allocated a - 1\<rparr>, Inr ())"
      using True get assms(2) fa_restD [OF a'(2)]
      by (simp add: release_def index_of_eq run_simps)
    then show ?thesis using a' fa_restD [OF a'(2)] by (simp add: managed_def)
  next
    case False
    then have "f \<in> free_set a" using assms(2) by (simp add: mem_free_set)
    then show ?thesis using False get assms
      by (auto simp: release_def index_of_eq insert_absorb)
  qed
qed

lemma reserve_managed:
  assumes "fa_inv a" "f \<in> managed a"
  shows "\<exists>a'. reserve a f = Ret (a', Inr ()) \<and> fa_inv a' \<and>
    free_set a' = free_set a - {f} \<and> managed a' = managed a"
proof -
  let ?i = "f - fa_base a"
  have i: "?i < fa_frames a" "fa_base a + ?i = f" using assms(2) by (auto simp: managed_def)
  have get: "fa_get a ?i = Ret (fa_bit a ?i)" by (rule fa_get_inv [OF assms(1) i(1)])
  show ?thesis
  proof (cases "fa_bit a ?i")
    case False
    with flip_bit [OF assms(1) i(1), of True] obtain a' where
        a': "fa_set a ?i True = Ret a'" "fa_rest a' = fa_rest a"
        "fa_inv (a'\<lparr>fa_allocated := fa_allocated a + 1\<rparr>)"
        "free_set a' = free_set a - {f}" "fa_allocated a + 1 < 2 ^ 64"
      using i(2) by auto
    then have "reserve a f = Ret (a'\<lparr>fa_allocated := fa_allocated a + 1\<rparr>, Inr ())"
      using False get assms(2) fa_restD [OF a'(2)]
      by (simp add: reserve_def index_of_eq run_simps)
    then show ?thesis using a' fa_restD [OF a'(2)] by (simp add: managed_def)
  next
    case True
    then have "f \<notin> free_set a" by (simp add: mem_free_set)
    then show ?thesis using True get assms
      by (auto simp: reserve_def index_of_eq)
  qed
qed

lemma out_of_range:
  assumes "f \<notin> managed a"
  shows "release a f = Ret (a, Inl OutOfRange)" "reserve a f = Ret (a, Inl OutOfRange)"
    "fa_free a f = Ret (a, Inl OutOfRange)"
  using assms by (simp_all add: release_def reserve_def fa_free_def index_of_eq)

lemma fa_free_managed:
  assumes "fa_inv a" "f \<in> managed a"
  shows "f \<in> free_set a \<Longrightarrow> fa_free a f = Ret (a, Inl NotAllocated)"
    and "f \<notin> free_set a \<Longrightarrow> \<exists>a'. fa_free a f = Ret (a', Inr ()) \<and> fa_inv a' \<and>
      free_set a' = insert f (free_set a) \<and> managed a' = managed a"
proof -
  let ?i = "f - fa_base a"
  have i: "?i < fa_frames a" "fa_base a + ?i = f" using assms(2) by (auto simp: managed_def)
  have get: "fa_get a ?i = Ret (fa_bit a ?i)" by (rule fa_get_inv [OF assms(1) i(1)])
  show "f \<in> free_set a \<Longrightarrow> fa_free a f = Ret (a, Inl NotAllocated)"
    using get assms(2) by (simp add: fa_free_def index_of_eq mem_free_set)
  assume "f \<notin> free_set a"
  with assms(2) have bit: "fa_bit a ?i" by (simp add: mem_free_set)
  with flip_bit [OF assms(1) i(1), of False] obtain a' where
      a': "fa_set a ?i False = Ret a'" "fa_rest a' = fa_rest a"
      "fa_inv (a'\<lparr>fa_allocated := fa_allocated a - 1\<rparr>)"
      "free_set a' = insert f (free_set a)" "0 < fa_allocated a"
    using i(2) by auto
  let ?n = "fa_allocated a - 1"
  let ?r = "if ?i < fa_cursor a then a'\<lparr>fa_allocated := ?n, fa_cursor := ?i\<rparr>
    else a'\<lparr>fa_allocated := ?n\<rparr>"
  have "fa_inv ?r" using a'(3) i(1) fa_restD [OF a'(2)] by (simp add: fa_inv_def)
  moreover have "fa_free a f = Ret (?r, Inr ())"
    using a' bit get assms(2) fa_restD [OF a'(2)]
    by (simp add: fa_free_def index_of_eq run_simps Let_def)
  moreover have "managed ?r = managed a" using fa_restD [OF a'(2)] by (simp add: managed_def)
  moreover have "free_set ?r = insert f (free_set a)" using a'(4) by simp
  ultimately show "\<exists>a'. fa_free a f = Ret (a', Inr ()) \<and> fa_inv a' \<and>
      free_set a' = insert f (free_set a) \<and> managed a' = managed a" by blast
qed

section \<open>Loops over frames\<close>

lemma reserve_loop:
  assumes "fa_inv a"
  shows "\<exists>a'. run_for (\<lambda>f a. do { (a', _) \<leftarrow> reserve a f; Ret a' }) fs a = Ret a' \<and> fa_inv a' \<and>
    free_set a' = free_set a - set fs \<and> managed a' = managed a"
  using assms
proof (induction fs arbitrary: a)
  case (Cons f fs)
  obtain b where b: "do { (a', _) \<leftarrow> reserve a f; Ret a' } = Ret b" "fa_inv b"
      "free_set b = free_set a - {f}" "managed b = managed a"
  proof (cases "f \<in> managed a")
    case True
    from reserve_managed [OF Cons.prems this] that show ?thesis by fastforce
  next
    case False
    then have "free_set a - {f} = free_set a" using free_set_managed by fastforce
    with False Cons.prems that [of a] show ?thesis by (simp add: out_of_range)
  qed
  with Cons.IH [of b] show ?case by auto
qed simp

text \<open>The frames that hold some byte of \<open>[start, start + len)\<close>.\<close>

definition frames_touching :: "nat \<Rightarrow> nat \<Rightarrow> nat set" where
  "frames_touching start len =
     {frame_containing address | address. start \<le> address \<and> address < start + len \<and> address < 2 ^ 64}"

lemma frames_touching_range:
  assumes "0 < len" "start < 2 ^ 64"
  shows "frames_touching start len =
    {frame_containing start..frame_containing (saturating_add64 start (len - 1))}"
proof -
  let ?e = "saturating_add64 start (len - 1)"
  have e: "start \<le> ?e" "?e < start + len" "?e < 2 ^ 64"
    "\<And>x. x < start + len \<Longrightarrow> x < 2 ^ 64 \<Longrightarrow> x \<le> ?e"
    using assms by (auto simp: saturating_add64_def)
  show ?thesis
  proof (intro equalityI subsetI)
    fix f assume "f \<in> frames_touching start len"
    then show "f \<in> {frame_containing start..frame_containing ?e}"
      using e(4) by (auto simp: frames_touching_def frame_containing_def intro: div_le_mono)
  next
    fix f assume f: "f \<in> {frame_containing start..frame_containing ?e}"
    let ?x = "max start (f * FRAME_SIZE)"
    have "f * 4096 \<le> ?e" using f by (simp add: frame_containing_def FRAME_SIZE_def
      less_eq_div_iff_mult_less_eq)
    moreover have "f = ?x div 4096"
      using f by (auto simp: frame_containing_def FRAME_SIZE_def max_def
        intro: antisym [OF _ div_le_mono [of "f * 4096" start 4096, simplified]])
    ultimately show "f \<in> frames_touching start len"
      using e by (auto simp: frames_touching_def frame_containing_def FRAME_SIZE_def
        intro!: exI [of _ ?x])
  qed
qed

lemma reserve_range_ok:
  assumes "fa_inv a" "start < 2 ^ 64"
  shows "\<exists>a'. reserve_range a start len = Ret a' \<and> fa_inv a' \<and>
    free_set a' = free_set a - frames_touching start len \<and> managed a' = managed a"
proof (cases "len = 0")
  case True
  with assms show ?thesis by (auto simp: reserve_range_def frames_touching_def)
next
  case False
  let ?last = "frame_containing (saturating_add64 start (len - 1))"
  have set: "set [frame_containing start..<Suc ?last] = frames_touching start len"
    using False assms(2) by (auto simp: frames_touching_range)
  have eq: "reserve_range a start len =
      run_for (\<lambda>f a. do { (a', _) \<leftarrow> reserve a f; Ret a' }) [frame_containing start..<Suc ?last] a"
    using False by (simp add: reserve_range_def run_simps Let_def del: upt_Suc)
  show ?thesis
    using reserve_loop [OF assms(1), of "[frame_containing start..<Suc ?last]"]
    unfolding set eq .
qed

lemma release_loop:
  assumes "fa_inv a" "\<forall>i \<in> set is. first + i < 2 ^ 64"
  shows "\<exists>a'. run_for (\<lambda>i a. do { f \<leftarrow> add64 first i; (a', _) \<leftarrow> release a f; Ret a' }) is a = Ret a' \<and>
    fa_inv a' \<and> free_set a' = free_set a \<union> ((+) first ` set is \<inter> managed a) \<and>
    managed a' = managed a"
  using assms
proof (induction "is" arbitrary: a)
  case (Cons i "is")
  let ?f = "first + i"
  obtain b where b: "do { f \<leftarrow> add64 first i; (a', _) \<leftarrow> release a f; Ret a' } = Ret b" "fa_inv b"
      "free_set b = free_set a \<union> ({?f} \<inter> managed a)" "managed b = managed a"
  proof (cases "?f \<in> managed a")
    case True
    then obtain b where "release a ?f = Ret (b, Inr ())" "fa_inv b"
        "free_set b = insert ?f (free_set a)" "managed b = managed a"
      using release_managed [OF Cons.prems(1)] by blast
    with True Cons.prems(2) that [of b] show ?thesis by (simp add: add64_Ret)
  next
    case False
    with Cons.prems that [of a] show ?thesis by (simp add: out_of_range run_simps)
  qed
  with Cons.IH [of b] Cons.prems(2) show ?case by auto
qed simp

definition region_frames :: "MemoryRegion \<Rightarrow> nat set" where
  "region_frames r = {frame_containing (mr_start r)..<
     frame_containing (mr_start r) + mr_len r div FRAME_SIZE}"

lemma region_frames_iff:
  assumes "region_ok r"
  shows "f \<in> region_frames r \<longleftrightarrow> mr_start r \<le> f * 4096 \<and> f * 4096 + 4096 \<le> mr_start r + mr_len r"
proof -
  obtain s l where "mr_start r = s * 4096" "mr_len r = l * 4096"
    using assms by (auto simp: region_ok_def elim!: dvdE [OF mod_0_imp_dvd])
  moreover have "s * 4096 \<le> f * 4096 \<longleftrightarrow> s \<le> f" "f * 4096 + 4096 \<le> s * 4096 + l * 4096 \<longleftrightarrow> f < s + l"
    by auto
  ultimately show ?thesis by (simp add: region_frames_def frame_containing_def FRAME_SIZE_def)
qed

lemma release_region_ok:
  assumes "fa_inv a" "mr_start r < 2 ^ 64" "mr_len r < 2 ^ 64"
  shows "\<exists>a'. release_region r a = Ret a' \<and> fa_inv a' \<and>
    free_set a' = free_set a \<union> (region_frames r \<inter> managed a) \<and> managed a' = managed a"
proof -
  have "frame_containing (mr_start r) \<le> 2 ^ 52" "mr_len r div FRAME_SIZE \<le> 2 ^ 52"
    using assms by (auto simp: frame_containing_def FRAME_SIZE_def)
  then have "\<forall>i \<in> set [0..<mr_len r div FRAME_SIZE]. frame_containing (mr_start r) + i < 2 ^ 64"
    by auto
  moreover have "(+) (frame_containing (mr_start r)) ` set [0..<mr_len r div FRAME_SIZE] = region_frames r"
    by (auto simp: region_frames_def)
  ultimately show ?thesis
    using release_loop [OF assms(1)] unfolding release_region_def Let_def by metis
qed

lemma release_regions_ok:
  assumes "fa_inv a" "\<forall>r \<in> set rs. mr_start r < 2 ^ 64 \<and> mr_len r < 2 ^ 64"
  shows "\<exists>a'. run_for release_region rs a = Ret a' \<and> fa_inv a' \<and>
    free_set a' = free_set a \<union> ((\<Union>r \<in> set rs. region_frames r) \<inter> managed a) \<and>
    managed a' = managed a"
  using assms
proof (induction rs arbitrary: a)
  case (Cons r rs)
  then obtain b where b: "release_region r a = Ret b" "fa_inv b"
      "free_set b = free_set a \<union> (region_frames r \<inter> managed a)" "managed b = managed a"
    using release_region_ok [of a r] by auto
  with Cons.IH [of b] Cons.prems(2) show ?case by auto
qed simp

section \<open>Starting fully allocated, then releasing what is usable\<close>

lemma bitmap_words_for_le: "bitmap_words_for n \<le> k \<longleftrightarrow> n \<le> 64 * k"
proof -
  obtain q r where "n = 64 * q + r" "r < 64" "n div 64 = q" "n mod 64 = r"
    by (metis mod_less_divisor mult_div_mod_eq zero_less_numeral)
  then show ?thesis by (auto simp: bitmap_words_for_def div_ceil64_def)
qed

lemma fa_new_ok:
  assumes "fa_new bitmap base frames = Inr a" "base + 2 * frames < 2 ^ 64"
  shows "fa_inv a" "free_set a = {}" "managed a = {base..<base + frames}"
proof -
  from assms(1) have len: "bitmap_words_for frames \<le> length bitmap"
    and a: "a = \<lparr>fa_bitmap = map (\<lambda>_. - 1) bitmap, fa_base = base, fa_frames = frames,
      fa_allocated = frames, fa_cursor = 0\<rparr>"
    by (auto simp: fa_new_def split: if_splits)
  have cap: "frames \<le> 64 * length bitmap"
    using len by (simp add: bitmap_words_for_le)
  then have bits: "fa_bit a i" if "i < frames" for i
    using that by (simp add: a fa_bit_def bit_simps)
  then have "{i. i < frames \<and> fa_bit a i} = {..<frames}" by auto
  then show "fa_inv a" using assms(2) cap by (simp add: a fa_inv_def fa_capacity_def)
  show "free_set a = {}" using bits by (auto simp: free_set_def a)
  show "managed a = {base..<base + frames}" by (simp add: managed_def a)
qed

lemma from_memory_map_ok:
  assumes "\<forall>r \<in> set regions. mr_start r < 2 ^ 64 \<and> mr_len r < 2 ^ 64"
  shows "\<exists>a. from_memory_map bitmap regions = Ret (Inr a) \<and> fa_inv a \<and>
    managed a = {..<min (foldr max (map region_end regions) 0 div FRAME_SIZE)
                       (saturating_mul64 (length bitmap) 64)} \<and>
    free_set a = managed a \<inter> (\<Union>r \<in> {r \<in> set regions. mr_kind r = Usable}. region_frames r)"
proof -
  let ?h = "foldr max (map region_end regions) 0"
  let ?frames = "min (?h div FRAME_SIZE) (saturating_mul64 (length bitmap) 64)"
  have "?h < 2 ^ 64"
    by (induction regions) (auto simp: region_end_def saturating_add64_def)
  then have small: "?frames < 2 ^ 52" by (auto simp: FRAME_SIZE_def min_def)
  have "?frames \<le> 64 * length bitmap" by (auto simp: saturating_mul64_def min_def)
  then have "bitmap_words_for ?frames \<le> length bitmap"
    by (simp only: bitmap_words_for_le)
  then obtain a0 where a0: "fa_new bitmap 0 ?frames = Inr a0"
    by (auto simp: fa_new_def)
  have inv0: "fa_inv a0" "free_set a0 = {}" "managed a0 = {..<?frames}"
    using fa_new_ok [OF a0] small by (auto simp: lessThan_atLeast0)
  let ?us = "filter (\<lambda>r. mr_kind r = Usable) regions"
  obtain a where a: "run_for release_region ?us a0 = Ret a" "fa_inv a"
      "free_set a = free_set a0 \<union> ((\<Union>r \<in> set ?us. region_frames r) \<inter> managed a0)"
      "managed a = managed a0"
    using release_regions_ok [OF inv0(1), of ?us] assms by auto
  have "from_memory_map bitmap regions = Ret (Inr a)"
    using a0 a(1) by (simp add: from_memory_map_def Let_def)
  then show ?thesis using a inv0 by (auto simp: Int_commute)
qed

text \<open>On a validated map the regions are whole frames, which gives the free frames by their addresses.\<close>

lemma from_memory_map_validated:
  assumes "validate_memory_map regions = Inr ()"
  shows "\<exists>a. from_memory_map bitmap regions = Ret (Inr a) \<and> fa_inv a \<and>
    managed a = {..<min (foldr max (map region_end regions) 0 div FRAME_SIZE)
                       (saturating_mul64 (length bitmap) 64)} \<and>
    (\<forall>f. f \<in> free_set a \<longleftrightarrow> f \<in> managed a \<and>
      (\<exists>r \<in> set regions. mr_kind r = Usable \<and>
         mr_start r \<le> f * 4096 \<and> f * 4096 + 4096 \<le> mr_start r + mr_len r))"
proof -
  have ok: "\<forall>r \<in> set regions. region_ok r"
    using assms by (simp add: validate_memory_map_iff memory_map_spec_def)
  then have "\<forall>r \<in> set regions. mr_start r < 2 ^ 64 \<and> mr_len r < 2 ^ 64"
    by (auto simp: region_ok_def)
  from from_memory_map_ok [OF this, of bitmap] obtain a where
      a: "from_memory_map bitmap regions = Ret (Inr a)" "fa_inv a"
      "managed a = {..<min (foldr max (map region_end regions) 0 div FRAME_SIZE)
                       (saturating_mul64 (length bitmap) 64)}"
      "free_set a = managed a \<inter> (\<Union>r \<in> {r \<in> set regions. mr_kind r = Usable}. region_frames r)"
    by blast
  have "f \<in> region_frames r \<longleftrightarrow> mr_start r \<le> f * 4096 \<and> f * 4096 + 4096 \<le> mr_start r + mr_len r"
    if "r \<in> set regions" for f r
    using ok that by (intro region_frames_iff) auto
  then have "\<forall>f. f \<in> free_set a \<longleftrightarrow> f \<in> managed a \<and> (\<exists>r \<in> set regions. mr_kind r = Usable \<and>
         mr_start r \<le> f * 4096 \<and> f * 4096 + 4096 \<le> mr_start r + mr_len r)"
    unfolding a(4) by blast
  with a(1-3) show ?thesis by blast
qed

lemma total_frames_card: "total_frames a = card (managed a)"
  by (simp add: total_frames_def managed_def)

section \<open>The window search\<close>

lemma scan_window_correct:
  assumes inv: "fa_inv a" and count: "0 < count" "count \<le> fa_frames a" and "index \<le> fa_frames a"
  shows "\<exists>r. scan_window a count index = Ret r \<and>
    (\<forall>k. r = Some k \<longrightarrow>
       k + count \<le> fa_frames a \<and> (\<forall>i. k \<le> i \<and> i < k + count \<longrightarrow> \<not> fa_bit a i)) \<and>
    (r = None \<longrightarrow>
       (\<forall>k \<ge> index. k + count \<le> fa_frames a \<longrightarrow> (\<exists>i. k \<le> i \<and> i < k + count \<and> fa_bit a i)))"
  using assms(4)
proof (induction index rule: measure_induct_rule [where f = "\<lambda>i. fa_frames a - i"])
  case (less index)
  have add: "add64 index count = Ret (index + count)"
    using inv count less.prems by (intro add64_Ret) (simp add: fa_inv_def)
  show ?case
  proof (cases "index + count \<le> fa_frames a")
    case False
    then have "scan_window a count index = Ret None" by (simp add: scan_window.simps add)
    with False show ?thesis by auto
  next
    case True
    let ?found = "find (fa_bit a) [index..<index + count]"
    have found: "first_allocated_in a index (index + count) = Ret ?found"
      unfolding first_allocated_in_def
      by (rule bits.find_range) (use True inv in \<open>simp add: fa_inv_def\<close>)
    show ?thesis
    proof (cases ?found)
      case None
      then have "scan_window a count index = Ret (Some index)"
        using True by (simp add: scan_window.simps add found)
      with None True show ?thesis by (auto simp: find_upt_None_iff)
    next
      case (Some b)
      note b = find_upt_SomeD [OF Some]
      have next_index: "add64 b 1 = Ret (Suc b)"
        using inv b(2) True by (simp add: fa_inv_def)
      have step: "scan_window a count index = scan_window a count (Suc b)"
        using True Some by (simp add: scan_window.simps [of a count index] add found next_index del: One_nat_def)
      have smaller: "fa_frames a - Suc b < fa_frames a - index" "Suc b \<le> fa_frames a"
        using b True by simp_all
      obtain r where r: "scan_window a count (Suc b) = Ret r"
        "\<forall>k. r = Some k \<longrightarrow>
           k + count \<le> fa_frames a \<and> (\<forall>i. k \<le> i \<and> i < k + count \<longrightarrow> \<not> fa_bit a i)"
        "r = None \<longrightarrow>
           (\<forall>k \<ge> Suc b. k + count \<le> fa_frames a \<longrightarrow> (\<exists>i. k \<le> i \<and> i < k + count \<and> fa_bit a i))"
        using less.IH [of "Suc b"] smaller by blast
      moreover have "\<exists>i. k \<le> i \<and> i < k + count \<and> fa_bit a i" if "index \<le> k" "k < Suc b" for k
        using that b by (intro exI [of _ b]) auto
      ultimately show ?thesis using step
        by (metis not_less)
    qed
  qed
qed

lemma take_window_ok:
  assumes inv: "fa_inv a" and fit: "k + count \<le> fa_frames a"
    and clear: "\<forall>i. k \<le> i \<and> i < k + count \<longrightarrow> \<not> fa_bit a i"
  defines "f \<equiv> fa_base a + k"
  shows "\<exists>a'. take_window a k count = Ret (a', Inr f) \<and> fa_inv a' \<and> u64_ok f \<and>
    {f..<f + count} \<subseteq> free_set a \<and> free_set a' = free_set a - {f..<f + count} \<and>
    managed a' = managed a"
proof -
  have cap: "k + count \<le> fa_capacity a" using inv fit by (simp add: fa_inv_def)
  obtain b where b: "run_for (\<lambda>i a. fa_set a i True) [k..<k + count] a = Ret b"
      "fa_bit b = (\<lambda>i. if k \<le> i \<and> i < k + count then True else fa_bit a i)"
      "fa_capacity b = fa_capacity a" "fa_rest b = fa_rest a"
    using bits.set_range [OF cap, of True k] by blast
  note rest = fa_restD [OF b(4)]
  let ?old = "{i. i < fa_frames a \<and> fa_bit a i}"
  have "{i. i < fa_frames a \<and> fa_bit b i} = ?old \<union> {k..<k + count}"
    using fit by (auto simp: b(2))
  moreover have "?old \<inter> {k..<k + count} = {}" using clear by auto
  ultimately have card: "card {i. i < fa_frames a \<and> fa_bit b i} = card ?old + count"
    by (simp add: card_Un_disjoint)
  moreover have "card {i. i < fa_frames a \<and> fa_bit b i} \<le> card {..<fa_frames a}"
    by (rule card_mono) auto
  ultimately have total: "fa_allocated a + count \<le> fa_frames a" using inv by (simp add: fa_inv_def)
  let ?a' = "b\<lparr>fa_allocated := fa_allocated a + count, fa_cursor := k + count\<rparr>"
  have big: "fa_base a + 2 * fa_frames a < 2 ^ 64" using inv by (simp add: fa_inv_def)
  have "take_window a k count = Ret (?a', Inr f)"
    using b(1) big total fit by (simp add: take_window_def f_def rest add64_Ret)
  moreover have "fa_inv ?a'"
    using inv card fit b(3) by (simp add: fa_inv_def rest)
  moreover have "u64_ok f" using big fit by (simp add: u64_ok_def f_def)
  moreover have "{f..<f + count} \<subseteq> free_set a"
  proof
    fix x assume x: "x \<in> {f..<f + count}"
    then have "k \<le> x - fa_base a \<and> x - fa_base a < k + count" by (auto simp: f_def)
    with clear x fit show "x \<in> free_set a" by (auto simp: mem_free_set managed_def f_def)
  qed
  moreover have "x \<in> free_set ?a' \<longleftrightarrow> x \<in> free_set a - {f..<f + count}" for x
    by (cases "fa_base a \<le> x") (auto simp: mem_free_set managed_def rest b(2) f_def)
  moreover have "managed ?a' = managed a" by (simp add: managed_def rest)
  ultimately show ?thesis by (intro exI [of _ ?a']) (auto simp only:)
qed

lemma allocate_contiguous_cases:
  assumes inv: "fa_inv a"
  shows "(\<exists>a' f. allocate_contiguous a n = Ret (a', Inr f) \<and> fa_inv a' \<and> u64_ok f \<and> 0 < n \<and>
      {f..<f + n} \<subseteq> free_set a \<and> free_set a' = free_set a - {f..<f + n} \<and> managed a' = managed a) \<or>
    (allocate_contiguous a n = Ret (a, Inl OutOfMemory) \<and>
      (0 < n \<longrightarrow> (\<nexists>f. {f..<f + n} \<subseteq> free_set a)))"
proof (cases "n = 0 \<or> n > fa_frames a")
  case True
  have "\<not> {f..<f + n} \<subseteq> free_set a" if "n > fa_frames a" for f
  proof
    assume "{f..<f + n} \<subseteq> free_set a"
    then have "card {f..<f + n} \<le> card (managed a)"
      using free_set_managed by (intro card_mono) auto
    with that show False by (simp add: managed_def)
  qed
  with True show ?thesis by (auto simp: allocate_contiguous_def)
next
  case False
  then have n: "0 < n" "n \<le> fa_frames a" by auto
  have cur: "fa_cursor a \<le> fa_frames a" using inv by (simp add: fa_inv_def)
  obtain r1 where r1: "scan_window a n (fa_cursor a) = Ret r1"
      "\<forall>k. r1 = Some k \<longrightarrow> k + n \<le> fa_frames a \<and> (\<forall>i. k \<le> i \<and> i < k + n \<longrightarrow> \<not> fa_bit a i)"
    using scan_window_correct [OF inv n cur] by metis
  obtain r0 where r0: "scan_window a n 0 = Ret r0"
      "\<forall>k. r0 = Some k \<longrightarrow> k + n \<le> fa_frames a \<and> (\<forall>i. k \<le> i \<and> i < k + n \<longrightarrow> \<not> fa_bit a i)"
      "r0 = None \<longrightarrow> (\<forall>k \<ge> 0. k + n \<le> fa_frames a \<longrightarrow> (\<exists>i. k \<le> i \<and> i < k + n \<and> fa_bit a i))"
    using scan_window_correct [OF inv n, of 0] by auto
  have eq: "allocate_contiguous a n =
      (case r1 of Some k \<Rightarrow> take_window a k n
       | None \<Rightarrow> (case r0 of Some k \<Rightarrow> take_window a k n | None \<Rightarrow> Ret (a, Inl OutOfMemory)))"
    using False r1(1) r0(1) by (simp add: allocate_contiguous_def split: option.splits)
  consider k where "allocate_contiguous a n = take_window a k n" "k + n \<le> fa_frames a"
      "\<forall>i. k \<le> i \<and> i < k + n \<longrightarrow> \<not> fa_bit a i"
    | "r1 = None" "r0 = None" "allocate_contiguous a n = Ret (a, Inl OutOfMemory)"
    using eq r1(2) r0(2) by (cases r1; cases r0) auto
  then show ?thesis
  proof cases
    case 1
    with take_window_ok [OF inv 1(2,3)] n(1) show ?thesis by metis
  next
    case 2
    have "\<not> {f..<f + n} \<subseteq> free_set a" for f
    proof
      assume sub: "{f..<f + n} \<subseteq> free_set a"
      with n(1) have "f \<in> free_set a" "f + (n - 1) \<in> free_set a" by auto
      then have "f \<ge> fa_base a" "f - fa_base a + n \<le> fa_frames a"
        using n(1) by (auto simp: mem_free_set managed_def)
      moreover then obtain i where "f - fa_base a \<le> i" "i < f - fa_base a + n" "fa_bit a i"
        using r0(3) 2(2) by blast
      ultimately have "fa_base a + i \<in> {f..<f + n}" "fa_base a + i \<notin> free_set a"
        by (auto simp: mem_free_set)
      with sub show False by blast
    qed
    with 2 show ?thesis by blast
  qed
qed

section \<open>Freeing runs\<close>

lemma check_allocated_ok:
  assumes inv: "fa_inv a" and "\<forall>i \<in> set is. frame + i < 2 ^ 64"
  shows "\<exists>r. check_allocated a frame is = Ret r \<and>
    (r = Inr () \<longleftrightarrow> (\<forall>i \<in> set is. frame + i \<in> managed a - free_set a))"
  using assms(2)
proof (induction "is")
  case (Cons i "is")
  let ?f = "frame + i"
  from Cons obtain r where r: "check_allocated a frame is = Ret r"
      "r = Inr () \<longleftrightarrow> (\<forall>i \<in> set is. frame + i \<in> managed a - free_set a)" by auto
  have add: "add64 frame i = Ret ?f" using Cons.prems by simp
  show ?case
  proof (cases "?f \<in> managed a")
    case False
    then show ?thesis by (simp add: add index_of_eq)
  next
    case True
    then have "?f - fa_base a < fa_frames a" by (auto simp: managed_def)
    then have get: "fa_get a (?f - fa_base a) = Ret (fa_bit a (?f - fa_base a))"
      by (rule fa_get_inv [OF inv])
    show ?thesis
      using True r by (auto simp add: add index_of_eq get mem_free_set)
  qed
qed simp

lemma free_each_ok:
  assumes "fa_inv a" "\<forall>i \<in> set is. frame + i < 2 ^ 64" "distinct is"
    "\<forall>i \<in> set is. frame + i \<in> managed a - free_set a"
  shows "\<exists>a'. free_each a frame is = Ret (a', Inr ()) \<and> fa_inv a' \<and>
    free_set a' = free_set a \<union> (+) frame ` set is \<and> managed a' = managed a"
  using assms
proof (induction "is" arbitrary: a)
  case (Cons i "is")
  let ?f = "frame + i"
  obtain b where b: "fa_free a ?f = Ret (b, Inr ())" "fa_inv b"
      "free_set b = insert ?f (free_set a)" "managed b = managed a"
    using fa_free_managed(2) [OF Cons.prems(1), of ?f] Cons.prems(4) by auto
  have add: "add64 frame i = Ret ?f" using Cons.prems by simp
  obtain c where "free_each b frame is = Ret (c, Inr ())" "fa_inv c"
      "free_set c = free_set b \<union> (+) frame ` set is" "managed c = managed b"
    using Cons.IH [OF b(2)] Cons.prems b(3,4) by auto
  with b show ?case by (simp add: add)
qed simp

lemma check_allocated_append:
  "check_allocated a frame (xs @ ys) = do {
     r \<leftarrow> check_allocated a frame xs;
     case r of Inl e \<Rightarrow> Ret (Inl e) | Inr _ \<Rightarrow> check_allocated a frame ys }"
  by (induction xs) (auto split: option.splits Option.bind_splits if_splits)

lemma check_allocated_range:
  assumes inv: "fa_inv a" and f: "u64_ok f"
  shows "\<exists>r. check_allocated a f [0..<n] = Ret r \<and>
    (r = Inr () \<longleftrightarrow> {f..<f + n} \<subseteq> managed a - free_set a)"
proof (cases "f + n \<le> 2 ^ 64")
  case True
  then have "\<forall>i \<in> set [0..<n]. f + i < 2 ^ 64" by auto
  from check_allocated_ok [OF inv this] show ?thesis unfolding shifted_upt_subset .
next
  case False
  define m where "m = 2 ^ 64 - f"
  have m: "m \<le> n" "f + m = 2 ^ 64" "0 < m" using False f by (auto simp: m_def u64_ok_def)
  have last: "f + (m - 1) \<notin> managed a" using inv m by (auto simp: fa_inv_def managed_def)
  moreover have "m - 1 \<in> set [0..<m]" using m(3) by simp
  ultimately have "\<not> (\<forall>i \<in> set [0..<m]. f + i \<in> managed a - free_set a)" by blast
  moreover have "\<forall>i \<in> set [0..<m]. f + i < 2 ^ 64" using m(2) by auto
  ultimately obtain r where "check_allocated a f [0..<m] = Ret r" "r \<noteq> Inr ()"
    using check_allocated_ok [OF inv] by blast
  then obtain e where e: "check_allocated a f [0..<m] = Ret (Inl e)" by (cases r) auto
  have "[0..<n] = [0..<m] @ [m..<n]" using m(1) by (metis le_add_diff_inverse upt_add_eq_append zero_le)
  then have "check_allocated a f [0..<n] = Ret (Inl e)" by (simp add: check_allocated_append e)
  moreover have "f + (m - 1) \<in> {f..<f + n}" using m by auto
  ultimately show ?thesis using last by blast
qed

lemma free_contiguous_cases:
  assumes inv: "fa_inv a" and f: "u64_ok f"
  shows "({f..<f + n} \<subseteq> managed a - free_set a \<and>
      (\<exists>a'. free_contiguous a f n = Ret (a', Inr ()) \<and> fa_inv a' \<and>
        free_set a' = free_set a \<union> {f..<f + n} \<and> managed a' = managed a)) \<or>
    (\<not> {f..<f + n} \<subseteq> managed a - free_set a \<and> (\<exists>e. free_contiguous a f n = Ret (a, Inl e)))"
proof -
  obtain r where r: "check_allocated a f [0..<n] = Ret r"
      "r = Inr () \<longleftrightarrow> {f..<f + n} \<subseteq> managed a - free_set a"
    using check_allocated_range [OF inv f] by blast
  show ?thesis
  proof (cases "{f..<f + n} \<subseteq> managed a - free_set a")
    case False
    with r obtain e where "r = Inl e" by (cases r) auto
    with False r(1) show ?thesis by (simp add: free_contiguous_def)
  next
    case True
    then have in_range: "\<forall>i \<in> set [0..<n]. f + i \<in> managed a - free_set a"
      by (simp only: shifted_upt_subset)
    moreover have "\<forall>x \<in> managed a. x < 2 ^ 64" using inv by (auto simp: fa_inv_def managed_def)
    ultimately have "\<forall>i \<in> set [0..<n]. f + i < 2 ^ 64" by blast
    moreover have "(+) f ` set [0..<n] = {f..<f + n}" by auto
    ultimately show ?thesis
      using free_each_ok [OF inv _ _ in_range] True r by (simp add: free_contiguous_def)
  qed
qed

interpretation pool: frame_pool fa_inv free_set allocate_contiguous free_contiguous
proof unfold_locales
  fix a n assume "fa_inv a"
  from allocate_contiguous_cases [OF this, of n] show
    "(\<exists>a' f. allocate_contiguous a n = Ret (a', Inr f) \<and> fa_inv a' \<and> u64_ok f \<and> 0 < n \<and>
        {f..<f + n} \<subseteq> free_set a \<and> free_set a' = free_set a - {f..<f + n}) \<or>
     (\<exists>e. allocate_contiguous a n = Ret (a, Inl e) \<and>
        (0 < n \<longrightarrow> (\<nexists>f. {f..<f + n} \<subseteq> free_set a)))"
    by blast
next
  fix a f n assume "fa_inv a" "u64_ok f"
  from free_contiguous_cases [OF this, of n] show
    "(\<exists>a'. free_contiguous a f n = Ret (a', Inr ()) \<and> fa_inv a' \<and>
        {f..<f + n} \<inter> free_set a = {} \<and> free_set a' = free_set a \<union> {f..<f + n}) \<or>
     (\<exists>e. free_contiguous a f n = Ret (a, Inl e))"
    by blast
qed

lemma audit_eq:
  assumes "fa_frames a \<le> fa_capacity a"
  shows "audit a = Ret (fa_allocated a = card {i. i < fa_frames a \<and> fa_bit a i})"
  using bits.count_range [OF assms] by (auto simp: audit_def)

lemma audit_passes: "fa_inv a \<Longrightarrow> audit a = Ret True"
  by (simp add: audit_eq fa_inv_def)

section \<open>What the allocator promises\<close>

text \<open>Executable forms, for evaluation on concrete allocators.\<close>

lemma free_set_code [code]:
  "free_set a = set (map ((+) (fa_base a)) (filter (\<lambda>i. \<not> fa_bit a i) [0..<fa_frames a]))"
  by (auto simp: free_set_def)

lemma fa_inv_code [code]:
  "fa_inv a \<longleftrightarrow> fa_frames a \<le> fa_capacity a \<and> fa_base a + 2 * fa_frames a < 2 ^ 64 \<and>
     fa_cursor a \<le> fa_frames a \<and>
     fa_allocated a = length (filter (fa_bit a) [0..<fa_frames a])"
  by (simp add: fa_inv_def length_filter_upt)

text \<open>Eight frames from frame 16 on; frames 16, 17 and 20 are allocated and the cursor is past frame 17.\<close>

definition demo_allocator :: FrameAllocator where
  "demo_allocator = \<lparr>fa_bitmap = [0x13], fa_base = 16, fa_frames = 8, fa_allocated = 3, fa_cursor = 2\<rparr>"

lemmas demo_eval = demo_allocator_def fa_bit_def fa_capacity_def upt_conv_Cons
  index_of_def fa_get_def first_allocated_in_def scan_window.simps take_window_def fa_set_def

lemma demo_inv: "fa_inv demo_allocator"
  by (simp add: fa_inv_code demo_eval)

text \<open>
  C12. Contiguous allocation is sound and complete, and never panics. From any consistent
  allocator a request for \<open>n\<close> frames either hands out a run of \<open>n\<close> frames that were all free and
  removes exactly that run from the free frames, or leaves the allocator unchanged and reports
  \<open>OutOfMemory\<close>; the latter happens only when no run of \<open>n\<close> free frames exists (or \<open>n = 0\<close>).
\<close>

theorem allocate_contiguous_correct:
  assumes "fa_inv a"
  shows "(\<exists>a' f. allocate_contiguous a n = Ret (a', Inr f) \<and> fa_inv a' \<and> 0 < n \<and>
      {f..<f + n} \<subseteq> free_set a \<and> free_set a' = free_set a - {f..<f + n} \<and> managed a' = managed a) \<or>
    (allocate_contiguous a n = Ret (a, Inl OutOfMemory) \<and>
      (n = 0 \<or> (\<nexists>f. {f..<f + n} \<subseteq> free_set a)))"
  using allocate_contiguous_cases [OF assms, of n] by blast

theorem allocate_contiguous_correct_witness:
  "(\<exists>a' f. allocate_contiguous demo_allocator 3 = Ret (a', Inr f) \<and> fa_inv a' \<and>
      {f..<f + 3} \<subseteq> free_set demo_allocator \<and>
      free_set a' = free_set demo_allocator - {f..<f + 3}) \<and>
   allocate_contiguous demo_allocator 4 = Ret (demo_allocator, Inl OutOfMemory)"
proof -
  have "allocate_contiguous demo_allocator 3 \<noteq> Ret (demo_allocator, Inl OutOfMemory)"
    by (simp add: allocate_contiguous_def demo_eval add64_Ret)
  moreover have "allocate_contiguous demo_allocator 4 = Ret (demo_allocator, Inl OutOfMemory)"
    by (simp add: allocate_contiguous_def demo_eval add64_Ret)
  ultimately show ?thesis using allocate_contiguous_correct [OF demo_inv, of 3] by blast
qed

text \<open>
  C1. No frame is handed out twice and none is lost. Starting from the allocator that
  \<^verbatim>\<open>from_memory_map\<close> builds, whatever sequence of requests a client makes (allocations of
  any size, successful or not, and returns of runs it owns), nothing panics, the runs the
  client owns are pairwise disjoint and disjoint from the free frames, the free and the owned
  frames together are exactly the frames that were free at the start, and the audit of the
  allocator's running total succeeds.
\<close>

theorem allocator_conserves_frames:
  assumes "\<forall>r \<in> set regions. mr_start r < 2 ^ 64 \<and> mr_len r < 2 ^ 64"
  shows "\<exists>a a' owned. from_memory_map bitmap regions = Ret (Inr a) \<and>
    serve allocate_contiguous free_contiguous reqs (a, []) = Ret (a', owned) \<and>
    sorted_wrt (\<lambda>x y. frames_of x \<inter> frames_of y = {}) owned \<and>
    all_frames owned \<inter> free_set a' = {} \<and>
    all_frames owned \<union> free_set a' = free_set a \<and> audit a' = Ret True"
proof -
  obtain a where a: "from_memory_map bitmap regions = Ret (Inr a)" "fa_inv a"
    using from_memory_map_ok [OF assms] by blast
  obtain a' owned where "serve allocate_contiguous free_contiguous reqs (a, []) = Ret (a', owned)"
      "fa_inv a'" "separate owned (free_set a')"
      "free_set a' \<union> all_frames owned = free_set a \<union> all_frames []"
    using pool.serve_conserves [OF a(2), of "[]" reqs] by auto
  with a show ?thesis by (auto simp: separate_iff audit_passes Un_commute)
qed

definition demo_regions :: "MemoryRegion list" where
  "demo_regions =
    [\<lparr>mr_start = 0, mr_len = 0x3000, mr_kind = Usable, mr_reserved = 0\<rparr>,
     \<lparr>mr_start = 0x3000, mr_len = 0x1000, mr_kind = BootloaderReclaimable, mr_reserved = 0\<rparr>,
     \<lparr>mr_start = 0x4000, mr_len = 0x4000, mr_kind = Usable, mr_reserved = 0\<rparr>]"

theorem allocator_conserves_frames_witness:
  "\<exists>a a' owned. from_memory_map [0] demo_regions = Ret (Inr a) \<and>
    serve allocate_contiguous free_contiguous [Take 2, Take 1, Give 0 2, Take 3] (a, []) = Ret (a', owned) \<and>
    all_frames owned \<inter> free_set a' = {} \<and> all_frames owned \<union> free_set a' = free_set a"
proof -
  have "\<forall>r \<in> set demo_regions. mr_start r < 2 ^ 64 \<and> mr_len r < 2 ^ 64"
    by (simp add: demo_regions_def)
  from allocator_conserves_frames [OF this] show ?thesis by blast
qed

text \<open>
  Freeing a run is all or nothing. The run is taken back exactly when every frame of it is
  managed and allocated; otherwise an error is returned and the allocator, bitmap, total and
  cursor, is the one before the call, although the call gives up after looking at part of the run.
\<close>

theorem free_contiguous_atomic:
  assumes "fa_inv a" "u64_ok f"
  shows "if {f..<f + n} \<subseteq> managed a - free_set a
    then \<exists>a'. free_contiguous a f n = Ret (a', Inr ()) \<and> fa_inv a' \<and>
      free_set a' = free_set a \<union> {f..<f + n} \<and> managed a' = managed a
    else \<exists>e. free_contiguous a f n = Ret (a, Inl e)"
  using free_contiguous_cases [OF assms, of n] by auto

theorem free_contiguous_atomic_witness:
  "\<exists>e. free_contiguous demo_allocator 16 3 = Ret (demo_allocator, Inl e)"
proof -
  have "\<not> {16..<16 + 3} \<subseteq> managed demo_allocator - free_set demo_allocator"
  proof -
    have "18 \<in> free_set demo_allocator" by (simp add: free_set_code demo_eval)
    moreover have "18 \<in> {16..<16 + 3 :: nat}" by simp
    ultimately show ?thesis by blast
  qed
  with free_contiguous_atomic [OF demo_inv, of 16 3] show ?thesis by (simp add: u64_ok_def)
qed

text \<open>
  A double free is reported. Freeing an allocated frame succeeds and makes exactly that
  frame free; freeing it again returns \<open>NotAllocated\<close> and changes nothing.
\<close>

theorem double_free_reported:
  assumes "fa_inv a" "f \<in> managed a" "f \<notin> free_set a"
  shows "\<exists>a'. fa_free a f = Ret (a', Inr ()) \<and> fa_inv a' \<and> free_set a' = insert f (free_set a) \<and>
    fa_free a' f = Ret (a', Inl NotAllocated)"
proof -
  obtain a' where "fa_free a f = Ret (a', Inr ())" "fa_inv a'"
      "free_set a' = insert f (free_set a)" "managed a' = managed a"
    using fa_free_managed(2) [OF assms] by blast
  with assms(2) fa_free_managed(1) [of a' f] show ?thesis by auto
qed

theorem double_free_reported_witness:
  "\<exists>a'. fa_free demo_allocator 17 = Ret (a', Inr ()) \<and> fa_free a' 17 = Ret (a', Inl NotAllocated)"
proof -
  have "17 \<in> managed demo_allocator" by (simp add: managed_def demo_allocator_def)
  moreover have "17 \<notin> free_set demo_allocator" by (simp add: free_set_code demo_eval)
  ultimately show ?thesis using double_free_reported [OF demo_inv] by blast
qed

text \<open>
  Reserving an address range removes exactly the frames that hold some byte of the range
  from the free frames, including the frames at both ends that are only partly covered, and
  nothing else; a range that runs past the end of the address space is clamped, not wrapped.
\<close>

theorem reserve_range_exact:
  assumes "fa_inv a" "start < 2 ^ 64"
  shows "\<exists>a'. reserve_range a start len = Ret a' \<and> fa_inv a' \<and> managed a' = managed a \<and>
    free_set a' = free_set a -
      {address div 4096 | address. start \<le> address \<and> address < start + len \<and> address < 2 ^ 64}"
  using reserve_range_ok [OF assms, of len]
  by (auto simp: frames_touching_def frame_containing_def FRAME_SIZE_def)

theorem reserve_range_exact_witness:
  "\<exists>a'. reserve_range demo_allocator 0x12FFF 2 = Ret a' \<and> fa_inv a' \<and>
    free_set a' = free_set demo_allocator - {18, 19}"
proof -
  have "{address div 4096 | address. 0x12FFF \<le> address \<and> address < 0x12FFF + 2 \<and>
      address < (2 :: nat) ^ 64} = (\<lambda>x. x div 4096) ` {0x12FFF..<0x13001}"
    by auto
  also have "{0x12FFF..<0x13001 :: nat} = {0x12FFF, 0x13000}" by auto
  finally show ?thesis using reserve_range_exact [OF demo_inv, of "0x12FFF" 2] by auto
qed

text \<open>
  The allocator built from a validated memory map hands out installed, usable memory and
  nothing else: a managed frame is free exactly when all of its bytes belong to one region of
  kind \<open>Usable\<close>; every other frame, in a hole of the map or in a region of another kind, starts
  allocated.
\<close>

theorem from_memory_map_exact:
  assumes "validate_memory_map regions = Inr ()"
  shows "\<exists>a. from_memory_map bitmap regions = Ret (Inr a) \<and> fa_inv a \<and>
    (\<forall>f. f \<in> free_set a \<longleftrightarrow> f \<in> managed a \<and>
      (\<exists>r \<in> set regions. mr_kind r = Usable \<and>
         mr_start r \<le> f * 4096 \<and> f * 4096 + 4096 \<le> mr_start r + mr_len r))"
  using from_memory_map_validated [OF assms] by blast

theorem from_memory_map_exact_witness:
  "\<exists>a. from_memory_map [0] demo_regions = Ret (Inr a) \<and> fa_inv a \<and> 3 \<notin> free_set a"
proof -
  have "validate_memory_map demo_regions = Inr ()"
    by (simp add: validate_memory_map_def demo_regions_def checked_add64_def region_end_def
      saturating_add64_def)
  from from_memory_map_exact [OF this] obtain a where
    a: "from_memory_map [0] demo_regions = Ret (Inr a)" "fa_inv a"
    "3 \<in> free_set a \<longrightarrow> (\<exists>r \<in> set demo_regions. mr_kind r = Usable \<and>
         mr_start r \<le> 3 * 4096 \<and> 3 * 4096 + 4096 \<le> mr_start r + mr_len r)"
    by blast
  then show ?thesis by (auto simp: demo_regions_def)
qed

end
