(* ===== verification/Kernel_Memory.thy ===== *)
theory Kernel_Memory
  imports Frame_Allocator Bitflags
begin

text \<open>
  Memory bring-up in the kernel, \<^verbatim>\<open>src/kernel/loko-kernel/src/main.rs\<close>: the entry point
  validates the boot information, builds the frame allocator, reserves what is in use, and takes
  the heap's frames. \<^verbatim>\<open>fail\<close> never returns; a computation that ends there has the value
  \<open>Inl message\<close>. Log lines and descriptor-table loading have no effect on this state and are
  left out, except for the arithmetic done to build a log line, which can panic and is kept. The heap allocator
  itself is the \<^verbatim>\<open>linked_list_allocator\<close> crate; what the kernel hands to its
  \<^verbatim>\<open>init\<close>, an address and a size, is part of the state. The number of heap bytes in use
  that \<^verbatim>\<open>report\<close> prints is a parameter.
\<close>

section \<open>Log levels\<close>

datatype Level = Trace | Debug | Info | Warn | Error

fun Level_code :: "Level \<Rightarrow> nat" where
  "Level_code Trace = 0"
| "Level_code Debug = 1"
| "Level_code Info = 2"
| "Level_code Warn = 3"
| "Level_code Error = 4"

fun Level_tag :: "Level \<Rightarrow> rstr" where
  "Level_tag Trace = str ''TRACE''"
| "Level_tag Debug = str ''DEBUG''"
| "Level_tag Info = str ''INFO ''"
| "Level_tag Warn = str ''WARN ''"
| "Level_tag Error = str ''ERROR''"

definition enabled :: "nat \<Rightarrow> Level \<Rightarrow> bool" where
  "enabled threshold level \<longleftrightarrow> Level_code level \<ge> threshold"

lemma Level_tag_width: "str_len (Level_tag level) = 5"
  by (cases level) (simp_all add: str_def char_len_def)

section \<open>Bringing up physical memory\<close>

definition MAX_MANAGED_MEMORY :: nat where
  "MAX_MANAGED_MEMORY = 16 * 1024 * 1024 * 1024"

definition BITMAP_WORDS :: nat where
  "BITMAP_WORDS = bitmap_words_for (MAX_MANAGED_MEMORY div FRAME_SIZE)"

definition FRAME_BITMAP :: "64 word list" where
  "FRAME_BITMAP = replicate BITMAP_WORDS 0"

definition HEAP_SIZE :: nat where
  "HEAP_SIZE = 1024 * 1024"

definition memory_message :: rstr where
  "memory_message = str ''LokoOS could not start: this device's memory could not be set up.''"

definition setup_memory :: "region_memory \<Rightarrow> BootInfo \<Rightarrow> (rstr + FrameAllocator) run" where
  "setup_memory mem info = do {
     let regions = mem (bi_memory_map info) (bi_memory_map_len info);
     let highest_usable =
       foldr max (map region_end (filter (\<lambda>r. usable_at_handoff (mr_kind r)) regions)) 0;
     built \<leftarrow> from_memory_map FRAME_BITMAP regions;
     case built of
       Inl e \<Rightarrow> Ret (Inl memory_message)
     | Inr frames \<Rightarrow> do {
         managed \<leftarrow> mul64 (total_frames frames) FRAME_SIZE;
         _ \<leftarrow> (if highest_usable > managed then sub64 highest_usable managed else Ret 0);
         frames \<leftarrow> reserve_range frames (bi_kernel_physical_base info) (bi_kernel_size info);
         frames \<leftarrow> (if is_present (bi_framebuffer info)
                   then reserve_range frames (fb_base (bi_framebuffer info)) (fb_size (bi_framebuffer info))
                   else Ret frames);
         frames \<leftarrow> run_for (\<lambda>region frames.
                     if mr_kind region = BootloaderReclaimable
                     then reserve_range frames (mr_start region) (mr_len region)
                     else Ret frames) regions frames;
         (frames, _) \<leftarrow> reserve frames 0;
         ok \<leftarrow> audit frames;
         if \<not> ok then Ret (Inl memory_message) else Ret (Inr frames)
       }
   }"

text \<open>The heap is described by the address and the size passed to \<^verbatim>\<open>heap::init\<close>.\<close>

definition setup_heap :: "FrameAllocator \<Rightarrow> nat \<Rightarrow> (rstr + FrameAllocator \<times> nat \<times> nat) run" where
  "setup_heap frames physical_memory_offset = do {
     let needed = div_ceil64 HEAP_SIZE FRAME_SIZE;
     (frames, r) \<leftarrow> allocate_contiguous frames needed;
     case r of
       Inl e \<Rightarrow> Ret (Inl (str ''LokoOS could not start: there isn't enough memory in this device.''))
     | Inr first \<Rightarrow> do {
         address \<leftarrow> start_address first;
         virt \<leftarrow> add64 physical_memory_offset address;
         Ret (Inr (frames, virt, HEAP_SIZE))
       }
   }"

definition report :: "FrameAllocator \<Rightarrow> nat \<Rightarrow> (nat \<times> nat \<times> nat) run" where
  "report frames used = do {
     total \<leftarrow> mul64 (total_frames frames) FRAME_SIZE;
     free \<leftarrow> free_bytes frames;
     Ret (total div (1024 * 1024), free div (1024 * 1024), used div 1024)
   }"

section \<open>The entry point\<close>

record Kernel =
  k_log_level :: nat
  k_surface :: "Framebuffer option"
  k_frames :: FrameAllocator
  k_heap :: "nat \<times> nat"
  k_report :: "nat \<times> nat \<times> nat"

definition framebuffer_init :: "Framebuffer option \<Rightarrow> Framebuffer \<Rightarrow> Framebuffer option" where
  "framebuffer_init surface framebuffer =
     (if \<not> is_present framebuffer then surface else Some framebuffer)"

definition kernel_start ::
    "bitflags_api \<Rightarrow> region_memory \<Rightarrow> nat \<Rightarrow> BootInfo option \<Rightarrow> (rstr + Kernel) run" where
  "kernel_start api mem used boot_info =
     (case boot_info of
        None \<Rightarrow> Ret (Inl (str ''LokoOS could not start: the bootloader did not describe this device.''))
      | Some info \<Rightarrow>
          (case BootInfo_validate mem info of
             Inl e \<Rightarrow> Ret (Inl (BootInfoError_message e))
           | Inr _ \<Rightarrow> do {
               let level = (if bf_contains api (bi_flags info) BootFlags_VERBOSE
                            then Level_code Trace else Level_code Info);
               surface \<leftarrow> (if is_present (bi_framebuffer info)
                  then do {
                    base \<leftarrow> add64 (fb_base (bi_framebuffer info)) (bi_physical_memory_offset info);
                    Ret (framebuffer_init None ((bi_framebuffer info)\<lparr>fb_base := base\<rparr>))
                  }
                  else Ret None);
               memory \<leftarrow> setup_memory mem info;
               case memory of
                 Inl message \<Rightarrow> Ret (Inl message)
               | Inr frames \<Rightarrow> do {
                   heap \<leftarrow> setup_heap frames (bi_physical_memory_offset info);
                   case heap of
                     Inl message \<Rightarrow> Ret (Inl message)
                   | Inr (frames, heap) \<Rightarrow> do {
                       figures \<leftarrow> report frames used;
                       Ret (Inr \<lparr>k_log_level = level, k_surface = surface, k_frames = frames,
                                k_heap = heap, k_report = figures\<rparr>)
                     }
                 }
             }))"

section \<open>Which frames are left to hand out\<close>

text \<open>The frames of the boot protocol's promise: usable, managed, and not in use by anything.\<close>

definition available :: "region_memory \<Rightarrow> BootInfo \<Rightarrow> nat set" where
  "available mem info =
     (let regions = mem (bi_memory_map info) (bi_memory_map_len info) in
      {f. f \<noteq> 0 \<and> f < 2 ^ 22 \<and>
          (\<exists>r \<in> set regions. mr_kind r = Usable \<and>
             mr_start r \<le> f * 4096 \<and> f * 4096 + 4096 \<le> mr_start r + mr_len r) \<and>
          f \<notin> frames_touching (bi_kernel_physical_base info) (bi_kernel_size info) \<and>
          (is_present (bi_framebuffer info) \<longrightarrow>
             f \<notin> frames_touching (fb_base (bi_framebuffer info)) (fb_size (bi_framebuffer info))) \<and>
          (\<forall>r \<in> set regions. mr_kind r = BootloaderReclaimable \<longrightarrow>
             f \<notin> frames_touching (mr_start r) (mr_len r))})"

definition BootInfo_u64 :: "BootInfo \<Rightarrow> bool" where
  "BootInfo_u64 info \<longleftrightarrow> bi_kernel_physical_base info < 2 ^ 64 \<and> fb_base (bi_framebuffer info) < 2 ^ 64"

lemma length_FRAME_BITMAP: "length FRAME_BITMAP = 65536"
  by (simp add: FRAME_BITMAP_def BITMAP_WORDS_def bitmap_words_for_def div_ceil64_def
    MAX_MANAGED_MEMORY_def FRAME_SIZE_def)

lemma reserve_reclaimable_ok:
  assumes "fa_inv a" "\<forall>r \<in> set rs. mr_start r < 2 ^ 64"
  shows "\<exists>a'. run_for (\<lambda>region frames. if mr_kind region = BootloaderReclaimable
         then reserve_range frames (mr_start region) (mr_len region) else Ret frames) rs a = Ret a' \<and>
    fa_inv a' \<and> managed a' = managed a \<and>
    free_set a' = free_set a - (\<Union>r \<in> {r \<in> set rs. mr_kind r = BootloaderReclaimable}.
      frames_touching (mr_start r) (mr_len r))"
  using assms
proof (induction rs arbitrary: a)
  case (Cons r rs)
  show ?case
  proof (cases "mr_kind r = BootloaderReclaimable")
    case True
    obtain b where b: "reserve_range a (mr_start r) (mr_len r) = Ret b" "fa_inv b"
        "free_set b = free_set a - frames_touching (mr_start r) (mr_len r)" "managed b = managed a"
      using reserve_range_ok [of a "mr_start r" "mr_len r"] Cons.prems by auto
    with Cons.IH [of b] Cons.prems(2) True show ?thesis by (auto simp: set_diff_eq)
  next
    case False
    then have "{s \<in> set (r # rs). mr_kind s = BootloaderReclaimable} =
        {s \<in> set rs. mr_kind s = BootloaderReclaimable}" by auto
    with Cons.IH [of a] Cons.prems False show ?thesis by simp
  qed
qed simp

lemma reserve_frame_ok:
  assumes "fa_inv a"
  shows "\<exists>a' r. reserve a f = Ret (a', r) \<and> fa_inv a' \<and> managed a' = managed a \<and>
    free_set a' = free_set a - {f}"
proof (cases "f \<in> managed a")
  case True
  with reserve_managed [OF assms] show ?thesis by blast
next
  case False
  then have "f \<notin> free_set a" using free_set_managed by blast
  with False assms show ?thesis by (simp add: out_of_range)
qed

text \<open>A usable frame of a validated map lies below the end of the map.\<close>

lemma usable_below_highest:
  assumes "memory_map_spec regions" "r \<in> set regions" "f * 4096 + 4096 \<le> mr_start r + mr_len r"
  shows "f < foldr max (map region_end regions) 0 div FRAME_SIZE"
proof -
  have "x \<in> set xs \<Longrightarrow> x \<le> foldr max xs 0" for x and xs :: "nat list"
    by (induction xs) (auto simp: le_max_iff_disj)
  then have "region_end r \<le> foldr max (map region_end regions) 0" using assms(2) by simp
  moreover have "region_end r = mr_start r + mr_len r"
    using assms(1,2) by (simp add: memory_map_spec_def region_ok_def region_end_exact)
  ultimately have "(f + 1) * 4096 \<le> foldr max (map region_end regions) 0" using assms(3) by simp
  then have "f + 1 \<le> foldr max (map region_end regions) 0 div 4096"
    by (simp only: less_eq_div_iff_mult_less_eq zero_less_numeral)
  then show ?thesis by (simp add: FRAME_SIZE_def)
qed

lemma setup_memory_ok:
  assumes valid: "BootInfo_validate mem info = Inr ()" and "BootInfo_u64 info"
  shows "\<exists>a. setup_memory mem info = Ret (Inr a) \<and> fa_inv a \<and> free_set a = available mem info \<and>
    managed a \<subseteq> {..<2 ^ 22}"
proof -
  let ?rs = "mem (bi_memory_map info) (bi_memory_map_len info)"
  let ?h = "foldr max (map region_end ?rs) 0" and ?fb = "bi_framebuffer info"
  have v: "validate_memory_map ?rs = Inr ()"
    using valid by (auto simp: BootInfo_validate_def split: if_splits)
  then have spec: "memory_map_spec ?rs" by (simp add: validate_memory_map_iff)
  obtain a0 where a0: "from_memory_map FRAME_BITMAP ?rs = Ret (Inr a0)" "fa_inv a0"
      "managed a0 = {..<min (?h div FRAME_SIZE) (saturating_mul64 65536 64)}"
      "\<forall>f. f \<in> free_set a0 \<longleftrightarrow> f \<in> managed a0 \<and> (\<exists>r \<in> set ?rs. mr_kind r = Usable \<and>
         mr_start r \<le> f * 4096 \<and> f * 4096 + 4096 \<le> mr_start r + mr_len r)"
    using from_memory_map_validated [OF v, of FRAME_BITMAP] by (auto simp: length_FRAME_BITMAP)
  have m: "managed a0 = {..<min (?h div FRAME_SIZE) (2 ^ 22)}"
    using a0(3) by (simp add: saturating_mul64_def)
  have total: "total_frames a0 * FRAME_SIZE < 2 ^ 64"
    by (simp add: total_frames_card m FRAME_SIZE_def min_def)
  obtain a1 where a1: "reserve_range a0 (bi_kernel_physical_base info) (bi_kernel_size info) = Ret a1"
      "fa_inv a1" "managed a1 = managed a0"
      "free_set a1 = free_set a0 - frames_touching (bi_kernel_physical_base info) (bi_kernel_size info)"
    using reserve_range_ok [OF a0(2)] assms(2) unfolding BootInfo_u64_def by blast
  obtain a2 where a2: "(if is_present ?fb then reserve_range a1 (fb_base ?fb) (fb_size ?fb) else Ret a1) = Ret a2"
      "fa_inv a2" "managed a2 = managed a0"
      "free_set a2 = {f \<in> free_set a1. is_present ?fb \<longrightarrow> f \<notin> frames_touching (fb_base ?fb) (fb_size ?fb)}"
    using reserve_range_ok [OF a1(2), of "fb_base ?fb" "fb_size ?fb"] assms(2) a1(2,3)
    unfolding BootInfo_u64_def by (cases "is_present ?fb") auto
  have "\<forall>r \<in> set ?rs. mr_start r < 2 ^ 64"
    using spec by (auto simp: memory_map_spec_def region_ok_def)
  then obtain a3 where a3: "run_for (\<lambda>region frames. if mr_kind region = BootloaderReclaimable
         then reserve_range frames (mr_start region) (mr_len region) else Ret frames) ?rs a2 = Ret a3"
      "fa_inv a3" "managed a3 = managed a0"
      "free_set a3 = free_set a2 - (\<Union>r \<in> {r \<in> set ?rs. mr_kind r = BootloaderReclaimable}.
        frames_touching (mr_start r) (mr_len r))"
    using reserve_reclaimable_ok [OF a2(2), of ?rs] unfolding a2(3) by blast
  obtain a4 r4 where a4: "reserve a3 0 = Ret (a4, r4)" "fa_inv a4" "managed a4 = managed a0"
      "free_set a4 = free_set a3 - {0}"
    using reserve_frame_ok [OF a3(2), of 0] unfolding a3(3) by blast
  have "setup_memory mem info = Ret (Inr a4)"
    using total by (simp add: setup_memory_def a0(1) a1(1) a2(1) a3(1) a4(1) audit_passes [OF a4(2)]
      mul64_Ret sub64_Ret Let_def)
  moreover have "f \<in> free_set a4 \<longleftrightarrow> f \<in> available mem info" for f
    unfolding a4(4) a3(4) a2(4) a1(4) available_def Let_def
    using usable_below_highest [OF spec, of _ f] by (auto simp: a0(4) m)
  moreover have "managed a4 \<subseteq> {..<2 ^ 22}" unfolding a4(3) m by auto
  ultimately show ?thesis using a4(2) by blast
qed

section \<open>The heap and the report\<close>

definition heap_frames :: nat where
  "heap_frames = div_ceil64 HEAP_SIZE FRAME_SIZE"

lemma heap_frames_eq: "heap_frames = 256"
  by (simp add: heap_frames_def div_ceil64_def HEAP_SIZE_def FRAME_SIZE_def)

lemma setup_heap_ok:
  assumes inv: "fa_inv a" and low: "managed a \<subseteq> {..<2 ^ 22}" and off: "offset + 2 ^ 34 \<le> 2 ^ 64"
  shows "(\<exists>a' f. setup_heap a offset = Ret (Inr (a', offset + f * 4096, HEAP_SIZE)) \<and> fa_inv a' \<and>
      {f..<f + 256} \<subseteq> free_set a \<and> free_set a' = free_set a - {f..<f + 256} \<and> managed a' = managed a) \<or>
    (setup_heap a offset =
        Ret (Inl (str ''LokoOS could not start: there isn't enough memory in this device.'')) \<and>
      (\<nexists>f. {f..<f + 256} \<subseteq> free_set a))"
  using allocate_contiguous_cases [OF inv, of 256]
proof (elim disjE exE conjE)
  fix a' f
  assume al: "allocate_contiguous a 256 = Ret (a', Inr f)" "fa_inv a'" "{f..<f + 256} \<subseteq> free_set a"
    "free_set a' = free_set a - {f..<f + 256}" "managed a' = managed a"
  then have "f \<in> free_set a" by (auto simp: subset_iff)
  then have "f < 2 ^ 22" using free_set_managed low by blast
  then have "setup_heap a offset = Ret (Inr (a', offset + f * 4096, HEAP_SIZE))"
    using al(1) off heap_frames_eq
    by (simp add: setup_heap_def heap_frames_def start_address_def FRAME_SIZE_def run_simps)
  with al show ?thesis by blast
next
  assume "allocate_contiguous a 256 = Ret (a, Inl OutOfMemory)"
    "(0 :: nat) < 256 \<longrightarrow> (\<nexists>f. {f..<f + 256} \<subseteq> free_set a)"
  then show ?thesis using heap_frames_eq by (simp add: setup_heap_def heap_frames_def)
qed

lemma free_frames_card:
  assumes "fa_inv a"
  shows "free_frames a = Ret (card (free_set a))"
proof -
  let ?set = "{i. i < fa_frames a \<and> fa_bit a i}" and ?clear = "{i. i < fa_frames a \<and> \<not> fa_bit a i}"
  have "?set \<union> ?clear = {..<fa_frames a}" by auto
  moreover have "card (?set \<union> ?clear) = card ?set + card ?clear"
    by (rule card_Un_disjoint) auto
  moreover have "card (free_set a) = card ?clear"
  proof -
    have "free_set a = (+) (fa_base a) ` ?clear" by (auto simp: free_set_def)
    then show ?thesis by (simp add: card_image)
  qed
  ultimately show ?thesis using assms by (simp add: fa_inv_def free_frames_def)
qed

lemma report_ok:
  assumes inv: "fa_inv a" and low: "managed a \<subseteq> {..<2 ^ 22}"
  shows "report a used = Ret (card (managed a) * 4096 div 1048576,
    card (free_set a) * 4096 div 1048576, used div 1024)"
proof -
  have "card (managed a) \<le> card {..<2 ^ 22 :: nat}" using low by (intro card_mono) auto
  moreover have "card (free_set a) \<le> card (managed a)"
    using free_set_managed by (intro card_mono) auto
  ultimately show ?thesis
    by (simp add: report_def free_bytes_def free_frames_card [OF inv] total_frames_card FRAME_SIZE_def
      mul64_Ret)
qed

section \<open>The kernel owns what it hands out\<close>

text \<open>
  C6. For every boot information block the kernel accepts, memory set-up succeeds: it does not
  panic, the consistency audit does not fail, and the frames left to hand out are exactly those
  inside a usable region, below the 16 GiB limit, that are not frame 0 and hold no byte of the
  kernel image, of the framebuffer, or of the regions the bootloader still uses.
\<close>

theorem setup_memory_safe:
  assumes "BootInfo_validate mem info = Inr ()" and "BootInfo_u64 info"
  shows "\<exists>a. setup_memory mem info = Ret (Inr a) \<and> fa_inv a \<and> free_set a = available mem info"
  using setup_memory_ok [OF assms] by blast

theorem setup_memory_safe_witness:
  "\<exists>a. setup_memory small_map small_info = Ret (Inr a) \<and> fa_inv a \<and> 0 \<notin> free_set a"
proof -
  have "BootInfo_u64 small_info" by (simp add: BootInfo_u64_def small_info_def Framebuffer_NONE_def)
  from setup_memory_safe [OF small_info_valid this] show ?thesis
    by (auto simp: available_def Let_def)
qed

lemma kernel_start_cases:
  assumes "BootInfo_validate mem info = Inr ()" and "BootInfo_u64 info"
    and "bi_physical_memory_offset info + 2 ^ 34 \<le> 2 ^ 64"
    and "fb_base (bi_framebuffer info) + bi_physical_memory_offset info < 2 ^ 64"
  shows "if \<exists>f. {f..<f + 256} \<subseteq> available mem info
    then \<exists>k f. kernel_start api mem used (Some info) = Ret (Inr k) \<and>
      {f..<f + 256} \<subseteq> available mem info \<and>
      k_heap k = (bi_physical_memory_offset info + f * 4096, 1048576) \<and>
      fa_inv (k_frames k) \<and> free_set (k_frames k) = available mem info - {f..<f + 256} \<and>
      fst (snd (k_report k)) = card (available mem info - {f..<f + 256}) * 4096 div 1048576
    else kernel_start api mem used (Some info) =
      Ret (Inl (str ''LokoOS could not start: there isn't enough memory in this device.''))"
proof -
  let ?fb = "bi_framebuffer info" and ?off = "bi_physical_memory_offset info"
  obtain a where a: "setup_memory mem info = Ret (Inr a)" "fa_inv a" "free_set a = available mem info"
      "managed a \<subseteq> {..<2 ^ 22}"
    using setup_memory_ok [OF assms(1,2)] by blast
  obtain surface where surface: "(if is_present ?fb
      then do { base \<leftarrow> add64 (fb_base ?fb) ?off; Ret (framebuffer_init None (?fb\<lparr>fb_base := base\<rparr>)) }
      else Ret None) = Ret surface"
    using assms(4) by (cases "is_present ?fb") (simp_all add: add64_Ret)
  from setup_heap_ok [OF a(2,4) assms(3)] show ?thesis
  proof (elim disjE exE conjE)
    fix a' f
    assume h: "setup_heap a ?off = Ret (Inr (a', ?off + f * 4096, HEAP_SIZE))" "fa_inv a'"
      "{f..<f + 256} \<subseteq> free_set a" "free_set a' = free_set a - {f..<f + 256}" "managed a' = managed a"
    note rep = report_ok [OF h(2) a(4) [folded h(5)], of used]
    show ?thesis
      using h(2-4) a(3) by (auto simp: kernel_start_def assms(1) surface a(1) h(1) rep HEAP_SIZE_def Let_def)
  next
    assume "setup_heap a ?off =
        Ret (Inl (str ''LokoOS could not start: there isn't enough memory in this device.''))"
      "\<nexists>f. {f..<f + 256} \<subseteq> free_set a"
    then show ?thesis
      using a(3) by (simp add: kernel_start_def assms(1) surface a(1) Let_def)
  qed
qed

text \<open>
  What the entry point does with a block it accepts is decided by memory alone. If 256
  consecutive frames are available it comes up with a 1 MiB heap on such a run, at the run's
  address in the physical-memory window, and the heap's frames are no longer free; the reported
  figures are the true counts. Otherwise it stops with the not-enough-memory message. It never
  panics, provided the window and the framebuffer's address in it fit the address space.
\<close>

theorem kernel_start_correct:
  assumes "BootInfo_validate mem info = Inr ()" and "BootInfo_u64 info"
    and "bi_physical_memory_offset info + 2 ^ 34 \<le> 2 ^ 64"
    and "fb_base (bi_framebuffer info) + bi_physical_memory_offset info < 2 ^ 64"
  shows "if \<exists>f. {f..<f + 256} \<subseteq> available mem info
    then \<exists>k f. kernel_start api mem used (Some info) = Ret (Inr k) \<and>
      {f..<f + 256} \<subseteq> available mem info \<and>
      k_heap k = (bi_physical_memory_offset info + f * 4096, 1048576) \<and>
      fa_inv (k_frames k) \<and> free_set (k_frames k) = available mem info - {f..<f + 256} \<and>
      fst (snd (k_report k)) = card (available mem info - {f..<f + 256}) * 4096 div 1048576
    else kernel_start api mem used (Some info) =
      Ret (Inl (str ''LokoOS could not start: there isn't enough memory in this device.''))"
  by (rule kernel_start_cases [OF assms])

text \<open>A machine with 4 MiB of memory and the kernel image in its first mebibyte.\<close>

definition four_mib :: region_memory where
  "four_mib p n = [\<lparr>mr_start = 0, mr_len = 0x400000, mr_kind = Usable, mr_reserved = 0\<rparr>]"

definition four_mib_info :: BootInfo where
  "four_mib_info = small_info\<lparr>bi_kernel_physical_base := 0x80000, bi_kernel_size := 0x80000\<rparr>"

lemma four_mib_info_valid: "BootInfo_validate four_mib four_mib_info = Inr ()"
  by (simp add: BootInfo_validate_def PROTOCOL_VERSION_MAJOR_def size_of_BootInfo_def
    size_of_Framebuffer_def validate_memory_map_def checked_add64_def four_mib_def four_mib_info_def
    small_info_def)

lemma four_mib_available: "{256..<256 + 256} \<subseteq> available four_mib four_mib_info"
  by (auto simp: available_def four_mib_def four_mib_info_def small_info_def is_present_def
    Framebuffer_NONE_def frames_touching_def frame_containing_def FRAME_SIZE_def)

theorem kernel_start_correct_witness:
  "\<exists>k f. kernel_start word_bitflags four_mib 0 (Some four_mib_info) = Ret (Inr k) \<and>
    {f..<f + 256} \<subseteq> available four_mib four_mib_info \<and> k_heap k = (f * 4096, 1048576)"
proof -
  have "BootInfo_u64 four_mib_info"
    by (simp add: BootInfo_u64_def four_mib_info_def small_info_def Framebuffer_NONE_def)
  moreover have "bi_physical_memory_offset four_mib_info = 0" "fb_base (bi_framebuffer four_mib_info) = 0"
    by (simp_all add: four_mib_info_def small_info_def Framebuffer_NONE_def)
  moreover have ex: "\<exists>f. {f..<f + 256} \<subseteq> available four_mib four_mib_info"
    using four_mib_available by blast
  ultimately show ?thesis
    using kernel_start_correct [OF four_mib_info_valid, of word_bitflags 0]
    unfolding if_P [OF ex] by fastforce
qed

end
