(* ===== verification/Boot_Chain.thy ===== *)
theory Boot_Chain
  imports Boot_Correct Kernel_Memory
begin

text \<open>
  The bootloader and the kernel together: the kernel is started on what the bootloader left in memory. It accepts it, it comes
  up or says that memory is short, and it never hands out memory that the boot is still using.
\<close>

section \<open>The tables stay where they were made\<close>

definition arena_kept :: "'a paging \<Rightarrow> bool" where
  "arena_kept m \<longleftrightarrow> (\<forall>t r t'. m t = Ret (r, t') \<longrightarrow> pt_pml4 t' = pt_pml4 t)"

lemma arena_kept_and_then:
  assumes "arena_kept m" "\<And>x. arena_kept (f x)"
  shows "arena_kept (and_then m f)"
  unfolding arena_kept_def
proof (intro allI impI)
  fix t r t'
  assume "and_then m f t = Ret (r, t')"
  then obtain a b where "m t = Ret (a, b)" "(case a of Inl e \<Rightarrow> Ret (Inl e, b) | Inr x \<Rightarrow> f x b) = Ret (r, t')"
    by (auto simp: and_then_def bind_eq_Some_conv)
  then show "pt_pml4 t' = pt_pml4 t" using assms by (cases a) (auto simp: arena_kept_def)
qed

lemma arena_kept_take_frame: "arena_kept take_frame"
  by (auto simp: arena_kept_def take_frame_def bind_eq_Some_conv split: if_splits)

lemma arena_kept_write: "arena_kept (\<lambda>t. Ret (Inr x, write_entry t a b c))"
  by (simp add: arena_kept_def write_entry_def)

lemma arena_kept_descend: "arena_kept (descend table index)"
proof -
  have "arena_kept (and_then take_frame (\<lambda>frame t. Ret (Inr frame,
      write_entry t table index (word_of_nat frame OR bits_PRESENT OR bits_WRITABLE))))"
    by (intro arena_kept_and_then arena_kept_take_frame arena_kept_write)
  then show ?thesis by (auto simp: arena_kept_def descend_def Let_def split: if_splits)
qed

lemma arena_kept_let: "arena_kept (\<lambda>t. if P t then Ret (Inl e, t) else Ret (Inr x, write_entry t a b c))"
  by (auto simp: arena_kept_def write_entry_def)

lemma arena_kept_guard:
  "(\<And>y. arena_kept (m y)) \<Longrightarrow> arena_kept (\<lambda>t. if c then Ret (Inl e, t) else m (pt_pml4 t) t)"
  by (auto simp: arena_kept_def)

lemma arena_kept_map_page: "arena_kept (map_page v p perms)"
  unfolding map_page_def [abs_def] Let_def
  by (intro arena_kept_guard [where m = "\<lambda>y. and_then (descend y _) _"] arena_kept_and_then arena_kept_descend arena_kept_let)

lemma arena_kept_map_huge_page: "arena_kept (map_huge_page v p perms)"
  unfolding map_huge_page_def [abs_def] Let_def
  by (intro arena_kept_guard [where m = "\<lambda>y. and_then (descend y _) _"] arena_kept_and_then arena_kept_descend arena_kept_let)

lemma arena_kept_try_for: "(\<And>x. arena_kept (f x)) \<Longrightarrow> arena_kept (try_for f xs)"
proof (induction xs)
  case (Cons x xs)
  have "try_for f (x # xs) = and_then (f x) (\<lambda>_. try_for f xs)" by (rule ext) simp
  then show ?case using Cons arena_kept_and_then by metis
qed (simp add: arena_kept_def)

lemma arena_kept_ranges:
  "arena_kept (map_range vb pb len p)" "arena_kept (map_huge_range vb pb len p)"
  "arena_kept (map_huge_range_lenient vb pb len p)"
  unfolding map_range_def map_huge_range_def map_huge_range_lenient_def Let_def
  by (intro arena_kept_try_for,
      use arena_kept_map_page arena_kept_map_huge_page in \<open>fastforce simp: arena_kept_def bind_eq_Some_conv\<close>)+

lemma mapped_kept: "arena_kept m \<Longrightarrow> mapped m t = Ret (Inr t') \<Longrightarrow> pt_pml4 t' = pt_pml4 t"
  by (auto simp: arena_kept_def mapped_Inr)

lemma map_segments_kept: "map_segments low kphys ss t = Ret (Inr t') \<Longrightarrow> pt_pml4 t' = pt_pml4 t"
proof (induction ss arbitrary: t)
  case (Cons s ss)
  then show ?case
    by (auto simp: success_simps split: sum.splits dest!: arena_kept_ranges(1) [unfolded arena_kept_def, rule_format])
qed simp

lemma build_tables_arena:
  assumes "build_tables entries img low kphys arena highest fb = Ret (Inr t)"
  shows "cr3_value t = arena"
proof -
  from assms obtain ss t0 t1 t2 t3 where
    new: "PageTables_new entries arena ARENA_FRAMES = Ret (Inr t0)" and
    steps: "map_segments low kphys ss t0 = Ret (Inr t1)"
      "mapped (map_huge_range DEFAULT_PHYSICAL_MEMORY_OFFSET 0 highest READ_WRITE) t1 = Ret (Inr t2)"
      "map_framebuffer fb t2 = Ret (Inr t3)"
      "mapped (map_huge_range 0 0 IDENTITY_MAPPED_BYTES READ_EXECUTE) t3 = Ret (Inr t)"
    by (auto simp: build_tables_def map_kernel_def attempt_Inr map_err_Inr bind_eq_Some_conv)
  have "pt_pml4 t3 = pt_pml4 t2"
    using steps(3) by (auto simp: map_framebuffer_def bind_eq_Some_conv Let_def split: if_splits
      dest: mapped_kept [OF arena_kept_ranges(3)])
  moreover have "pt_pml4 t0 = arena"
    using new by (auto simp: PageTables_new_def take_frame_def bind_eq_Some_conv split: if_splits)
  ultimately show ?thesis
    using map_segments_kept [OF steps(1)] mapped_kept [OF arena_kept_ranges(2) steps(2)]
      mapped_kept [OF arena_kept_ranges(2) steps(4)]
    by (simp add: cr3_value_def)
qed

section \<open>What the boot leaves in use\<close>

text \<open>
  The pages everything the kernel is given refers to: the kernel image, the page tables, the stack, the array of
  regions and the boot information, each as an address and a number of pages.
\<close>

definition handoff_pages :: "Handoff \<Rightarrow> (nat \<times> nat) list" where
  "handoff_pages h =
     (let offset = DEFAULT_PHYSICAL_MEMORY_OFFSET; info = ho_boot_info h in
      [(bi_kernel_physical_base info, div_ceil64 (bi_kernel_size info) PAGE_SIZE),
       (ho_cr3 h, ARENA_FRAMES),
       (ho_stack_top h - offset - KERNEL_STACK_PAGES * PAGE_SIZE, KERNEL_STACK_PAGES),
       (bi_memory_map info - offset, MEMORY_MAP_PAGES),
       (ho_boot_info_virtual h - offset, 1)])"

definition in_pages :: "nat \<times> nat \<Rightarrow> nat \<Rightarrow> bool" where
  "in_pages = (\<lambda>(start, pages) p. start \<le> p \<and> p < start + pages * 4096)"

text \<open>
  UEFI reports the pages it allocated as of the type they were asked for. The law is stated for the requests the boot
  made after the file was read.
\<close>

definition boot_requests :: "Handoff \<Rightarrow> (nat \<times> nat) list" where
  "boot_requests h =
     [(1, div_ceil64 (bi_kernel_size (ho_boot_info h)) PAGE_SIZE), (2, ARENA_FRAMES), (3, KERNEL_STACK_PAGES),
      (4, MEMORY_MAP_PAGES), (5, 1)]"

definition allocations_recorded :: "Firmware \<Rightarrow> Handoff \<Rightarrow> bool" where
  "allocations_recorded fw h \<longleftrightarrow>
     (\<forall>(k, n) \<in> set (boot_requests h). \<forall>a. fw_allocate fw k n = Some a \<longrightarrow>
        (\<forall>p. in_pages (a, n) p \<longrightarrow> (\<exists>d \<in> set (fw_exit_memory_map fw). md_ty d = LOADER_DATA \<and>
           md_phys_start d \<le> p \<and> p < descriptor_end d)))"

lemma handoff_pages_allocated:
  assumes "load_and_start fw = Ret (Inr h)" "r \<in> set (handoff_pages h)"
  shows "\<exists>k. (k, snd r) \<in> set (boot_requests h) \<and> fw_allocate fw k (snd r) = Some (fst r)"
proof (rule load_and_start_success [OF assms(1)])
  fix data mem0 img low high kphys arena stack regions boot_info mem fb highest
  assume s: "fw_allocate fw 1 (div_ceil64 (high - low) PAGE_SIZE) = Some kphys" "fw_allocate fw 2 ARENA_FRAMES = Some arena"
    "fw_allocate fw 3 KERNEL_STACK_PAGES = Some stack" "fw_allocate fw 4 MEMORY_MAP_PAGES = Some regions"
    "fw_allocate fw 5 1 = Some boot_info"
    "build_tables (fw_entries fw) img low kphys arena highest fb = Ret (Inr (ho_tables h))"
    "hand_over fw img low (high - low) kphys stack regions boot_info fb (find_acpi_rsdp fw) (ho_bytes h) (ho_tables h) =
       Ret (Inr h)"
  note f = hand_over_fields [OF s(7)] build_tables_arena [OF s(6)]
  have "handoff_pages h = [(kphys, div_ceil64 (high - low) PAGE_SIZE), (arena, ARENA_FRAMES), (stack, KERNEL_STACK_PAGES),
      (regions, MEMORY_MAP_PAGES), (boot_info, 1)]"
    using f by (simp add: handoff_pages_def Let_def)
  moreover have "boot_requests h = [(1, div_ceil64 (high - low) PAGE_SIZE), (2, ARENA_FRAMES), (3, KERNEL_STACK_PAGES),
      (4, MEMORY_MAP_PAGES), (5, 1)]"
    using f by (simp add: boot_requests_def)
  ultimately have all: "list_all2 (\<lambda>r q. snd r = snd q \<and> fw_allocate fw (fst q) (snd q) = Some (fst r))
      (handoff_pages h) (boot_requests h)"
    using s(1-5) by simp
  obtain i where i: "i < length (handoff_pages h)" "r = handoff_pages h ! i"
    using assms(2) by (auto simp: in_set_conv_nth)
  then have "snd r = snd (boot_requests h ! i)" "fw_allocate fw (fst (boot_requests h ! i)) (snd r) = Some (fst r)"
      "boot_requests h ! i \<in> set (boot_requests h)"
    using list_all2_nthD [OF all i(1)] list_all2_lengthD [OF all] by simp_all
  then show ?thesis by (metis prod.collapse)
qed

section \<open>Frames the kernel may use\<close>

lemma descriptors_disjoint:
  assumes ok: "firmware_map_ok ds" and "a \<in> set ds" "b \<in> set ds" "md_ty a \<noteq> md_ty b"
    "md_phys_start a \<le> p" "p < descriptor_end a" "md_phys_start b \<le> p" "p < descriptor_end b"
  shows False
proof -
  have ne: "a \<in> set (nonempty ds)" "b \<in> set (nonempty ds)"
    using assms(2,3,5-8) by (auto simp: nonempty_def descriptor_end_def)
  have "md_phys_start a \<noteq> md_phys_start b"
  proof
    assume "md_phys_start a = md_phys_start b"
    moreover have "inj_on md_phys_start (set (nonempty ds))" using ok by (simp add: firmware_map_ok_def distinct_map)
    ultimately have "a = b" using ne by (auto dest: inj_onD)
    then show False using assms(4) by simp
  qed
  then consider "md_phys_start a < md_phys_start b" | "md_phys_start b < md_phys_start a" by linarith
  then show False
    using ok ne assms(5-8) unfolding firmware_map_ok_def by cases (meson leD le_less_trans less_le_trans)+
qed

lemma available_conventional:
  assumes map_ok: "firmware_map_ok ds" and f: "f \<in> available mem info"
    and regions: "mem (bi_memory_map info) (bi_memory_map_len info) = sort_key mr_start (map region_of (nonempty ds))"
  shows "\<exists>d \<in> set ds. md_ty d = CONVENTIONAL \<and> md_phys_start d \<le> f * 4096 \<and> f * 4096 + 4096 \<le> descriptor_end d"
proof -
  obtain d where d: "d \<in> set (nonempty ds)" "mr_kind (region_of d) = Usable" "mr_start (region_of d) \<le> f * 4096"
      "f * 4096 + 4096 \<le> mr_start (region_of d) + mr_len (region_of d)"
    using f regions by (auto simp: available_def Let_def)
  have "md_ty d = CONVENTIONAL" using d(2) by (cases "md_ty d") (simp_all add: region_of_def)
  then show ?thesis using d by (auto simp: region_of_def descriptor_end_def nonempty_def)
qed

lemma boot_info_bounds:
  assumes boot: "load_and_start fw = Ret (Inr h)" and ok: "firmware_memory_ok fw"
  shows "BootInfo_u64 (ho_boot_info h)"
    "bi_physical_memory_offset (ho_boot_info h) + 2 ^ 34 \<le> 2 ^ 64"
    "fb_base (bi_framebuffer (ho_boot_info h)) + bi_physical_memory_offset (ho_boot_info h) < 2 ^ 64"
proof -
  have "bi_kernel_physical_base (ho_boot_info h) < 2 ^ 47 \<and> fb_base (bi_framebuffer (ho_boot_info h)) < 2 ^ 47"
  proof (rule load_and_start_success [OF boot])
    fix data mem0 img low high kphys arena stack regions boot_info mem fb highest
    assume s: "fw_allocate fw 1 (div_ceil64 (high - low) PAGE_SIZE) = Some kphys" "find_framebuffer fw = Ret fb"
      "hand_over fw img low (high - low) kphys stack regions boot_info fb (find_acpi_rsdp fw) (ho_bytes h) (ho_tables h) =
       Ret (Inr h)"
    have "kphys + div_ceil64 (high - low) PAGE_SIZE * 4096 < 2 ^ 47" using ok s(1) unfolding firmware_memory_ok_def by blast
    then show ?thesis using hand_over_fields [OF s(3)] find_framebuffer_bound [OF ok s(2)] by simp
  qed
  then show "BootInfo_u64 (ho_boot_info h)"
    "bi_physical_memory_offset (ho_boot_info h) + 2 ^ 34 \<le> 2 ^ 64"
    "fb_base (bi_framebuffer (ho_boot_info h)) + bi_physical_memory_offset (ho_boot_info h) < 2 ^ 64"
    using boot_info_fields(2) [OF boot] by (simp_all add: BootInfo_u64_def window_constants(1))
qed

text \<open>A frame that is entirely free memory for the firmware and holds nothing the boot still uses.\<close>

definition frame_unused :: "Firmware \<Rightarrow> Handoff \<Rightarrow> nat \<Rightarrow> bool" where
  "frame_unused fw h f \<longleftrightarrow>
     (\<exists>d \<in> set (fw_exit_memory_map fw). md_ty d = CONVENTIONAL \<and> md_phys_start d \<le> f * 4096 \<and>
        f * 4096 + 4096 \<le> descriptor_end d) \<and>
     (\<forall>r \<in> set (handoff_pages h). \<forall>p. in_pages r p \<longrightarrow> p div 4096 \<noteq> f)"

lemma available_unused:
  assumes boot: "load_and_start fw = Ret (Inr h)" and map_ok: "firmware_map_ok (fw_exit_memory_map fw)"
    and few: "length (nonempty (fw_exit_memory_map fw)) \<le> region_capacity" and rec: "allocations_recorded fw h"
    and f: "f \<in> available (handoff_memory h) (ho_boot_info h)"
  shows "frame_unused fw h f"
proof -
  let ?ds = "fw_exit_memory_map fw"
  obtain d where d: "d \<in> set ?ds" "md_ty d = CONVENTIONAL" "md_phys_start d \<le> f * 4096" "f * 4096 + 4096 \<le> descriptor_end d"
    using available_conventional [OF map_ok f handoff_regions(1) [OF boot map_ok few]] by blast
  have "p div 4096 \<noteq> f" if r: "r \<in> set (handoff_pages h)" and p: "in_pages r p" for r p
  proof
    assume frame: "p div 4096 = f"
    obtain k where k: "(k, snd r) \<in> set (boot_requests h)" "fw_allocate fw k (snd r) = Some (fst r)"
      using handoff_pages_allocated [OF boot r] by blast
    have "\<forall>a. fw_allocate fw k (snd r) = Some a \<longrightarrow>
        (\<forall>p. in_pages (a, snd r) p \<longrightarrow> (\<exists>d \<in> set ?ds. md_ty d = LOADER_DATA \<and> md_phys_start d \<le> p \<and> p < descriptor_end d))"
      using bspec [OF rec [unfolded allocations_recorded_def] k(1)] by simp
    then obtain b where b: "b \<in> set ?ds" "md_ty b = LOADER_DATA" "md_phys_start b \<le> p" "p < descriptor_end b"
      using k(2) p by (metis prod.collapse)
    have "md_phys_start d \<le> p" "p < descriptor_end d" using d(3,4) frame by auto
    with d(1,2) b show False using descriptors_disjoint [OF map_ok] by (metis MemoryType.distinct(3))
  qed
  then show ?thesis using d unfolding frame_unused_def by blast
qed

section \<open>From power-on to the kernel\<close>

text \<open>
  C8. The two programs fit together. On a machine that is ready the bootloader hands over and the kernel accepts
  what it finds: it never panics and never rejects the block. It comes up exactly if 256 consecutive frames are
  available for its heap, and otherwise ends with the not-enough-memory message.
\<close>

theorem kernel_comes_up:
  assumes ready: "machine_ready fw img" and map_ok: "firmware_map_ok (fw_exit_memory_map fw)"
    and few: "length (nonempty (fw_exit_memory_map fw)) \<le> region_capacity"
  shows "\<exists>h. load_and_start fw = Ret (Inr h) \<and>
    (if \<exists>f. {f..<f + 256} \<subseteq> available (handoff_memory h) (ho_boot_info h)
     then \<exists>k. kernel_start api (handoff_memory h) used (Some (ho_boot_info h)) = Ret (Inr k)
     else kernel_start api (handoff_memory h) used (Some (ho_boot_info h)) =
       Ret (Inl (str ''LokoOS could not start: there isn't enough memory in this device.'')))"
proof -
  obtain h where h: "load_and_start fw = Ret (Inr h)" using boot_reaches_kernel [OF ready] by blast
  have "firmware_memory_ok fw" using ready by (simp add: machine_ready_def)
  note cases = kernel_start_cases [OF boot_info_valid [OF h map_ok few] boot_info_bounds [OF h this], of api used]
  show ?thesis
    by (intro exI [of _ h] conjI h) (use cases in \<open>simp split: if_splits; blast\<close>)
qed

text \<open>
  C2. The kernel never reuses memory the boot is still using. Once it is up, every frame of its heap and every frame
  its allocator can still hand out is free memory of the firmware's final map, and holds no byte of the kernel
  image, the page tables, the stack, the array of regions or the boot information, provided the firmware
  reports the bootloader's allocations as such in that map.
\<close>

theorem boot_memory_never_reused:
  assumes boot: "load_and_start fw = Ret (Inr h)" and ok: "firmware_memory_ok fw"
    and map_ok: "firmware_map_ok (fw_exit_memory_map fw)"
    and few: "length (nonempty (fw_exit_memory_map fw)) \<le> region_capacity" and rec: "allocations_recorded fw h"
    and up: "kernel_start api (handoff_memory h) used (Some (ho_boot_info h)) = Ret (Inr k)"
  shows "\<exists>heap. k_heap k = (DEFAULT_PHYSICAL_MEMORY_OFFSET + heap * 4096, 256 * 4096) \<and>
    (\<forall>f. f \<in> free_set (k_frames k) \<or> heap \<le> f \<and> f < heap + 256 \<longrightarrow> frame_unused fw h f) \<and>
    (\<forall>f \<in> free_set (k_frames k). \<not> (heap \<le> f \<and> f < heap + 256))"
proof -
  note cases = kernel_start_cases [OF boot_info_valid [OF boot map_ok few] boot_info_bounds [OF boot ok], of api used]
  obtain heap where heap: "{heap..<heap + 256} \<subseteq> available (handoff_memory h) (ho_boot_info h)"
      "k_heap k = (bi_physical_memory_offset (ho_boot_info h) + heap * 4096, 1048576)"
      "free_set (k_frames k) = available (handoff_memory h) (ho_boot_info h) - {heap..<heap + 256}"
    using cases up by (auto split: if_splits)
  have "f \<in> available (handoff_memory h) (ho_boot_info h)" if "f \<in> free_set (k_frames k) \<or> heap \<le> f \<and> f < heap + 256" for f
    using heap(1,3) that by (auto simp: subset_iff)
  then have unused: "frame_unused fw h f" if "f \<in> free_set (k_frames k) \<or> heap \<le> f \<and> f < heap + 256" for f
    using available_unused [OF boot map_ok few rec] that by blast
  have "k_heap k = (DEFAULT_PHYSICAL_MEMORY_OFFSET + heap * 4096, 256 * 4096)"
    using heap(2) boot_info_fields(2) [OF boot] by simp
  moreover have "\<forall>f \<in> free_set (k_frames k). \<not> (heap \<le> f \<and> f < heap + 256)" using heap(3) by simp
  ultimately show ?thesis using unused by blast
qed

section \<open>The machine of the examples\<close>

lemma demo_recorded: "allocations_recorded demo_firmware h"
proof -
  have "\<exists>d \<in> set demo_ram. md_ty d = LOADER_DATA \<and> md_phys_start d \<le> p \<and> p < descriptor_end d"
    if "(min k 5 + 1) * 2 ^ 28 \<le> p" "p < (min k 5 + 1) * 2 ^ 28 + n * 4096" "n \<le> 2 ^ 16" for k n p :: nat
    using that by (auto simp: demo_ram_def descriptor_end_def min_def split: if_splits)
  then show ?thesis
    by (auto simp: allocations_recorded_def in_pages_def demo_firmware_def split: if_splits)
qed

lemma demo_available:
  assumes "load_and_start demo_firmware = Ret (Inr h)"
  shows "{256..<256 + 256} \<subseteq> available (handoff_memory h) (ho_boot_info h)"
proof -
  have place: "bi_kernel_physical_base (ho_boot_info h) = 2 ^ 29 \<and> fb_base (bi_framebuffer (ho_boot_info h)) = 0xC0000000"
  proof (rule load_and_start_success [OF assms])
    fix data mem0 img low high kphys arena stack regions boot_info mem fb highest
    assume s: "fw_allocate demo_firmware 1 (div_ceil64 (high - low) PAGE_SIZE) = Some kphys"
      "find_framebuffer demo_firmware = Ret fb"
      "hand_over demo_firmware img low (high - low) kphys stack regions boot_info fb (find_acpi_rsdp demo_firmware)
         (ho_bytes h) (ho_tables h) = Ret (Inr h)"
    have "kphys = 2 ^ 29" using s(1) by (simp add: demo_firmware_def split: if_splits)
    moreover have "fb_base fb = 0xC0000000"
      using s(2) by (auto simp: find_framebuffer_def demo_firmware_def demo_gop_def run_simps)
    ultimately show ?thesis using hand_over_fields [OF s(3)] by simp
  qed
  have regions: "set (handoff_memory h (bi_memory_map (ho_boot_info h)) (bi_memory_map_len (ho_boot_info h))) =
      region_of ` set demo_ram"
    by (simp only: handoff_regions(1) [OF assms demo_map_ok] set_sort set_map)
      (simp add: demo_firmware_def demo_ram_def nonempty_def)
  have away: "f \<notin> frames_touching start len" if "f < 512" "512 * 4096 \<le> start" for f start len
    using that by (auto simp: frames_touching_def frame_containing_def FRAME_SIZE_def)
  show ?thesis
    using away by (auto simp: available_def Let_def regions place demo_ram_def region_of_def)
qed

theorem kernel_comes_up_witness:
  "\<exists>h k. load_and_start demo_firmware = Ret (Inr h) \<and>
    kernel_start word_bitflags (handoff_memory h) 0 (Some (ho_boot_info h)) = Ret (Inr k)"
proof -
  obtain h where h: "load_and_start demo_firmware = Ret (Inr h)"
    "if \<exists>f. {f..<f + 256} \<subseteq> available (handoff_memory h) (ho_boot_info h)
     then \<exists>k. kernel_start word_bitflags (handoff_memory h) 0 (Some (ho_boot_info h)) = Ret (Inr k)
     else kernel_start word_bitflags (handoff_memory h) 0 (Some (ho_boot_info h)) =
       Ret (Inl (str ''LokoOS could not start: there isn't enough memory in this device.''))"
    using kernel_comes_up [OF demo_ready demo_map_ok, of word_bitflags 0] by blast
  have "\<exists>f. {f..<f + 256} \<subseteq> available (handoff_memory h) (ho_boot_info h)" using demo_available [OF h(1)] by blast
  with h show ?thesis by (simp only: if_True) blast
qed

lemma demo_kernel_up:
  "\<exists>h k. load_and_start demo_firmware = Ret (Inr h) \<and>
    kernel_start word_bitflags (handoff_memory h) 0 (Some (ho_boot_info h)) = Ret (Inr k)"
proof -
  obtain h where h: "load_and_start demo_firmware = Ret (Inr h)" using demo_boot by blast
  have ex: "\<exists>f. {f..<f + 256} \<subseteq> available (handoff_memory h) (ho_boot_info h)" using demo_available [OF h] by blast
  show ?thesis
    using kernel_start_cases [OF boot_info_valid [OF h demo_map_ok] boot_info_bounds [OF h demo_memory_ok], of word_bitflags 0]
      h unfolding if_P [OF ex] by blast
qed

theorem boot_memory_never_reused_witness:
  "\<exists>h k heap. load_and_start demo_firmware = Ret (Inr h) \<and>
    kernel_start word_bitflags (handoff_memory h) 0 (Some (ho_boot_info h)) = Ret (Inr k) \<and>
    frame_unused demo_firmware h heap"
proof -
  obtain h k where h: "load_and_start demo_firmware = Ret (Inr h)"
    "kernel_start word_bitflags (handoff_memory h) 0 (Some (ho_boot_info h)) = Ret (Inr k)"
    using demo_kernel_up by blast
  from boot_memory_never_reused [OF h(1) demo_memory_ok demo_map_ok demo_recorded h(2)]
  obtain heap where "\<forall>f. f \<in> free_set (k_frames k) \<or> heap \<le> f \<and> f < heap + 256 \<longrightarrow> frame_unused demo_firmware h f"
    by blast
  then have "frame_unused demo_firmware h heap" by simp
  with h show ?thesis by blast
qed

end
