(* ===== verification/Rust_Fmt.thy ===== *)
theory Rust_Fmt
  imports Rust_Str
begin

text \<open>
  The parts of Rust's formatting the sources use: decimal and \<^verbatim>\<open>{:#x}\<close> numbers, padding, and when a
  text that contains formatted numbers can contain a fixed word.
\<close>

section \<open>Numbers and padding\<close>

fun dec :: "nat \<Rightarrow> rstr" where
  "dec n = (if n < 10 then [48 + n] else dec (n div 10) @ [48 + n mod 10])"

declare dec.simps [simp del]

fun hex_digits :: "nat \<Rightarrow> rstr" where
  "hex_digits n =
     (if n < 16 then [if n < 10 then 48 + n else 87 + n]
      else hex_digits (n div 16) @ [if n mod 16 < 10 then 48 + n mod 16 else 87 + n mod 16])"

declare hex_digits.simps [simp del]

text \<open>\<^verbatim>\<open>{:#x}\<close>\<close>

definition hex :: "nat \<Rightarrow> rstr" where
  "hex n = str ''0x'' @ hex_digits n"

text \<open>\<^verbatim>\<open>{:<n}\<close> and \<^verbatim>\<open>{:>n}\<close>\<close>

definition pad_right :: "nat \<Rightarrow> rstr \<Rightarrow> rstr" where
  "pad_right n s = s @ replicate (n - length s) 32"

definition pad_left :: "nat \<Rightarrow> rstr \<Rightarrow> rstr" where
  "pad_left n s = replicate (n - length s) 32 @ s"

lemma dec_digits: "set (dec n) \<subseteq> {48..57}"
proof (induction n rule: dec.induct)
  case (1 n)
  then show ?case by (subst dec.simps) auto
qed

lemma hex_digits_set: "set (hex_digits n) \<subseteq> {48..57} \<union> {97..102}"
proof (induction n rule: hex_digits.induct)
  case (1 n)
  have "n mod 16 < 16" by simp
  then have last: "(if n mod 16 < 10 then 48 + n mod 16 else 87 + n mod 16) \<in> {48..57} \<union> {97..102}" by auto
  show ?case
  proof (cases "n < 16")
    case True
    then show ?thesis using last by (simp add: hex_digits.simps [of n])
  next
    case False
    then show ?thesis using last 1 by (simp add: hex_digits.simps [of n])
  qed
qed

text \<open>The value of a decimal numeral.\<close>

definition dec_value :: "rstr \<Rightarrow> nat" where
  "dec_value s = foldl (\<lambda>v c. v * 10 + (c - 48)) 0 s"

lemma dec_value_dec: "dec_value (dec n) = n"
proof (induction n rule: dec.induct)
  case (1 n)
  then show ?case by (cases "n < 10") (simp_all add: dec.simps [of n] dec_value_def)
qed

lemma dec_inject [simp]: "dec m = dec n \<longleftrightarrow> m = n"
  using dec_value_dec by metis

section \<open>Searching in formatted text\<close>

lemma contains_str_iff: "contains_str s pat \<longleftrightarrow> (\<exists>a b. s = a @ pat @ b)"
proof (induction s)
  case (Cons c s)
  have "take (length pat) (c # s) = pat \<longleftrightarrow> (\<exists>b. c # s = pat @ b)"
    by (metis append_eq_conv_conj append_take_drop_id)
  moreover have "(\<exists>a b. c # s = a @ pat @ b) \<longleftrightarrow> (\<exists>b. c # s = pat @ b) \<or> (\<exists>a b. s = a @ pat @ b)"
    by (metis append_Cons append_Nil append_eq_Cons_conv)
  ultimately show ?case using Cons by simp
qed simp

lemma contains_str_append: "contains_str a pat \<or> contains_str b pat \<Longrightarrow> contains_str (a @ b) pat"
  unfolding contains_str_iff by (metis append_assoc)

lemma contains_str_factor: "contains_str s pat \<Longrightarrow> contains_str pat w \<Longrightarrow> contains_str s w"
  unfolding contains_str_iff by (metis append_assoc)

lemma contains_str_prefix: "contains_str a pat \<Longrightarrow> contains_str (a @ b) pat"
  by (rule contains_str_append) blast

text \<open>A number cannot be part of a word that has none of its characters.\<close>

lemma contains_str_skip:
  assumes "set d \<inter> set pat = {}" "pat \<noteq> []"
  shows "contains_str (d @ s) pat \<longleftrightarrow> contains_str s pat"
  using assms(1)
proof (induction d)
  case (Cons c d)
  then have "hd pat \<noteq> c" using assms(2) by (cases pat) auto
  then have "take (length pat) (c # d @ s) \<noteq> pat" using assms(2) by (cases pat) auto
  with Cons show ?case by simp
qed simp

lemma contains_str_dec: "\<forall>c \<in> set pat. 57 < c \<or> c < 48 \<Longrightarrow> pat \<noteq> [] \<Longrightarrow> contains_str (dec n @ s) pat \<longleftrightarrow> contains_str s pat"
  using dec_digits [of n] by (intro contains_str_skip) fastforce+

lemma contains_str_hex:
  "\<forall>c \<in> set pat. 102 < c \<or> c < 48 \<Longrightarrow> pat \<noteq> [] \<Longrightarrow> contains_str (hex_digits n @ s) pat \<longleftrightarrow> contains_str s pat"
  using hex_digits_set [of n] by (intro contains_str_skip) fastforce+

text \<open>A lazy form for evaluation.\<close>

lemma contains_str_Cons:
  "contains_str (c # s) (p # ps) \<longleftrightarrow>
     (if c = p then take (length ps) s = ps \<or> contains_str s (p # ps) else contains_str s (p # ps))"
  by simp

lemma contains_str_number_end:
  "\<forall>c \<in> set pat. 57 < c \<or> c < 48 \<Longrightarrow> pat \<noteq> [] \<Longrightarrow> \<not> contains_str (dec n) pat"
  "\<forall>c \<in> set pat. 102 < c \<or> c < 48 \<Longrightarrow> pat \<noteq> [] \<Longrightarrow> \<not> contains_str (hex_digits n) pat"
  using contains_str_dec [of pat n "[]"] contains_str_hex [of pat n "[]"] by simp_all

lemma take_number:
  assumes "p < 48 \<or> 57 < p"
  shows "take (Suc k) (dec n) @ t \<noteq> p # ps"
proof
  assume eq: "take (Suc k) (dec n) @ t = p # ps"
  have "dec n \<noteq> []" by (subst dec.simps) simp
  then obtain d ds where d: "dec n = d # ds" by (cases "dec n") auto
  then have "d \<in> {48..57}" using dec_digits [of n] by auto
  with d eq assms show False by auto
qed

lemmas find_word = take_number contains_str.simps(1) contains_str_Cons contains_str_dec contains_str_hex contains_str_number_end

end
