(* ===== verification/Xtask_Host.thy ===== *)
theory Xtask_Host
  imports Rust_Fmt
begin

text \<open>
  What the build driver (\<^verbatim>\<open>src/tools/xtask\<close>) runs on, and its choice of a toolchain (\<^verbatim>\<open>toolchain.rs\<close>).

  The driver starts other programs, works on files and prints. Each of these is an event, in the order the driver causes them;
  how the host answers is a parameter, a function of everything that happened before. A task returns with an error message or a result,
  or does not return (it panics, or waits for ever).
  Paths are Unix paths. Text of other programs is what \<^verbatim>\<open>from_utf8_lossy\<close> makes of it.
\<close>

section \<open>The host\<close>

datatype Event =
    Ran rstr "rstr list"
  | MadeDir rstr
  | CopiedFile rstr rstr
  | RemovedFile rstr
  | RemovedDir rstr
  | Said rstr

text \<open>A program could not be started, or ended with a status, success or not, its text, the output and the errors.\<close>

datatype Exit = NotStarted rstr | Exited bool rstr rstr rstr

text \<open>
  What is found at a path of the file system. A symbolic link has a length of its own and leads to something else; \<open>resolve\<close> follows it.
\<close>

datatype Node = File nat | Dir "(rstr \<times> Node) list" | Unreadable rstr | Link nat Node

primrec resolve :: "Node \<Rightarrow> Node" where
  "resolve (File len) = File len"
| "resolve (Dir entries) = Dir entries"
| "resolve (Unreadable e) = Unreadable e"
| "resolve (Link len node) = resolve node"

lemma size_resolve: "size (resolve node) \<le> size node"
  by (induction node) simp_all

text \<open>
  A virtual machine, poll by poll: what the serial log holds when it is read, and read again; whether the emulator has exited,
  successfully or not; and the time since it was started, in nanoseconds.
\<close>

record Machine =
  mc_log :: "nat \<Rightarrow> rstr"
  mc_log_again :: "nat \<Rightarrow> rstr"
  mc_try_wait :: "nat \<Rightarrow> bool option"
  mc_elapsed :: "nat \<Rightarrow> nat"

record Host =
  h_root :: rstr
  h_env :: "rstr \<Rightarrow> rstr option"
  h_windows :: bool
  h_run :: "Event list \<Rightarrow> rstr \<Rightarrow> rstr list \<Rightarrow> Exit"
  h_exists :: "Event list \<Rightarrow> rstr \<Rightarrow> bool"
  h_make_dir :: "Event list \<Rightarrow> rstr \<Rightarrow> rstr option"
  h_remove_dir :: "Event list \<Rightarrow> rstr \<Rightarrow> rstr option"
  h_remove_file :: "Event list \<Rightarrow> rstr \<Rightarrow> rstr option"
  h_copy :: "Event list \<Rightarrow> rstr \<Rightarrow> rstr \<Rightarrow> rstr option"
  h_len :: "Event list \<Rightarrow> rstr \<Rightarrow> rstr + nat"
  h_read :: "Event list \<Rightarrow> rstr \<Rightarrow> rstr + nat list"
  h_node :: "Event list \<Rightarrow> rstr \<Rightarrow> Node"
  h_spawn :: "Event list \<Rightarrow> rstr \<Rightarrow> rstr list \<Rightarrow> rstr + Machine"
  h_percent :: "nat \<Rightarrow> rstr"

section \<open>Tasks\<close>

type_synonym 'a task = "Event list \<Rightarrow> (Event list \<times> (rstr + 'a)) option"

definition t_ok :: "'a \<Rightarrow> 'a task" where
  "t_ok x events = Some (events, Inr x)"

definition t_err :: "rstr \<Rightarrow> 'a task" where
  "t_err message events = Some (events, Inl message)"

definition t_bind :: "'a task \<Rightarrow> ('a \<Rightarrow> 'b task) \<Rightarrow> 'b task" where
  "t_bind m f events = (case m events of
     None \<Rightarrow> None
   | Some (events', Inl message) \<Rightarrow> Some (events', Inl message)
   | Some (events', Inr x) \<Rightarrow> f x events')"

abbreviation t_then :: "unit task \<Rightarrow> 'b task \<Rightarrow> 'b task" where
  "t_then m n \<equiv> t_bind m (\<lambda>_. n)"

definition t_do :: "Event \<Rightarrow> unit task" where
  "t_do event events = Some (events @ [event], Inr ())"

definition t_say :: "rstr \<Rightarrow> unit task" where
  "t_say text = t_do (Said text)"

text \<open>A question to the host.\<close>

definition t_ask :: "(Event list \<Rightarrow> 'a) \<Rightarrow> 'a task" where
  "t_ask question events = Some (events, Inr (question events))"

text \<open>Arithmetic that may panic.\<close>

definition t_run :: "'a run \<Rightarrow> 'a task" where
  "t_run m events = (case m of None \<Rightarrow> None | Some x \<Rightarrow> Some (events, Inr x))"

text \<open>A file operation, and what becomes of its error.\<close>

definition t_file :: "(Event list \<Rightarrow> rstr option) \<Rightarrow> Event \<Rightarrow> (rstr \<Rightarrow> rstr) \<Rightarrow> unit task" where
  "t_file attempt event message events = (case attempt events of
     Some e \<Rightarrow> Some (events, Inl (message e))
   | None \<Rightarrow> Some (events @ [event], Inr ()))"

text \<open>A file operation whose error is ignored, \<^verbatim>\<open>let _ = ...\<close>: it is an event only if it has succeeded.\<close>

definition t_try :: "(Event list \<Rightarrow> rstr option) \<Rightarrow> Event \<Rightarrow> unit task" where
  "t_try attempt event events = Some (case attempt events of None \<Rightarrow> events @ [event] | Some e \<Rightarrow> events, Inr ())"

definition t_command :: "Host \<Rightarrow> rstr \<Rightarrow> rstr list \<Rightarrow> Exit task" where
  "t_command host binary args events = Some (events @ [Ran binary args], Inr (h_run host events binary args))"

primrec t_for :: "('x \<Rightarrow> unit task) \<Rightarrow> 'x list \<Rightarrow> unit task" where
  "t_for body [] = t_ok ()"
| "t_for body (x # xs) = t_then (body x) (t_for body xs)"

text \<open>Rules for computations that succeed.\<close>

lemma t_simps [simp]:
  "t_ok x events = Some (events, Inr x)" "t_err message events = Some (events, Inl message)"
  "t_do event events = Some (events @ [event], Inr ())" "t_ask q events = Some (events, Inr (q events))"
  "t_say text events = Some (events @ [Said text], Inr ())"
  by (simp_all add: t_ok_def t_err_def t_do_def t_ask_def t_say_def)

lemma t_try_eq [simp]:
  "t_try attempt event events = Some (events @ (if attempt events = None then [event] else []), Inr ())"
  by (simp add: t_try_def split: option.split)

lemma t_bind_simps [simp]:
  "m events = None \<Longrightarrow> t_bind m f events = None"
  "m events = Some (events', Inl e) \<Longrightarrow> t_bind m f events = Some (events', Inl e)"
  "m events = Some (events', Inr x) \<Longrightarrow> t_bind m f events = f x events'"
  by (simp_all add: t_bind_def)

lemma t_bind_InrE:
  assumes "t_bind m f events = Some (events'', Inr y)"
  obtains events' x where "m events = Some (events', Inr x)" "f x events' = Some (events'', Inr y)"
  using assms by (auto simp: t_bind_def split: option.splits prod.splits sum.splits)

lemma t_then_InrE:
  assumes "t_then m n events = Some (events'', Inr y)"
  obtains events' where "m events = Some (events', Inr ())" "n events' = Some (events'', Inr y)"
  using assms by (auto elim: t_bind_InrE)

lemma t_file_InrE:
  assumes "t_file attempt event message events = Some (events', Inr x)"
  obtains "attempt events = None" "events' = events @ [event]"
  using assms by (auto simp: t_file_def split: option.splits)

lemma t_command_eq [simp]:
  "t_command host binary args events = Some (events @ [Ran binary args], Inr (h_run host events binary args))"
  by (simp add: t_command_def)

section \<open>Text\<close>

definition join_path :: "rstr \<Rightarrow> rstr \<Rightarrow> rstr" where
  "join_path a b = a @ 47 # b"

fun join_str :: "rstr \<Rightarrow> rstr list \<Rightarrow> rstr" where
  "join_str sep [] = []"
| "join_str sep [x] = x"
| "join_str sep (x # xs) = x @ sep @ join_str sep xs"

definition is_whitespace :: "rchar \<Rightarrow> bool" where
  "is_whitespace c \<longleftrightarrow> (9 \<le> c \<and> c \<le> 13) \<or> (8192 \<le> c \<and> c \<le> 8202) \<or>
     c \<in> {32, 133, 160, 5760, 8232, 8233, 8239, 8287, 12288}"

definition trim :: "rstr \<Rightarrow> rstr" where
  "trim s = rev (dropWhile is_whitespace (rev (dropWhile is_whitespace s)))"

text \<open>The first item of \<^verbatim>\<open>split_whitespace\<close>.\<close>

definition first_token :: "rstr \<Rightarrow> rstr option" where
  "first_token s = (let t = takeWhile (\<lambda>c. \<not> is_whitespace c) (dropWhile is_whitespace s) in if t = [] then None else Some t)"

text \<open>\<^verbatim>\<open>str::lines\<close>: a line ends with a line feed, which a carriage return may precede.\<close>

definition strip_return :: "rstr \<Rightarrow> rstr" where
  "strip_return l = (if l \<noteq> [] \<and> last l = 13 then butlast l else l)"

definition lines :: "rstr \<Rightarrow> rstr list" where
  "lines s = (let parts = split_char 10 s in
     map strip_return (butlast parts) @ (if last parts = [] then [] else [last parts]))"

text \<open>\<^verbatim>\<open>u64::from_str\<close>\<close>

definition parse_u64 :: "rstr \<Rightarrow> nat option" where
  "parse_u64 s = (let digits = (if s \<noteq> [] \<and> hd s = 43 then tl s else s) in
     if digits \<noteq> [] \<and> list_all (\<lambda>c. 48 \<le> c \<and> c \<le> 57) digits \<and> dec_value digits < 2 ^ 64
     then Some (dec_value digits) else None)"

section \<open>The toolchain\<close>

definition started :: "Exit \<Rightarrow> bool" where
  "started x \<longleftrightarrow> (case x of NotStarted _ \<Rightarrow> False | Exited _ _ _ _ \<Rightarrow> True)"

definition WINDOWS_GNU_TOOLCHAIN :: rstr where
  "WINDOWS_GNU_TOOLCHAIN = str ''nightly-x86_64-pc-windows-gnu''"

definition msvc_linker_available :: "Host \<Rightarrow> bool task" where
  "msvc_linker_available host = t_bind (t_command host (str ''link.exe'') [str ''/?'']) (\<lambda>x. t_ok (started x))"

definition toolchain_installed :: "Host \<Rightarrow> rstr \<Rightarrow> bool task" where
  "toolchain_installed host name =
     t_bind (t_command host (str ''rustup'') [str ''toolchain'', str ''list'']) (\<lambda>x. case x of
       NotStarted _ \<Rightarrow> t_ok False
     | Exited _ _ stdout _ \<Rightarrow> t_ok (name \<in> set (List.map_filter first_token (lines stdout))))"

definition no_toolchain_message :: rstr where
  "no_toolchain_message =
     str ''this machine has no MSVC linker (link.exe), so the default Windows'' @ 10 #
     str ''toolchain cannot link anything, and the fallback toolchain is not installed.'' @ [10, 10] @
     str ''Either install the Visual Studio Build Tools with the C++ workload, or run:'' @ [10, 10] @
     str ''    rustup toolchain install '' @ WINDOWS_GNU_TOOLCHAIN @ str '' --profile minimal -c rust-src'' @ [10, 10] @
     str ''Set LOKO_TOOLCHAIN to override this choice.''"

definition select :: "Host \<Rightarrow> rstr option task" where
  "select host =
     (case h_env host (str ''LOKO_TOOLCHAIN'') of
        Some name \<Rightarrow> t_ok (if name = [] then None else Some name)
      | None \<Rightarrow>
          if \<not> h_windows host then t_ok None
          else t_bind (msvc_linker_available host) (\<lambda>available.
            if available then t_ok None
            else t_bind (toolchain_installed host WINDOWS_GNU_TOOLCHAIN) (\<lambda>installed.
              if \<not> installed then t_err no_toolchain_message
              else t_ok (Some WINDOWS_GNU_TOOLCHAIN))))"

text \<open>The events that choosing a toolchain appends.\<close>

lemma select_events:
  "\<exists>new r. select host events = Some (events @ new, r) \<and>
     set new \<subseteq> {Ran (str ''link.exe'') [str ''/?''], Ran (str ''rustup'') [str ''toolchain'', str ''list'']}"
proof -
  have installed: "\<exists>b. toolchain_installed host name events =
      Some (events @ [Ran (str ''rustup'') [str ''toolchain'', str ''list'']], Inr b)" for events name
    by (cases "h_run host events (str ''rustup'') [str ''toolchain'', str ''list'']") (auto simp: toolchain_installed_def)
  obtain b where b: "toolchain_installed host WINDOWS_GNU_TOOLCHAIN (events @ [Ran (str ''link.exe'') [str ''/?'']]) =
      Some ((events @ [Ran (str ''link.exe'') [str ''/?'']]) @ [Ran (str ''rustup'') [str ''toolchain'', str ''list'']], Inr b)"
    using installed by blast
  show ?thesis
    by (cases "h_env host (str ''LOKO_TOOLCHAIN'')") (auto simp: select_def msvc_linker_available_def b)
qed

end
