(* ===== verification/Kernel_Display.thy ===== *)
theory Kernel_Display
  imports Boot_Protocol
begin

text \<open>
  Drawing on the boot framebuffer, \<^verbatim>\<open>src/kernel/loko-kernel/src/framebuffer.rs\<close>. The surface is an
  argument here and memory a function from addresses to bytes; the lock around the surface is part of the console model.
\<close>

section \<open>Colours\<close>

record Colour =
  co_r :: "8 word"
  co_g :: "8 word"
  co_b :: "8 word"

definition STOP_BACKGROUND :: Colour where
  "STOP_BACKGROUND = \<lparr>co_r = 18, co_g = 24, co_b = 38\<rparr>"

definition STOP_ACCENT :: Colour where
  "STOP_ACCENT = \<lparr>co_r = 94, co_g = 148, co_b = 255\<rparr>"

definition BLACK :: Colour where
  "BLACK = \<lparr>co_r = 0, co_g = 0, co_b = 0\<rparr>"

definition to_bytes :: "Colour \<Rightarrow> PixelFormat \<Rightarrow> 8 word list" where
  "to_bytes c format = (case format of
     Bgrx8888 \<Rightarrow> [co_b c, co_g c, co_r c, 0]
   | Rgbx8888 \<Rightarrow> [co_r c, co_g c, co_b c, 0])"

section \<open>Drawing\<close>

type_synonym byte_memory = "nat \<Rightarrow> 8 word"

definition saturating_add32 :: "nat \<Rightarrow> nat \<Rightarrow> nat" where
  "saturating_add32 a b = min (a + b) (2 ^ 32 - 1)"

definition put_pixel :: "Framebuffer \<Rightarrow> nat \<Rightarrow> nat \<Rightarrow> Colour \<Rightarrow> byte_memory \<Rightarrow> byte_memory run" where
  "put_pixel surface x y colour mem = do {
     r \<leftarrow> pixel_offset surface x y;
     Ret (case r of
            None \<Rightarrow> mem
          | Some offset \<Rightarrow> copy_bytes mem (fb_base surface + offset) (to_bytes colour (fb_format surface)))
   }"

definition fill_rect :: "Framebuffer option \<Rightarrow> nat \<Rightarrow> nat \<Rightarrow> nat \<Rightarrow> nat \<Rightarrow> Colour \<Rightarrow> byte_memory \<Rightarrow> byte_memory run" where
  "fill_rect surface x y width height colour mem = (case surface of
     None \<Rightarrow> Ret mem
   | Some surface \<Rightarrow>
       run_for (\<lambda>row. run_for (\<lambda>column. put_pixel surface column row colour) [x..<saturating_add32 x width])
         [y..<saturating_add32 y height] mem)"

definition clear :: "Framebuffer option \<Rightarrow> Colour \<Rightarrow> byte_memory \<Rightarrow> byte_memory run" where
  "clear surface colour mem = (case surface of
     None \<Rightarrow> Ret mem
   | Some s \<Rightarrow> fill_rect surface 0 0 (fb_width s) (fb_height s) colour mem)"

definition stop_screen :: "Framebuffer option \<Rightarrow> byte_memory \<Rightarrow> byte_memory run" where
  "stop_screen surface mem = (case surface of
     None \<Rightarrow> Ret mem
   | Some s \<Rightarrow> do {
       mem \<leftarrow> clear surface STOP_BACKGROUND mem;
       let bar_width = fb_width s div 3;
       let bar_height = max (fb_height s div 120) 3;
       fill_rect surface ((fb_width s - bar_width) div 2) (fb_height s div 3) bar_width bar_height STOP_ACCENT mem
     })"

section \<open>What a viewer sees\<close>

text \<open>A surface on which drawing cannot overflow, whose rows do not overlap.\<close>

definition surface_ok :: "Framebuffer \<Rightarrow> bool" where
  "surface_ok fb \<longleftrightarrow> fb_width fb < 2 ^ 32 \<and> fb_stride_bytes fb < 2 ^ 32 \<and> fb_height fb < 2 ^ 31 \<and>
     4 * fb_width fb \<le> fb_stride_bytes fb \<and> fb_size fb < 2 ^ 64 - 1"

text \<open>The four bytes of a pixel, if the surface has it.\<close>

definition pixel_at :: "Framebuffer \<Rightarrow> byte_memory \<Rightarrow> nat \<Rightarrow> nat \<Rightarrow> 8 word list option" where
  "pixel_at fb mem x y = (case pixel_offset fb x y of
     Some (Some offset) \<Rightarrow> Some (map (\<lambda>i. mem (fb_base fb + offset + i)) [0..<4])
   | _ \<Rightarrow> None)"

definition in_buffer :: "Framebuffer \<Rightarrow> nat \<Rightarrow> bool" where
  "in_buffer fb p \<longleftrightarrow> fb_base fb \<le> p \<and> p < fb_base fb + fb_size fb"

text \<open>From one memory to the next exactly the pixels of \<open>R\<close> change to the colour, and nothing outside the buffer does.\<close>

definition paints :: "Framebuffer \<Rightarrow> (nat \<times> nat) set \<Rightarrow> Colour \<Rightarrow> byte_memory \<Rightarrow> byte_memory \<Rightarrow> bool" where
  "paints fb R colour mem mem' \<longleftrightarrow>
     (\<forall>x y. pixel_at fb mem' x y =
        (if (x, y) \<in> R \<and> pixel_at fb mem x y \<noteq> None then Some (to_bytes colour (fb_format fb)) else pixel_at fb mem x y)) \<and>
     (\<forall>p. \<not> in_buffer fb p \<longrightarrow> mem' p = mem p)"

lemma paints_nothing: "paints fb {} colour mem mem"
  by (simp add: paints_def)

lemma paints_more: "paints fb R colour mem mem1 \<Longrightarrow> paints fb S colour mem1 mem2 \<Longrightarrow> paints fb (R \<union> S) colour mem mem2"
  by (auto simp: paints_def)

lemma length_to_bytes [simp]: "length (to_bytes colour format) = 4"
  by (cases format) (simp_all add: to_bytes_def)

lemma pixel_at_None: "pixel_at fb mem x y = None \<longleftrightarrow> (\<nexists>offset. pixel_offset fb x y = Ret (Some offset))"
  by (auto simp: pixel_at_def split: option.splits)

lemma put_pixel_paints:
  assumes ok: "surface_ok fb"
  shows "\<exists>mem'. put_pixel fb x y colour mem = Ret mem' \<and> paints fb {(x, y)} colour mem mem'"
proof -
  have "pixel_offset fb x y \<noteq> Panic" using ok by (intro pixel_offset_returns) (simp_all add: surface_ok_def)
  then consider "pixel_offset fb x y = Ret None" | a where "pixel_offset fb x y = Ret (Some a)"
    by (metis option.exhaust)
  then show ?thesis
  proof cases
    case 1
    then show ?thesis by (auto simp: put_pixel_def paints_def pixel_at_None)
  next
    case (2 a)
    let ?bytes = "to_bytes colour (fb_format fb)"
    let ?mem = "copy_bytes mem (fb_base fb + a) ?bytes"
    have same: "pixel_at fb ?mem x y = Some ?bytes"
      using 2 by (simp add: pixel_at_def copy_bytes_def numeral_eq_Suc to_bytes_def split: PixelFormat.splits)
    have other: "pixel_at fb ?mem x' y' = pixel_at fb mem x' y'" if "(x', y') \<noteq> (x, y)" for x' y'
    proof (cases "\<exists>b. pixel_offset fb x' y' = Ret (Some b)")
      case True
      then obtain b where b: "pixel_offset fb x' y' = Ret (Some b)" by blast
      have "a + 4 \<le> b \<or> b + 4 \<le> a"
        using pixel_offset_disjoint [OF _ 2 b] that ok by (auto simp: surface_ok_def)
      then have "\<forall>i < 4. ?mem (fb_base fb + b + i) = mem (fb_base fb + b + i)" by (auto simp: copy_bytes_def)
      then show ?thesis using b by (simp add: pixel_at_def)
    next
      case False
      then show ?thesis using pixel_at_None by metis
    qed
    have "a + 4 \<le> fb_size fb"
      using 2 ok by (auto simp: pixel_offset_eq surface_ok_def saturating_add64_def min_def split: if_splits)
    then have "\<not> in_buffer fb p \<longrightarrow> ?mem p = mem p" for p by (auto simp: copy_bytes_def in_buffer_def)
    moreover have "pixel_at fb mem x y \<noteq> None" using 2 by (auto simp: pixel_at_None)
    ultimately have "paints fb {(x, y)} colour mem ?mem" using same other by (auto simp: paints_def)
    then show ?thesis using 2 by (simp add: put_pixel_def)
  qed
qed

text \<open>A loop whose steps paint paints the union.\<close>

lemma run_for_paints:
  assumes "\<And>i mem. i \<in> set xs \<Longrightarrow> \<exists>mem'. body i mem = Ret mem' \<and> paints fb (R i) colour mem mem'"
  shows "\<exists>mem'. run_for body xs mem = Ret mem' \<and> paints fb (\<Union>i \<in> set xs. R i) colour mem mem'"
  using assms
proof (induction xs arbitrary: mem)
  case (Cons i xs)
  obtain mem1 where 1: "body i mem = Ret mem1" "paints fb (R i) colour mem mem1" using Cons.prems by auto
  have "\<exists>mem'. run_for body xs mem1 = Ret mem' \<and> paints fb (\<Union>i \<in> set xs. R i) colour mem1 mem'"
    by (rule Cons.IH) (use Cons.prems in simp)
  then obtain mem2 where 2: "run_for body xs mem1 = Ret mem2" "paints fb (\<Union>i \<in> set xs. R i) colour mem1 mem2"
    by blast
  show ?case using 1 2 paints_more [OF 1(2) 2(2)] by simp
qed (simp add: paints_nothing)

definition rectangle :: "nat \<Rightarrow> nat \<Rightarrow> nat \<Rightarrow> nat \<Rightarrow> (nat \<times> nat) set" where
  "rectangle x y width height = {x..<x + width} \<times> {y..<y + height}"

lemma fill_rect_paints:
  assumes ok: "surface_ok fb"
  shows "\<exists>mem'. fill_rect (Some fb) x y width height colour mem = Ret mem' \<and>
    paints fb (rectangle x y width height) colour mem mem'"
proof -
  let ?columns = "[x..<saturating_add32 x width]" and ?rows = "[y..<saturating_add32 y height]"
  have row: "\<exists>mem'. run_for (\<lambda>column. put_pixel fb column row colour) ?columns mem = Ret mem' \<and>
      paints fb (\<Union>column \<in> set ?columns. {(column, row)}) colour mem mem'" for row mem
    by (rule run_for_paints) (rule put_pixel_paints [OF ok])
  have "\<exists>mem'. run_for (\<lambda>row. run_for (\<lambda>column. put_pixel fb column row colour) ?columns) ?rows mem = Ret mem' \<and>
      paints fb (\<Union>row \<in> set ?rows. \<Union>column \<in> set ?columns. {(column, row)}) colour mem mem'"
    by (rule run_for_paints) (rule row)
  moreover have "paints fb (\<Union>row \<in> set ?rows. \<Union>column \<in> set ?columns. {(column, row)}) colour mem mem' \<Longrightarrow>
      paints fb (rectangle x y width height) colour mem mem'" for mem'
  proof -
    have none: "pixel_at fb mem a b = None" if "2 ^ 32 - 1 \<le> a \<or> 2 ^ 32 - 1 \<le> b" for a b
      using that ok by (auto simp: pixel_at_None pixel_offset_eq surface_ok_def)
    have "(a, b) \<in> (\<Union>row \<in> set ?rows. \<Union>column \<in> set ?columns. {(column, row)}) \<longleftrightarrow> (a, b) \<in> rectangle x y width height"
      if "pixel_at fb mem a b \<noteq> None" for a b
    proof -
      have "a < 2 ^ 32 - 1" "b < 2 ^ 32 - 1" using none that not_le by metis+
      then show ?thesis by (auto simp: rectangle_def saturating_add32_def)
    qed
    then show "paints fb (\<Union>row \<in> set ?rows. \<Union>column \<in> set ?columns. {(column, row)}) colour mem mem' \<Longrightarrow>
      paints fb (rectangle x y width height) colour mem mem'" unfolding paints_def by metis
  qed
  ultimately show ?thesis by (auto simp: fill_rect_def)
qed

lemma clear_paints:
  assumes "surface_ok fb"
  shows "\<exists>mem'. clear (Some fb) colour mem = Ret mem' \<and> paints fb UNIV colour mem mem'"
proof -
  have "pixel_at fb mem x y = None" if "(x, y) \<notin> rectangle 0 0 (fb_width fb) (fb_height fb)" for x y
    using that by (auto simp: rectangle_def pixel_at_None pixel_offset_eq)
  then have "paints fb (rectangle 0 0 (fb_width fb) (fb_height fb)) colour mem mem' \<Longrightarrow> paints fb UNIV colour mem mem'" for mem'
    unfolding paints_def by (metis UNIV_I)
  then show ?thesis using fill_rect_paints [OF assms, of 0 0 "fb_width fb" "fb_height fb" colour mem]
    by (auto simp: clear_def)
qed

definition stop_bar :: "Framebuffer \<Rightarrow> (nat \<times> nat) set" where
  "stop_bar fb = rectangle ((fb_width fb - fb_width fb div 3) div 2) (fb_height fb div 3)
     (fb_width fb div 3) (max (fb_height fb div 120) 3)"

lemma stop_screen_paints:
  assumes "surface_ok fb"
  shows "\<exists>mem'. stop_screen (Some fb) mem = Ret mem' \<and>
    (\<forall>x y. pixel_at fb mem' x y =
       (if pixel_at fb mem x y = None then None
        else Some (to_bytes (if (x, y) \<in> stop_bar fb then STOP_ACCENT else STOP_BACKGROUND) (fb_format fb)))) \<and>
    (\<forall>p. \<not> in_buffer fb p \<longrightarrow> mem' p = mem p)"
proof -
  obtain mem1 where 1: "clear (Some fb) STOP_BACKGROUND mem = Ret mem1" "paints fb UNIV STOP_BACKGROUND mem mem1"
    using clear_paints [OF assms] by blast
  obtain mem2 where 2: "fill_rect (Some fb) ((fb_width fb - fb_width fb div 3) div 2) (fb_height fb div 3)
      (fb_width fb div 3) (max (fb_height fb div 120) 3) STOP_ACCENT mem1 = Ret mem2"
      "paints fb (stop_bar fb) STOP_ACCENT mem1 mem2"
    using fill_rect_paints [OF assms] unfolding stop_bar_def by blast
  have "stop_screen (Some fb) mem = Ret mem2" using 1(1) 2(1) by (simp add: stop_screen_def Let_def)
  then show ?thesis using 1(2) 2(2) unfolding paints_def by (intro exI [of _ mem2]) auto
qed

text \<open>
  The stop screen always appears. On every surface with fewer than \<open>2 ^ 31\<close> rows and rows that do not overlap,
  painting it never panics; afterwards every pixel has the background colour, except for those of the accent bar,
  and no byte outside the buffer has changed.
\<close>

theorem stop_screen_exact:
  assumes "surface_ok fb"
  shows "\<exists>mem'. stop_screen (Some fb) mem = Ret mem' \<and>
    (\<forall>x y. pixel_at fb mem' x y =
       (if pixel_at fb mem x y = None then None
        else Some (to_bytes (if (x, y) \<in> stop_bar fb then STOP_ACCENT else STOP_BACKGROUND) (fb_format fb)))) \<and>
    (\<forall>p. \<not> in_buffer fb p \<longrightarrow> mem' p = mem p)"
  by (rule stop_screen_paints [OF assms])

theorem stop_screen_exact_witness:
  "\<exists>mem'. stop_screen (Some full_hd) (\<lambda>p. 255) = Ret mem' \<and>
    pixel_at full_hd mem' 0 0 = Some [38, 24, 18, 0] \<and> pixel_at full_hd mem' 960 361 = Some [255, 148, 94, 0]"
proof -
  have ok: "surface_ok full_hd" by (simp add: surface_ok_def full_hd_def)
  have o: "pixel_offset full_hd 0 0 = Ret (Some 0)" "pixel_offset full_hd 960 361 = Ret (Some 2776320)"
    by (simp_all add: pixel_offset_eq saturating_add64_def full_hd_def)
  have bar: "(0, 0) \<notin> stop_bar full_hd" "(960, 361) \<in> stop_bar full_hd"
    by (simp_all add: stop_bar_def rectangle_def full_hd_def)
  obtain mem' where "stop_screen (Some full_hd) (\<lambda>p. 255) = Ret mem'"
    "\<forall>x y. pixel_at full_hd mem' x y =
       (if pixel_at full_hd (\<lambda>p. 255) x y = None then None
        else Some (to_bytes (if (x, y) \<in> stop_bar full_hd then STOP_ACCENT else STOP_BACKGROUND) (fb_format full_hd)))"
    using stop_screen_exact [OF ok] by blast
  moreover have "pixel_at full_hd (\<lambda>p. 255) 0 0 \<noteq> None" "pixel_at full_hd (\<lambda>p. 255) 960 361 \<noteq> None"
    using o by (auto simp: pixel_at_None)
  ultimately show ?thesis
    using bar by (auto simp: to_bytes_def STOP_BACKGROUND_def STOP_ACCENT_def full_hd_def)
qed

end
