(* ===== verification/Kernel_Console.thy ===== *)
theory Kernel_Console
  imports Kernel_Display Kernel_Memory Rust_Fmt
begin

text \<open>
  The kernel's output and the ways it stops: the log (\<^verbatim>\<open>log.rs\<close>), the serial port
  (\<^verbatim>\<open>serial.rs\<close>), the lock around the surface (\<^verbatim>\<open>framebuffer.rs\<close>), the stop screen
  and the panic handler (\<^verbatim>\<open>main.rs\<close>), the exception handlers (\<^verbatim>\<open>arch/idt.rs\<close>) and the
  allocation-failure handler (\<^verbatim>\<open>heap.rs\<close>), all under \<^verbatim>\<open>src/kernel/loko-kernel/src\<close>.

  The two spin locks are part of the state. Kernel code runs on one processor, so a lock is free whenever code
  that is not inside it runs; a fault or a panic can strike inside it, and a handler that takes it then spins forever.
  The serial device is the text sent to it; that it takes bytes is the \<^verbatim>\<open>uart_16550\<close> crate's business.
\<close>

section \<open>State and outcomes\<close>

record Console =
  cs_port :: bool
  cs_serial_held :: bool
  cs_level :: nat
  cs_output :: rstr
  cs_surface :: "Framebuffer option"
  cs_surface_held :: bool
  cs_screen :: byte_memory

text \<open>
  Code returns, panics, spins on a lock that is never released, or halts the processor. A computation that panics leaves
  the locks it holds locked: \<^verbatim>\<open>panic = "abort"\<close> does not unwind.
\<close>

datatype 'a outcome = Runs 'a Console | Panics Console | Spins Console | Halts Console

type_synonym 'a kernel = "Console \<Rightarrow> 'a outcome"

definition return :: "'a \<Rightarrow> 'a kernel" where
  "return x c = Runs x c"

definition seq :: "'a kernel \<Rightarrow> ('a \<Rightarrow> 'b kernel) \<Rightarrow> 'b kernel" where
  "seq m f c = (case m c of
     Runs x c' \<Rightarrow> f x c'
   | Panics c' \<Rightarrow> Panics c'
   | Spins c' \<Rightarrow> Spins c'
   | Halts c' \<Rightarrow> Halts c')"

abbreviation then_do :: "unit kernel \<Rightarrow> 'b kernel \<Rightarrow> 'b kernel" where
  "then_do m n \<equiv> seq m (\<lambda>_. n)"

text \<open>Arithmetic that may panic, outside every lock.\<close>

definition lift :: "'a run \<Rightarrow> 'a kernel" where
  "lift m c = (case m of Some x \<Rightarrow> Runs x c | None \<Rightarrow> Panics c)"

section \<open>The serial port\<close>

definition serial_init :: "unit kernel" where
  "serial_init c = (if cs_serial_held c then Spins c else Runs () (c\<lparr>cs_port := True\<rparr>))"

definition write_fmt :: "rstr \<Rightarrow> unit kernel" where
  "write_fmt args c =
     (if cs_serial_held c then Spins c
      else Runs () (if cs_port c then c\<lparr>cs_output := cs_output c @ args\<rparr> else c))"

definition write_fmt_unlocked :: "rstr \<Rightarrow> unit kernel" where
  "write_fmt_unlocked args c = Runs () (c\<lparr>cs_output := cs_output c @ args\<rparr>)"

section \<open>The log\<close>

definition set_level :: "Level \<Rightarrow> unit kernel" where
  "set_level level c = Runs () (c\<lparr>cs_level := Level_code level\<rparr>)"

definition log_line :: "Level \<Rightarrow> rstr \<Rightarrow> rstr \<Rightarrow> rstr" where
  "log_line level subsystem args =
     str ''['' @ Level_tag level @ str ''] '' @ pad_right 10 subsystem @ str '' '' @ args @ [10]"

definition emit :: "Level \<Rightarrow> rstr \<Rightarrow> rstr \<Rightarrow> unit kernel" where
  "emit level subsystem args = write_fmt (log_line level subsystem args)"

definition log :: "Level \<Rightarrow> rstr \<Rightarrow> rstr \<Rightarrow> unit kernel" where
  "log level subsystem args c = (if enabled (cs_level c) level then emit level subsystem args c else Runs () c)"

definition info :: "string \<Rightarrow> rstr \<Rightarrow> unit kernel" where
  "info subsystem args = log Level.Info (str subsystem) args"

definition warn :: "string \<Rightarrow> rstr \<Rightarrow> unit kernel" where
  "warn subsystem args = log Level.Warn (str subsystem) args"

definition error :: "string \<Rightarrow> rstr \<Rightarrow> unit kernel" where
  "error subsystem args = log Level.Error (str subsystem) args"

definition debug :: "string \<Rightarrow> rstr \<Rightarrow> unit kernel" where
  "debug subsystem args = log Level.Debug (str subsystem) args"

section \<open>Stopping\<close>

text \<open>\<^verbatim>\<open>framebuffer::init\<close>, which takes the surface's lock.\<close>

definition framebuffer_record :: "Framebuffer \<Rightarrow> unit kernel" where
  "framebuffer_record framebuffer c =
     (if \<not> is_present framebuffer then Runs () c
      else if cs_surface_held c then Spins c
      else Runs () (c\<lparr>cs_surface := Some framebuffer\<rparr>))"

definition is_available :: "bool kernel" where
  "is_available c = (if cs_surface_held c then Spins c else Runs (cs_surface c \<noteq> None) c)"

text \<open>
  The stop screen, behind the surface's lock. A panic while it is drawn strikes inside \<^verbatim>\<open>fill_rect\<close> and leaves
  the lock held; what was drawn until then is not recorded.
\<close>

definition paint_stop_screen :: "unit kernel" where
  "paint_stop_screen c =
     (if cs_surface_held c then Spins c
      else case stop_screen (cs_surface c) (cs_screen c) of
        None \<Rightarrow> Panics (c\<lparr>cs_surface_held := True\<rparr>)
      | Some screen \<Rightarrow> Runs () (c\<lparr>cs_screen := screen\<rparr>))"

definition halt_forever :: "'a kernel" where
  "halt_forever c = Halts c"

definition stopped_text :: "rstr \<Rightarrow> rstr" where
  "stopped_text message = 10 # str ''*** LokoOS stopped ***'' @ 10 # message @ [10]"

definition panic_screen :: "rstr \<Rightarrow> 'a kernel" where
  "panic_screen message =
     then_do (write_fmt_unlocked (stopped_text message)) (then_do paint_stop_screen halt_forever)"

definition fail :: "rstr \<Rightarrow> 'a kernel" where
  "fail message = then_do (error ''boot'' message) (panic_screen message)"

text \<open>\<open>what\<close> is how the panic describes itself.\<close>

definition on_panic :: "rstr \<Rightarrow> 'a kernel" where
  "on_panic what =
     then_do (write_fmt_unlocked (10 # str ''*** LokoOS kernel panic ***'' @ 10 # what @ [10]))
       (then_do paint_stop_screen halt_forever)"

text \<open>A panic runs the panic handler, and so does a panic inside the handler.\<close>

definition handled :: "rstr \<Rightarrow> 'a kernel \<Rightarrow> 'a kernel" where
  "handled what m c = (case m c of
     Panics c' \<Rightarrow> (case on_panic what c' of Panics c'' \<Rightarrow> on_panic what c'' | r \<Rightarrow> r)
   | r \<Rightarrow> r)"

section \<open>Exceptions\<close>

text \<open>
  The handlers of the interrupt descriptor table. \<open>ip\<close> is the address of the instruction, the other texts are
  the debug representations the \<^verbatim>\<open>x86_64\<close> crate prints.
\<close>

datatype Exception =
    DivideError | DebugException | InvalidOpcode | NonMaskableInterrupt | GeneralProtection nat
  | PageFault bool rstr rstr | DoubleFault

fun handle_exception :: "nat \<Rightarrow> Exception \<Rightarrow> unit kernel" where
  "handle_exception ip DivideError =
       then_do (error ''cpu'' (str ''divide error at '' @ hex ip))
         (panic_screen (str ''LokoOS stopped because a program divided by zero inside the system.''))"
| "handle_exception ip DebugException = error ''cpu'' (str ''unexpected debug exception at '' @ hex ip)"
| "handle_exception ip InvalidOpcode =
       then_do (error ''cpu'' (str ''invalid opcode at '' @ hex ip))
         (panic_screen (str ''LokoOS stopped because it tried to run an instruction this processor doesn't support.''))"
| "handle_exception ip NonMaskableInterrupt =
       then_do (error ''cpu'' (str ''non-maskable interrupt at '' @ hex ip))
         (panic_screen (str ''LokoOS stopped because this device's hardware reported a fault.''))"
| "handle_exception ip (GeneralProtection code) =
       then_do (error ''cpu'' (str ''general protection fault at '' @ hex ip @ str '', selector '' @ hex code))
         (panic_screen (str ''LokoOS stopped because a program tried to do something it isn't allowed to do.''))"
| "handle_exception ip (PageFault user address cause) =
       then_do (error ''memory'' (str ''page fault accessing '' @ address @ str '' at '' @ hex ip @ str '', cause '' @ cause))
         (if user
          then panic_screen (str ''LokoOS stopped an app that tried to use memory that isn't its own.'')
          else panic_screen (str ''LokoOS stopped because of a problem with this device's memory.''))"
| "handle_exception ip DoubleFault =
       then_do (error ''cpu'' (str ''double fault at '' @ hex ip))
         (panic_screen (str ''LokoOS stopped because it ran into a problem it couldn't recover from.''))"

definition on_allocation_failure :: "nat \<Rightarrow> nat \<Rightarrow> nat \<Rightarrow> unit kernel" where
  "on_allocation_failure bytes align_to left =
     then_do (error ''heap''
         (str ''allocation of '' @ dec bytes @ str '' bytes (align '' @ dec align_to @ str '') failed; '' @
          dec left @ str '' of '' @ dec HEAP_SIZE @ str '' bytes free''))
       (panic_screen (str ''LokoOS ran out of memory and had to stop.''))"

section \<open>Rules\<close>

lemma seq_Runs [simp]: "m c = Runs x c' \<Longrightarrow> seq m f c = f x c'"
  by (simp add: seq_def)

lemma seq_Spins [simp]: "m c = Spins c' \<Longrightarrow> seq m f c = Spins c'"
  by (simp add: seq_def)

lemma seq_Panics [simp]: "m c = Panics c' \<Longrightarrow> seq m f c = Panics c'"
  by (simp add: seq_def)

lemma seq_Halts [simp]: "m c = Halts c' \<Longrightarrow> seq m f c = Halts c'"
  by (simp add: seq_def)

text \<open>The console while no lock is held, and with a screen that can be painted.\<close>

definition console_free :: "Console \<Rightarrow> bool" where
  "console_free c \<longleftrightarrow> \<not> cs_serial_held c \<and> \<not> cs_surface_held c"

definition screen_ok :: "Console \<Rightarrow> bool" where
  "screen_ok c \<longleftrightarrow> (\<forall>fb. cs_surface c = Some fb \<longrightarrow> surface_ok fb)"

definition printed :: "Console \<Rightarrow> rstr \<Rightarrow> Console" where
  "printed c text = c\<lparr>cs_output := cs_output c @ text\<rparr>"

lemma printed_simps [simp]:
  "cs_output (printed c text) = cs_output c @ text" "cs_port (printed c text) = cs_port c"
  "cs_serial_held (printed c text) = cs_serial_held c" "cs_level (printed c text) = cs_level c"
  "cs_surface (printed c text) = cs_surface c" "cs_surface_held (printed c text) = cs_surface_held c"
  "cs_screen (printed c text) = cs_screen c" "console_free (printed c text) = console_free c"
  "screen_ok (printed c text) = screen_ok c" "printed (printed c text) rest = printed c (text @ rest)"
  by (simp_all add: printed_def console_free_def screen_ok_def)

lemma log_Runs:
  assumes "console_free c" "cs_port c" "cs_level c \<le> 2" "level \<in> {Level.Info, Level.Warn, Level.Error}"
  shows "log level subsystem args c = Runs () (printed c (log_line level subsystem args))"
  using assms by (auto simp: log_def emit_def write_fmt_def enabled_def printed_def console_free_def)

lemma paint_stop_screen_Runs:
  assumes "console_free c" "screen_ok c"
  shows "\<exists>screen. stop_screen (cs_surface c) (cs_screen c) = Ret screen \<and>
    paint_stop_screen c = Runs () (c\<lparr>cs_screen := screen\<rparr>)"
proof (cases "cs_surface c")
  case None
  then show ?thesis using assms(1) by (simp add: paint_stop_screen_def console_free_def stop_screen_def)
next
  case (Some fb)
  then have "surface_ok fb" using assms(2) by (simp add: screen_ok_def)
  then obtain screen where "stop_screen (cs_surface c) (cs_screen c) = Ret screen"
    using stop_screen_paints [of fb "cs_screen c"] Some by auto
  then show ?thesis using assms(1) by (simp add: paint_stop_screen_def console_free_def)
qed

lemma panic_screen_eq:
  "panic_screen message c =
     (if cs_surface_held c then Spins (printed c (stopped_text message))
      else case stop_screen (cs_surface c) (cs_screen c) of
        None \<Rightarrow> Panics ((printed c (stopped_text message))\<lparr>cs_surface_held := True\<rparr>)
      | Some screen \<Rightarrow> Halts ((printed c (stopped_text message))\<lparr>cs_screen := screen\<rparr>))"
  by (simp add: panic_screen_def seq_def write_fmt_unlocked_def paint_stop_screen_def halt_forever_def printed_def
    split: option.split)

lemma error_then_stop:
  assumes "cs_level c \<le> 4"
  shows "then_do (error subsystem args) (panic_screen message) c =
    (if cs_serial_held c then Spins c
     else panic_screen message (if cs_port c then printed c (log_line Level.Error (str subsystem) args) else c))"
  using assms by (simp add: error_def log_def emit_def write_fmt_def enabled_def seq_def printed_def)

section \<open>The machine stops\<close>

fun exception_line :: "nat \<Rightarrow> Exception \<Rightarrow> rstr" where
  "exception_line ip DivideError = log_line Level.Error (str ''cpu'') (str ''divide error at '' @ hex ip)"
| "exception_line ip DebugException = log_line Level.Error (str ''cpu'') (str ''unexpected debug exception at '' @ hex ip)"
| "exception_line ip InvalidOpcode = log_line Level.Error (str ''cpu'') (str ''invalid opcode at '' @ hex ip)"
| "exception_line ip NonMaskableInterrupt = log_line Level.Error (str ''cpu'') (str ''non-maskable interrupt at '' @ hex ip)"
| "exception_line ip (GeneralProtection code) = log_line Level.Error (str ''cpu'')
       (str ''general protection fault at '' @ hex ip @ str '', selector '' @ hex code)"
| "exception_line ip (PageFault user address cause) = log_line Level.Error (str ''memory'')
       (str ''page fault accessing '' @ address @ str '' at '' @ hex ip @ str '', cause '' @ cause)"
| "exception_line ip DoubleFault = log_line Level.Error (str ''cpu'') (str ''double fault at '' @ hex ip)"

text \<open>What the user is told of a fault.\<close>

definition fault_messages :: "rstr list" where
  "fault_messages = map str
     [''LokoOS stopped because a program divided by zero inside the system.'',
      ''LokoOS stopped because it tried to run an instruction this processor doesn't support.'',
      ''LokoOS stopped because this device's hardware reported a fault.'',
      ''LokoOS stopped because a program tried to do something it isn't allowed to do.'',
      ''LokoOS stopped an app that tried to use memory that isn't its own.'',
      ''LokoOS stopped because of a problem with this device's memory.'',
      ''LokoOS stopped because it ran into a problem it couldn't recover from.'']"

lemma fault_messages_start: "message \<in> set fault_messages \<Longrightarrow> starts_with message (str ''LokoOS stopped '')"
  by (auto simp: fault_messages_def starts_with_def str_def)

definition reports_and_stops :: "nat \<Rightarrow> Exception \<Rightarrow> bool" where
  "reports_and_stops ip e \<longleftrightarrow> (\<exists>message subsystem args. message \<in> set fault_messages \<and>
     exception_line ip e = log_line Level.Error (str subsystem) args \<and>
     handle_exception ip e = then_do (error subsystem args) (panic_screen message))"

lemma reports_and_stopsI:
  "message \<in> set fault_messages \<Longrightarrow> exception_line ip e = log_line Level.Error (str subsystem) args \<Longrightarrow>
   handle_exception ip e = then_do (error subsystem args) (panic_screen message) \<Longrightarrow> reports_and_stops ip e"
  unfolding reports_and_stops_def by blast

lemma exception_reports:
  assumes "e \<noteq> DebugException"
  shows "reports_and_stops ip e"
proof -
  note eqs = handle_exception.simps(1,3,4,5,7) handle_exception.simps(6) [of ip True, unfolded if_True]
    handle_exception.simps(6) [of ip False, unfolded if_False]
  have "\<forall>u \<in> {True, False}. reports_and_stops ip (PageFault u address cause)" for address cause
    by (intro ballI, elim insertE emptyE; hypsubst; rule reports_and_stopsI [OF _ _ eqs(6)] reports_and_stopsI [OF _ _ eqs(7)];
        simp add: fault_messages_def)
  then have fault: "reports_and_stops ip (PageFault user address cause)" for user address cause by (cases user) simp_all
  show ?thesis
  proof (cases e)
    case DivideError
    show ?thesis unfolding DivideError by (rule reports_and_stopsI [OF _ _ eqs(1)]) (simp_all add: fault_messages_def)
  next
    case InvalidOpcode
    show ?thesis unfolding InvalidOpcode by (rule reports_and_stopsI [OF _ _ eqs(2)]) (simp_all add: fault_messages_def)
  next
    case NonMaskableInterrupt
    show ?thesis unfolding NonMaskableInterrupt by (rule reports_and_stopsI [OF _ _ eqs(3)]) (simp_all add: fault_messages_def)
  next
    case (GeneralProtection code)
    show ?thesis unfolding GeneralProtection by (rule reports_and_stopsI [OF _ _ eqs(4)]) (simp_all add: fault_messages_def)
  next
    case DoubleFault
    show ?thesis unfolding DoubleFault by (rule reports_and_stopsI [OF _ _ eqs(5)]) (simp_all add: fault_messages_def)
  next
    case (PageFault user address cause)
    show ?thesis unfolding PageFault by (rule fault)
  qed (use assms in simp)
qed

lemma handle_exception_stops:
  assumes "e \<noteq> DebugException" "cs_level c \<le> 4"
  shows "\<exists>message. message \<in> set fault_messages \<and> handle_exception ip e c =
    (if cs_serial_held c then Spins c
     else panic_screen message (if cs_port c then printed c (exception_line ip e) else c))"
proof -
  obtain message subsystem args where r: "message \<in> set fault_messages"
    "exception_line ip e = log_line Level.Error (str subsystem) args"
    "handle_exception ip e = then_do (error subsystem args) (panic_screen message)"
    using exception_reports [OF assms(1), of ip] unfolding reports_and_stops_def by blast
  then show ?thesis by (intro exI [of _ message]) (simp add: error_then_stop [OF assms(2)])
qed

text \<open>
  C18. A processor exception is never survived. With no lock held, any exception other than a debug exception ends in a halted
  machine whose serial output has grown by the description of the fault and a message for the user, behind the
  marker of a stop, and whose screen shows the stop screen. If it strikes inside the serial port's critical section, the handler
  spins on the lock and nothing at all is reported; this holds for the double-fault handler too.
\<close>

theorem exceptions_stop:
  assumes "e \<noteq> DebugException" "cs_port c" "cs_level c \<le> 4"
  shows "(console_free c \<and> screen_ok c \<longrightarrow> (\<exists>message screen. starts_with message (str ''LokoOS stopped '') \<and>
       stop_screen (cs_surface c) (cs_screen c) = Ret screen \<and>
       handle_exception ip e c = Halts (c\<lparr>cs_screen := screen,
         cs_output := cs_output c @ exception_line ip e @ stopped_text message\<rparr>))) \<and>
    (cs_serial_held c \<longrightarrow> handle_exception ip e c = Spins c) \<and>
    (\<forall>c'. handle_exception ip e c \<noteq> Runs () c')"
proof -
  obtain message where "message \<in> set fault_messages" and stop: "handle_exception ip e c =
      (if cs_serial_held c then Spins c else panic_screen message (printed c (exception_line ip e)))"
    using handle_exception_stops [OF assms(1,3), of ip] assms(2) by auto
  note m = fault_messages_start [OF this(1)] stop
  have "\<exists>message screen. starts_with message (str ''LokoOS stopped '') \<and>
       stop_screen (cs_surface c) (cs_screen c) = Ret screen \<and>
       handle_exception ip e c = Halts (c\<lparr>cs_screen := screen,
         cs_output := cs_output c @ exception_line ip e @ stopped_text message\<rparr>)" if ok: "console_free c" "screen_ok c"
  proof -
    obtain screen where "stop_screen (cs_surface c) (cs_screen c) = Ret screen"
      using paint_stop_screen_Runs [OF ok] by blast
    then show ?thesis
      using m ok
      by (intro exI [of _ message] exI [of _ screen]) (simp add: panic_screen_eq console_free_def printed_def)
  qed
  moreover have "handle_exception ip e c \<noteq> Runs () c'" for c'
    using m(2) by (simp add: panic_screen_eq split: option.split)
  ultimately show ?thesis using m(2) by simp
qed

text \<open>A console as the kernel leaves it after \<^verbatim>\<open>serial::init\<close>, with nothing printed.\<close>

definition quiet :: Console where
  "quiet = \<lparr>cs_port = True, cs_serial_held = False, cs_level = 2, cs_output = [], cs_surface = Some full_hd,
     cs_surface_held = False, cs_screen = (\<lambda>p. 0)\<rparr>"

theorem exceptions_stop_witness:
  "handle_exception 0x1000 DoubleFault (quiet\<lparr>cs_serial_held := True\<rparr>) = Spins (quiet\<lparr>cs_serial_held := True\<rparr>) \<and>
   (\<exists>c. handle_exception 0x1000 DoubleFault quiet = Halts c)"
proof -
  have e: "DoubleFault \<noteq> DebugException" by simp
  have q: "cs_port quiet" "cs_level quiet \<le> 4" "console_free quiet" "screen_ok quiet"
    by (simp_all add: quiet_def console_free_def screen_ok_def surface_ok_def full_hd_def)
  have h: "cs_port (quiet\<lparr>cs_serial_held := True\<rparr>)" "cs_level (quiet\<lparr>cs_serial_held := True\<rparr>) \<le> 4"
    by (simp_all add: quiet_def)
  show ?thesis using exceptions_stop [OF e q(1,2), of "0x1000"] exceptions_stop [OF e h, of "0x1000"] q(3,4) by auto
qed

text \<open>
  A panic is always reported, whatever the kernel was doing. Every computation that panics ends in the
  panic handler, which first prints the panic on the serial port, bypassing its lock, and then stops: the machine halts, or, if the panic
  struck while the surface's lock was held, spins on that lock. It never returns and never panics again.
\<close>

theorem panics_reported:
  assumes "m c = Panics c'"
  shows "\<exists>c''. (handled what m c = Halts c'' \<or> handled what m c = Spins c'') \<and>
    (\<exists>rest. cs_output c'' = cs_output c' @ 10 # str ''*** LokoOS kernel panic ***'' @ 10 # what @ 10 # rest) \<and>
    (cs_surface_held c' \<longrightarrow> handled what m c = Spins c'') \<and>
    (\<not> cs_surface_held c' \<and> screen_ok c' \<longrightarrow> handled what m c = Halts c'')"
proof -
  let ?text = "10 # str ''*** LokoOS kernel panic ***'' @ 10 # what @ [10]"
  have p: "on_panic what c = (if cs_surface_held c then Spins (printed c ?text)
      else case stop_screen (cs_surface c) (cs_screen c) of
        None \<Rightarrow> Panics ((printed c ?text)\<lparr>cs_surface_held := True\<rparr>)
      | Some screen \<Rightarrow> Halts ((printed c ?text)\<lparr>cs_screen := screen\<rparr>))" for c
    by (simp add: on_panic_def seq_def write_fmt_unlocked_def paint_stop_screen_def halt_forever_def printed_def
      split: option.split)
  show ?thesis
  proof (cases "cs_surface_held c'")
    case True
    then show ?thesis using assms by (simp add: handled_def p)
  next
    case False
    show ?thesis
    proof (cases "stop_screen (cs_surface c') (cs_screen c')")
      case None
      then have "\<not> screen_ok c'"
        using paint_stop_screen_Runs [of "c'\<lparr>cs_serial_held := False\<rparr>"] False
        by (auto simp: console_free_def screen_ok_def)
      then show ?thesis using assms False None by (simp add: handled_def p printed_def)
    next
      case (Some screen)
      then show ?thesis using assms False by (simp add: handled_def p)
    qed
  qed
qed

theorem panics_reported_witness:
  "\<exists>c''. handled [] (lift (add64 (2 ^ 63) (2 ^ 63)) :: nat kernel) quiet = Halts c''"
proof -
  have p: "(lift (add64 (2 ^ 63) (2 ^ 63)) :: nat kernel) quiet = Panics quiet"
    by (simp add: lift_def add64_def)
  have "\<not> cs_surface_held quiet" "screen_ok quiet" by (simp_all add: quiet_def screen_ok_def surface_ok_def full_hd_def)
  then show ?thesis using panics_reported [where m = "lift (add64 (2 ^ 63) (2 ^ 63)) :: nat kernel" and c = quiet, OF p, of "[]"] by blast
qed

end
