(* ===== verification/Kernel_Entry.thy ===== *)
theory Kernel_Entry
  imports Kernel_Console
begin

text \<open>
  The kernel's entry point with everything it prints, \<^verbatim>\<open>_start\<close>, \<^verbatim>\<open>setup_memory\<close>,
  \<^verbatim>\<open>setup_heap\<close> and \<^verbatim>\<open>report\<close> in \<^verbatim>\<open>src/kernel/loko-kernel/src/main.rs\<close>.
  The computation without the log is \<open>kernel_start\<close>; this one is proved to refine it. Loading the descriptor tables does not touch the
  state of the model.
\<close>

section \<open>Texts\<close>

text \<open>The workspace's version.\<close>

definition VERSION :: rstr where
  "VERSION = str ''0.1.0''"

fun BootInfoError_debug :: "BootInfoError \<Rightarrow> rstr" where
  "BootInfoError_debug BadMagic = str ''BadMagic''"
| "BootInfoError_debug (VersionMismatch found expected) =
     str ''VersionMismatch { found: '' @ dec found @ str '', expected: '' @ dec expected @ str '' }''"
| "BootInfoError_debug BootInfoError.TooSmall = str ''TooSmall''"
| "BootInfoError_debug NoMemoryMap = str ''NoMemoryMap''"
| "BootInfoError_debug MalformedRegion = str ''MalformedRegion''"
| "BootInfoError_debug UnsortedMemoryMap = str ''UnsortedMemoryMap''"
| "BootInfoError_debug NoUsableMemory = str ''NoUsableMemory''"
| "BootInfoError_debug MisalignedPhysicalOffset = str ''MisalignedPhysicalOffset''"

fun MemoryError_debug :: "MemoryError \<Rightarrow> rstr" where
  "MemoryError_debug OutOfMemory = str ''OutOfMemory''"
| "MemoryError_debug OutOfRange = str ''OutOfRange''"
| "MemoryError_debug NotAllocated = str ''NotAllocated''"
| "MemoryError_debug BitmapTooSmall = str ''BitmapTooSmall''"

section \<open>The steps\<close>

definition setup_memory_logged :: "region_memory \<Rightarrow> BootInfo \<Rightarrow> FrameAllocator kernel" where
  "setup_memory_logged mem bi =
     (let regions = mem (bi_memory_map bi) (bi_memory_map_len bi);
          highest_usable = foldr max (map region_end (filter (\<lambda>r. usable_at_handoff (mr_kind r)) regions)) 0 in
      seq (lift (from_memory_map FRAME_BITMAP regions)) (\<lambda>built. case built of
        Inl e \<Rightarrow>
          then_do (error ''memory'' (str ''frame allocator refused the memory map: '' @ MemoryError_debug e))
            (fail memory_message)
      | Inr frames \<Rightarrow>
          seq (lift (mul64 (total_frames frames) FRAME_SIZE)) (\<lambda>managed.
          then_do (if highest_usable > managed
                   then seq (lift (sub64 highest_usable managed)) (\<lambda>above.
                     warn ''memory'' (dec (above div (1024 * 1024)) @ str '' MiB of usable memory sits above the first '' @
                       dec (managed div (1024 * 1024 * 1024)) @ str '' GiB and will not be used''))
                   else return ())
          (seq (lift (reserve_range frames (bi_kernel_physical_base bi) (bi_kernel_size bi))) (\<lambda>frames.
           seq (lift (if is_present (bi_framebuffer bi)
                      then reserve_range frames (fb_base (bi_framebuffer bi)) (fb_size (bi_framebuffer bi))
                      else Ret frames)) (\<lambda>frames.
           seq (lift (run_for (\<lambda>region frames.
                        if mr_kind region = BootloaderReclaimable
                        then reserve_range frames (mr_start region) (mr_len region)
                        else Ret frames) regions frames)) (\<lambda>frames.
           seq (lift (reserve frames 0)) (\<lambda>(frames, _).
           seq (lift (audit frames)) (\<lambda>ok.
             if \<not> ok
             then then_do (error ''memory'' (str ''frame allocator failed its own consistency check''))
                    (fail memory_message)
             else return frames)))))))))"

definition setup_heap_logged :: "FrameAllocator \<Rightarrow> nat \<Rightarrow> (FrameAllocator \<times> nat \<times> nat) kernel" where
  "setup_heap_logged frames physical_memory_offset =
     (let needed = div_ceil64 HEAP_SIZE FRAME_SIZE in
      seq (lift (allocate_contiguous frames needed)) (\<lambda>(frames, r). case r of
        Inl e \<Rightarrow>
          then_do (error ''heap'' (str ''could not reserve '' @ dec needed @ str '' frames for the heap: '' @ MemoryError_debug e))
            (fail (str ''LokoOS could not start: there isn't enough memory in this device.''))
      | Inr first \<Rightarrow>
          seq (lift (start_address first)) (\<lambda>address.
          seq (lift (add64 physical_memory_offset address)) (\<lambda>virt.
          then_do (info ''heap'' (dec (HEAP_SIZE div 1024) @ str '' KiB at '' @ hex virt))
            (return (frames, virt, HEAP_SIZE))))))"

definition report_logged :: "FrameAllocator \<Rightarrow> nat \<Rightarrow> (nat \<times> nat \<times> nat) kernel" where
  "report_logged frames used =
     seq (lift (report frames used)) (\<lambda>(total_mib, free_mib, used_kib).
       then_do (info ''memory'' (dec total_mib @ str '' MiB addressable, '' @ dec free_mib @ str '' MiB free, '' @
           dec used_kib @ str '' KiB heap in use''))
         (return (total_mib, free_mib, used_kib)))"

text \<open>Stages 7 and 8, with the log level and the surface the kernel has by then.\<close>

definition bring_up_memory :: "region_memory \<Rightarrow> nat \<Rightarrow> BootInfo \<Rightarrow> nat \<Rightarrow> Framebuffer option \<Rightarrow> Kernel kernel" where
  "bring_up_memory mem used bi level surface =
     then_do (info ''boot'' (str ''stage 7: physical memory''))
    (seq (setup_memory_logged mem bi) (\<lambda>frames.
     then_do (info ''boot'' (str ''stage 8: kernel heap''))
    (seq (setup_heap_logged frames (bi_physical_memory_offset bi)) (\<lambda>(frames, heap).
     seq (report_logged frames used) (\<lambda>figures.
     return \<lparr>k_log_level = level, k_surface = surface, k_frames = frames, k_heap = heap, k_report = figures\<rparr>)))))"

text \<open>From entry to the end of stage 8.\<close>

definition bring_up :: "bitflags_api \<Rightarrow> region_memory \<Rightarrow> nat \<Rightarrow> BootInfo option \<Rightarrow> Kernel kernel" where
  "bring_up api mem used boot_info =
     then_do serial_init
    (then_do (set_level Level.Info)
    (then_do (info ''boot'' (str ''LokoOS kernel '' @ VERSION))
    (then_do (info ''boot'' (str ''stage 5: kernel entered''))
    (case boot_info of
       None \<Rightarrow> fail (str ''LokoOS could not start: the bootloader did not describe this device.'')
     | Some bi \<Rightarrow>
         (case BootInfo_validate mem bi of
            Inl e \<Rightarrow>
              then_do (error ''boot'' (str ''boot info rejected: '' @ BootInfoError_debug e)) (fail (BootInfoError_message e))
          | Inr _ \<Rightarrow>
              (let verbose = bf_contains api (bi_flags bi) BootFlags_VERBOSE; fb = bi_framebuffer bi in
               then_do (if verbose then set_level Level.Trace else return ())
              (then_do (info ''boot'' (str ''protocol '' @ dec (bi_version_major bi) @ str ''.'' @ dec (bi_version_minor bi) @
                  str '', '' @ dec (bi_memory_map_len bi) @ str '' memory regions, physical window at '' @
                  hex (bi_physical_memory_offset bi)))
              (then_do (if bf_contains api (bi_flags bi) BootFlags_SECURE_BOOT
                        then info ''security'' (str ''Secure Boot verified this kernel image'')
                        else warn ''security'' (str ''Secure Boot is off; this image was not verified''))
              (then_do (info ''boot'' (str ''stage 6: descriptor tables''))
              (then_do (if is_present fb
                        then then_do (info ''graphics'' (str ''framebuffer '' @ dec (fb_width fb) @ str ''x'' @
                                 dec (fb_height fb) @ str '' at '' @ hex (fb_base fb)))
                               (seq (lift (add64 (fb_base fb) (bi_physical_memory_offset bi))) (\<lambda>base.
                                 framebuffer_record (fb\<lparr>fb_base := base\<rparr>)))
                        else info ''graphics'' (str ''no framebuffer; serial only''))
               (bring_up_memory mem used bi (Level_code (if verbose then Level.Trace else Level.Info))
                 (if is_present fb
                  then framebuffer_init None (fb\<lparr>fb_base := fb_base fb + bi_physical_memory_offset bi\<rparr>) else None))))))))))))"

definition entry_point :: "bitflags_api \<Rightarrow> region_memory \<Rightarrow> nat \<Rightarrow> BootInfo option \<Rightarrow> unit kernel" where
  "entry_point api mem used boot_info =
     then_do (seq (bring_up api mem used boot_info) (\<lambda>_. return ()))
    (then_do (info ''boot'' (str ''stage 9: not implemented; no scheduler or storage stack yet''))
    (then_do (info ''boot'' (str ''kernel initialised successfully and is halting''))
     halt_forever))"

section \<open>Text without the words of a verdict\<close>

text \<open>
  The words that occur in the lines a boot is judged by and in no other line the kernel prints on its way up: of the
  success line, of a panic, of a stop, of a refusal, and of a double fault.
\<close>

definition verdict_words :: "rstr list" where
  "verdict_words = [str ''lting'', str ''l p'', str ''topp'', str ''not st'', str ''ult'']"

definition plain :: "rstr \<Rightarrow> bool" where
  "plain t \<longleftrightarrow> (\<exists>lines. t = concat (map (\<lambda>l. l @ [10]) lines) \<and>
     (\<forall>l \<in> set lines. \<forall>w \<in> set verdict_words. \<not> contains_str l w))"

lemma plain_Nil [simp]: "plain []"
  unfolding plain_def by (rule exI [of _ "[]"]) simp

lemma plain_append: "plain a \<Longrightarrow> plain b \<Longrightarrow> plain (a @ b)"
  unfolding plain_def
proof (elim exE conjE)
  fix ls ms
  assume "a = concat (map (\<lambda>l. l @ [10]) ls)" "b = concat (map (\<lambda>l. l @ [10]) ms)"
    "\<forall>l \<in> set ls. \<forall>w \<in> set verdict_words. \<not> contains_str l w" "\<forall>l \<in> set ms. \<forall>w \<in> set verdict_words. \<not> contains_str l w"
  then show "\<exists>lines. a @ b = concat (map (\<lambda>l. l @ [10]) lines) \<and>
      (\<forall>l \<in> set lines. \<forall>w \<in> set verdict_words. \<not> contains_str l w)"
    by (intro exI [of _ "ls @ ms"]) auto
qed

text \<open>A word without a line break is found in a text of lines exactly if one of the lines has it.\<close>

lemma contains_str_line:
  assumes "10 \<notin> set w" "w \<noteq> []"
  shows "contains_str (l @ [10] @ s) w \<longleftrightarrow> contains_str l w \<or> contains_str s w"
proof (induction l)
  case Nil
  then show ?case using contains_str_skip [of "[10]" w s] assms by (cases w) simp_all
next
  case (Cons c l)
  have "take (length w) (c # l @ [10] @ s) = w \<longleftrightarrow> take (length w) (c # l) = w"
  proof (cases "length w \<le> length (c # l)")
    case False
    then have "Suc (length (c # l)) \<le> length w" by simp
    then obtain k where "length w = Suc (length (c # l)) + k" using le_Suc_ex by blast
    then have "10 \<in> set (take (length w) (c # l @ [10] @ s))" by simp
    moreover have "length (take (length w) (c # l)) \<noteq> length w" using False by simp
    ultimately show ?thesis using assms(1) by metis
  next
    case True
    then have "take (length w) ((c # l) @ [10] @ s) = take (length w) (c # l)" by (simp only: take_append) simp
    then show ?thesis by simp
  qed
  then show ?case using Cons by simp
qed

lemma plain_without:
  assumes "plain t" "w \<in> set verdict_words" "contains_str marker w" "10 \<notin> set marker"
  shows "contains_str (t @ s) marker \<longleftrightarrow> contains_str s marker"
proof -
  obtain lines where l: "t = concat (map (\<lambda>l. l @ [10]) lines)" "\<forall>l \<in> set lines. \<not> contains_str l marker"
    using assms contains_str_factor unfolding plain_def by blast
  have "w \<noteq> []" using assms(2) by (auto simp: verdict_words_def str_def)
  then have m: "marker \<noteq> []" using assms(3) by auto
  from l show ?thesis
  proof (induction lines arbitrary: t)
    case (Cons x xs)
    have "contains_str ((x @ [10] @ concat (map (\<lambda>l. l @ [10]) xs)) @ s) marker \<longleftrightarrow>
        contains_str (concat (map (\<lambda>l. l @ [10]) xs) @ s) marker"
      using contains_str_line [OF assms(4) m, of x "concat (map (\<lambda>l. l @ [10]) xs) @ s"] Cons.prems(2) by simp
    then show ?case using Cons by simp
  qed simp
qed

lemma plain_line:
  assumes "\<forall>w \<in> set verdict_words. \<not> contains_str (str ''['' @ Level_tag level @ str ''] '' @ pad_right 10 s @ str '' '' @ args) w"
  shows "plain (log_line level s args)"
  unfolding plain_def log_line_def
  by (rule exI [of _ "[str ''['' @ Level_tag level @ str ''] '' @ pad_right 10 s @ str '' '' @ args]"]) (use assms in simp)

lemma replicate_numeral: "replicate (numeral n) x = x # replicate (pred_numeral n) x"
  by (simp add: numeral_eq_Suc)

lemmas word_search = verdict_words_def find_word str_def pad_right_def replicate_numeral hex_def

section \<open>Refinement\<close>

named_theorems behaves_rules \<open>agreement of the detailed and the abstract computation, construct by construct\<close>

text \<open>
  A console in working order, with only plain text printed so far, and what one step may change of it: it can only print more.
\<close>

definition good :: "Console \<Rightarrow> bool" where
  "good c \<longleftrightarrow> console_free c \<and> screen_ok c \<and> cs_port c \<and> cs_level c \<le> 2 \<and> plain (cs_output c)"

definition later :: "Console \<Rightarrow> Console \<Rightarrow> bool" where
  "later c c' \<longleftrightarrow> (\<exists>t. plain t \<and> c' = printed c t)"

text \<open>
  The detailed computation agrees with the abstract one: it panics, ends in the failure message, or returns the same result,
  always in a console that satisfies \<open>P\<close>.
\<close>

definition behaves :: "(Console \<Rightarrow> bool) \<Rightarrow> 'a outcome \<Rightarrow> (rstr + 'a) run \<Rightarrow> bool" where
  "behaves P out r \<longleftrightarrow> (case r of
     None \<Rightarrow> (\<exists>c. out = Panics c \<and> P c)
   | Some (Inl message) \<Rightarrow> (\<exists>c. out = fail message c \<and> P c)
   | Some (Inr x) \<Rightarrow> (\<exists>c. out = Runs x c \<and> P c))"

lemma later_refl: "later c c"
  unfolding later_def by (intro exI [of _ "[]"]) (simp add: printed_def)

lemma later_printed: "plain t \<Longrightarrow> later c (printed c t)"
  unfolding later_def by blast

lemma later_trans: "later a b \<Longrightarrow> later b c \<Longrightarrow> later a c"
  unfolding later_def using plain_append by fastforce

lemma good_printed: "good c \<Longrightarrow> plain t \<Longrightarrow> good (printed c t)"
  by (simp add: good_def plain_append)

lemma behaves_mono: "behaves P out r \<Longrightarrow> (\<And>c. P c \<Longrightarrow> Q c) \<Longrightarrow> behaves Q out r"
  unfolding behaves_def by (auto split: option.splits sum.splits)

lemma seq_fail: "seq (fail message) f c = fail message c"
  by (simp add: fail_def seq_def panic_screen_eq split: outcome.split option.split)

lemma seq_fails: "m c = fail message d \<Longrightarrow> seq m f c = fail message d"
  using seq_fail [of message f d] by (simp add: seq_def)

lemma later_good: "later c0 c \<Longrightarrow> good c0 \<Longrightarrow> good c"
  unfolding later_def using good_printed by blast

lemma later_line: "later c0 c \<Longrightarrow> plain t \<Longrightarrow> later c0 (printed c t)"
  by (blast intro: later_trans later_printed)

lemma behaves_lift [behaves_rules]:
  "later c0 c \<Longrightarrow> (\<And>x. r = Ret x \<Longrightarrow> behaves (later c0) (f x c) (g x)) \<Longrightarrow>
   behaves (later c0) (seq (lift r) f c) (do { x \<leftarrow> r; g x })"
  by (cases r) (auto simp: behaves_def seq_def lift_def)

lemma behaves_return [behaves_rules]: "later c0 c \<Longrightarrow> behaves (later c0) (return x c) (Ret (Inr x))"
  by (auto simp: behaves_def return_def)

lemma behaves_fail [behaves_rules]: "later c0 c \<Longrightarrow> behaves (later c0) (fail message c) (Ret (Inl message))"
  by (auto simp: behaves_def)

lemma behaves_log:
  assumes "later c0 c" "good c0" "plain (log_line level s args)" "level \<in> {Level.Info, Level.Warn, Level.Error}"
    "\<And>c. later c0 c \<Longrightarrow> behaves (later c0) (m c) r"
  shows "behaves (later c0) (then_do (log level s args) m c) r"
  using log_Runs [of c level s args] later_good [OF assms(1,2)] assms(4) assms(5) [OF later_line [OF assms(1,3)]]
  by (simp add: good_def)

lemma behaves_lines [behaves_rules]:
  "later c0 c \<Longrightarrow> good c0 \<Longrightarrow> plain (log_line Level.Info (str s) args) \<Longrightarrow>
     (\<And>c. later c0 c \<Longrightarrow> behaves (later c0) (m c) r) \<Longrightarrow> behaves (later c0) (then_do (info s args) m c) r"
  "later c0 c \<Longrightarrow> good c0 \<Longrightarrow> plain (log_line Level.Warn (str s) args) \<Longrightarrow>
     (\<And>c. later c0 c \<Longrightarrow> behaves (later c0) (m c) r) \<Longrightarrow> behaves (later c0) (then_do (warn s args) m c) r"
  "later c0 c \<Longrightarrow> good c0 \<Longrightarrow> plain (log_line Level.Error (str s) args) \<Longrightarrow>
     (\<And>c. later c0 c \<Longrightarrow> behaves (later c0) (m c) r) \<Longrightarrow> behaves (later c0) (then_do (error s args) m c) r"
  unfolding info_def warn_def error_def by (rule behaves_log; simp)+

lemma seq_assoc: "seq (seq m f) g = seq m (\<lambda>x. seq (f x) g)"
  by (rule ext) (simp add: seq_def split: outcome.split)

text \<open>A log line only in one case, with checked arithmetic for its arguments.\<close>

lemma behaves_optional_line [behaves_rules]:
  assumes "later c0 c" "\<And>x c. later c0 c \<Longrightarrow> behaves (later c0) (then_do (w x) m c) r"
    "\<And>c. later c0 c \<Longrightarrow> behaves (later c0) (m c) r"
  shows "behaves (later c0) (then_do (if b then seq (lift a) w else return ()) m c) (do { _ \<leftarrow> (if b then a else Ret k); r })"
proof (cases b)
  case True
  have "behaves (later c0) (seq (lift a) (\<lambda>x. then_do (w x) m) c) (do { _ \<leftarrow> a; r })"
    by (rule behaves_lift [OF assms(1)]) (rule assms(2) [OF assms(1)])
  with True show ?thesis by (simp add: seq_assoc)
next
  case False
  with assms(1,3) show ?thesis by (simp add: return_def)
qed

lemma behaves_split [behaves_rules]:
  "(\<And>a b. x = (a, b) \<Longrightarrow> behaves P (f a b c) (g a b)) \<Longrightarrow> behaves P ((case x of (a, b) \<Rightarrow> f a b) c) (case x of (a, b) \<Rightarrow> g a b)"
  by (cases x) simp

lemma behaves_sum [behaves_rules]:
  "(\<And>e. x = Inl e \<Longrightarrow> behaves P (f e c) (g e)) \<Longrightarrow> (\<And>y. x = Inr y \<Longrightarrow> behaves P (h y c) (k y)) \<Longrightarrow>
   behaves P ((case x of Inl e \<Rightarrow> f e | Inr y \<Rightarrow> h y) c) (case x of Inl e \<Rightarrow> g e | Inr y \<Rightarrow> k y)"
  by (cases x) simp_all

lemma behaves_if [behaves_rules]:
  "(b \<Longrightarrow> behaves P (f c) r) \<Longrightarrow> (\<not> b \<Longrightarrow> behaves P (g c) s) \<Longrightarrow>
   behaves P ((if b then f else g) c) (if b then r else s)"
  by simp

lemma behaves_bind:
  assumes "behaves P (m c) r" "\<And>x c'. P c' \<Longrightarrow> r = Ret (Inr x) \<Longrightarrow> behaves Q (f x c') (g x)" "\<And>c'. P c' \<Longrightarrow> Q c'"
  shows "behaves Q (seq m f c) (do { y \<leftarrow> r; case y of Inl e \<Rightarrow> Ret (Inl e) | Inr x \<Rightarrow> g x })"
proof (cases r)
  case None
  then show ?thesis using assms(1,3) by (auto simp: behaves_def)
next
  case (Some y)
  show ?thesis
  proof (cases y)
    case (Inl message)
    with assms(1) Some obtain c' where "m c = fail message c'" "P c'" by (auto simp: behaves_def)
    moreover from this(1) have "seq m f c = fail message c'"
      using seq_fail [of message f c'] by (simp add: seq_def)
    ultimately show ?thesis using Some Inl assms(3) by (auto simp: behaves_def)
  next
    case (Inr x)
    with assms(1) Some obtain c' where "m c = Runs x c'" "P c'" by (auto simp: behaves_def)
    then show ?thesis using assms(2) [of c' x] Some Inr by simp
  qed
qed

section \<open>The lines of the way up are plain\<close>

lemma memory_lines_plain:
  "plain (log_line Level.Error (str ''memory'') (str ''frame allocator refused the memory map: '' @ MemoryError_debug e))"
  "plain (log_line Level.Warn (str ''memory'') (dec m @ str '' MiB of usable memory sits above the first '' @
     dec n @ str '' GiB and will not be used''))"
  "plain (log_line Level.Error (str ''memory'') (str ''frame allocator failed its own consistency check''))"
  by (cases e; rule plain_line; simp add: word_search)
    (rule plain_line; simp add: word_search)+

lemma heap_lines_plain:
  "plain (log_line Level.Error (str ''heap'') (str ''could not reserve '' @ dec n @ str '' frames for the heap: '' @ MemoryError_debug e))"
  "plain (log_line Level.Info (str ''heap'') (dec n @ str '' KiB at '' @ hex a))"
  "plain (log_line Level.Info (str ''memory'') (dec n @ str '' MiB addressable, '' @ dec m @ str '' MiB free, '' @
     dec k @ str '' KiB heap in use''))"
  by (cases e; rule plain_line; simp add: word_search)
    (rule plain_line; simp add: word_search)+

lemma boot_lines_plain:
  "plain (log_line Level.Info (str ''boot'') (str ''LokoOS kernel '' @ VERSION))"
  "plain (log_line Level.Info (str ''boot'') (str ''stage 5: kernel entered''))"
  "plain (log_line Level.Info (str ''boot'') (str ''stage 6: descriptor tables''))"
  "plain (log_line Level.Info (str ''boot'') (str ''stage 7: physical memory''))"
  "plain (log_line Level.Info (str ''boot'') (str ''stage 8: kernel heap''))"
  "plain (log_line Level.Info (str ''boot'') (str ''stage 9: not implemented; no scheduler or storage stack yet''))"
  "plain (log_line Level.Info (str ''boot'') (str ''protocol '' @ dec n1 @ str ''.'' @ dec n2 @
     str '', '' @ dec n3 @ str '' memory regions, physical window at '' @ hex n4))"
  by (rule plain_line; simp add: word_search VERSION_def)+

lemma rejection_line_plain:
  "plain (log_line Level.Error (str ''boot'') (str ''boot info rejected: '' @ BootInfoError_debug be))"
  by (cases be; rule plain_line; simp add: word_search)

lemma hardware_lines_plain:
  "plain (log_line Level.Info (str ''security'') (str ''Secure Boot verified this kernel image''))"
  "plain (log_line Level.Warn (str ''security'') (str ''Secure Boot is off; this image was not verified''))"
  "plain (log_line Level.Info (str ''graphics'') (str ''framebuffer '' @ dec n1 @ str ''x'' @ dec n2 @ str '' at '' @ hex n3))"
  "plain (log_line Level.Info (str ''graphics'') (str ''no framebuffer; serial only''))"
  by (rule plain_line; simp add: word_search)+

section \<open>The steps agree\<close>

lemma setup_memory_behaves:
  assumes "good c"
  shows "behaves (later c) (setup_memory_logged mem bi c) (setup_memory mem bi)"
  unfolding setup_memory_logged_def setup_memory_def Let_def
  by (intro behaves_rules memory_lines_plain assms later_refl; assumption?)

lemma setup_heap_behaves:
  assumes "later c0 c" "good c0"
  shows "behaves (later c0) (setup_heap_logged frames offset c) (setup_heap frames offset)"
  unfolding setup_heap_logged_def setup_heap_def Let_def
  by (intro behaves_rules heap_lines_plain assms; assumption?)

lemma report_behaves:
  assumes "later c0 c" "good c0"
  shows "behaves (later c0) (report_logged frames used c) (map_option Inr (report frames used))"
proof -
  have eq: "map_option Inr (report frames used) = do { (t, f, u) \<leftarrow> report frames used; Ret (Inr (t, f, u)) }"
    by (cases "report frames used") auto
  show ?thesis
    unfolding report_logged_def eq
    by (intro behaves_rules heap_lines_plain assms; assumption?)
qed

lemma behaves_report:
  assumes "later c0 c" "good c0" "\<And>x c. later c0 c \<Longrightarrow> behaves (later c0) (f x c) (g x)"
  shows "behaves (later c0) (seq (report_logged frames used) f c) (do { x \<leftarrow> report frames used; g x })"
proof -
  have "behaves (later c0) (seq (report_logged frames used) f c)
      (do { y \<leftarrow> map_option Inr (report frames used); case y of Inl e \<Rightarrow> Ret (Inl e) | Inr x \<Rightarrow> g x })"
    by (rule behaves_bind [where m = "report_logged frames used" and P = "later c0"])
      (use assms report_behaves in blast)+
  moreover have "do { y \<leftarrow> map_option Inr (report frames used); case y of Inl e \<Rightarrow> Ret (Inl e) | Inr x \<Rightarrow> g x } =
      do { x \<leftarrow> report frames used; g x }"
    by (cases "report frames used") auto
  ultimately show ?thesis by simp
qed

lemma heap_and_report_behaves:
  assumes "later c0 c" "good c0"
  shows "behaves (later c0)
    (seq (setup_heap_logged frames offset) (\<lambda>(frames, heap).
       seq (report_logged frames used) (\<lambda>figures. return (k frames heap figures))) c)
    (do {
       heap \<leftarrow> setup_heap frames offset;
       case heap of
         Inl message \<Rightarrow> Ret (Inl message)
       | Inr (frames, heap) \<Rightarrow> do { figures \<leftarrow> report frames used; Ret (Inr (k frames heap figures)) }
     })"
proof (rule behaves_bind [where m = "setup_heap_logged frames offset" and P = "later c0"])
  show "behaves (later c0) (setup_heap_logged frames offset c) (setup_heap frames offset)"
    by (rule setup_heap_behaves [OF assms])
qed (intro behaves_split behaves_report behaves_return assms(2); assumption)+

section \<open>The way up agrees\<close>

text \<open>The lines that tell how far a boot has come.\<close>

definition stage_lines :: "rstr list" where
  "stage_lines = [str ''LokoOS kernel'', str ''stage 5: kernel entered'', str ''stage 6: descriptor tables'',
     str ''stage 7: physical memory'', str ''stage 8: kernel heap'']"

text \<open>The console the kernel is entered with: nothing held, no surface, and what the firmware printed.\<close>

definition fresh_console :: "Console \<Rightarrow> bool" where
  "fresh_console c \<longleftrightarrow> console_free c \<and> cs_surface c = None \<and> plain (cs_output c)"

definition reached_kernel :: "Kernel \<Rightarrow> Console \<Rightarrow> bool" where
  "reached_kernel k c \<longleftrightarrow> good c \<and> cs_surface c = k_surface k \<and> cs_level c = k_log_level k \<and>
     (\<forall>w \<in> set stage_lines. contains_str (cs_output c) w)"

lemma log_good:
  assumes "good c" "level \<in> {Level.Info, Level.Warn, Level.Error}"
  shows "then_do (log level s args) m c = m (printed c (log_line level s args))"
  using log_Runs [of c level s args] assms by (simp add: good_def)

lemma line_good:
  assumes "good c"
  shows "then_do (info s args) m c = m (printed c (log_line Level.Info (str s) args))"
    "then_do (warn s args) m c = m (printed c (log_line Level.Warn (str s) args))"
    "then_do (error s args) m c = m (printed c (log_line Level.Error (str s) args))"
  unfolding info_def warn_def error_def by (rule log_good [OF assms], simp)+

lemma contains_str_self: "contains_str w w"
  unfolding contains_str_iff by (rule exI [of _ "[]"], rule exI [of _ "[]"]) simp

lemma log_line_contains: "contains_str args w \<Longrightarrow> contains_str (log_line level s args) w"
  by (simp add: log_line_def) (intro contains_str_append disjI2 contains_str_prefix, assumption)

lemma line_contains: "contains_str args w \<Longrightarrow> contains_str (cs_output (printed c (log_line level s args))) w"
  by (simp add: log_line_def) (intro contains_str_append disjI2 contains_str_prefix, assumption)

lemma later_contains: "later c c' \<Longrightarrow> contains_str (cs_output c) w \<Longrightarrow> contains_str (cs_output c') w"
  by (auto simp: later_def contains_str_prefix)

lemma later_fields: "later c c' \<Longrightarrow> cs_surface c' = cs_surface c \<and> cs_level c' = cs_level c"
  by (auto simp: later_def)

lemma seq_RunsE:
  assumes "seq m f c = Runs x c'"
  obtains y c1 where "m c = Runs y c1" "f y c1 = Runs x c'"
  using assms by (auto simp: seq_def split: outcome.splits)

lemma fail_not_Runs: "fail message c \<noteq> Runs x c'"
  by (auto simp: fail_def panic_screen_eq elim!: seq_RunsE split: if_splits option.splits)

lemma behaves_Runs: "behaves P out r \<Longrightarrow> out = Runs x c \<Longrightarrow> P c"
  "behaves P out r \<Longrightarrow> out = Runs x c \<Longrightarrow> r = Ret (Inr x)"
  unfolding behaves_def by (auto simp: fail_not_Runs [symmetric] fail_not_Runs split: option.splits sum.splits)

lemma bring_up_memory_behaves:
  assumes "good c"
  shows "behaves (later c) (bring_up_memory mem used bi level surface c)
    (do {
       memory \<leftarrow> setup_memory mem bi;
       case memory of
         Inl message \<Rightarrow> Ret (Inl message)
       | Inr frames \<Rightarrow> do {
           heap \<leftarrow> setup_heap frames (bi_physical_memory_offset bi);
           case heap of
             Inl message \<Rightarrow> Ret (Inl message)
           | Inr (frames, heap) \<Rightarrow> do {
               figures \<leftarrow> report frames used;
               Ret (Inr \<lparr>k_log_level = level, k_surface = surface, k_frames = frames, k_heap = heap, k_report = figures\<rparr>)
             }
         }
     })"
  unfolding bring_up_memory_def
proof (rule behaves_lines(1) [OF later_refl assms boot_lines_plain(4)])
  fix c1
  assume c1: "later c c1"
  show "behaves (later c)
     (seq (setup_memory_logged mem bi) (\<lambda>frames.
       then_do (info ''boot'' (str ''stage 8: kernel heap''))
      (seq (setup_heap_logged frames (bi_physical_memory_offset bi)) (\<lambda>(frames, heap).
       seq (report_logged frames used) (\<lambda>figures.
       return \<lparr>k_log_level = level, k_surface = surface, k_frames = frames, k_heap = heap, k_report = figures\<rparr>)))) c1)
    (do {
       memory \<leftarrow> setup_memory mem bi;
       case memory of
         Inl message \<Rightarrow> Ret (Inl message)
       | Inr frames \<Rightarrow> do {
           heap \<leftarrow> setup_heap frames (bi_physical_memory_offset bi);
           case heap of
             Inl message \<Rightarrow> Ret (Inl message)
           | Inr (frames, heap) \<Rightarrow> do {
               figures \<leftarrow> report frames used;
               Ret (Inr \<lparr>k_log_level = level, k_surface = surface, k_frames = frames, k_heap = heap, k_report = figures\<rparr>)
             }
         }
     })"
  proof (rule behaves_bind [where m = "setup_memory_logged mem bi" and P = "later c"])
    show "behaves (later c) (setup_memory_logged mem bi c1) (setup_memory mem bi)"
      using setup_memory_behaves [OF later_good [OF c1 assms], of mem bi] later_trans [OF c1] by (rule behaves_mono)
  next
    fix frames c'
    assume c': "later c c'"
    show "behaves (later c)
       (then_do (info ''boot'' (str ''stage 8: kernel heap''))
         (seq (setup_heap_logged frames (bi_physical_memory_offset bi)) (\<lambda>(frames, heap).
          seq (report_logged frames used) (\<lambda>figures.
          return \<lparr>k_log_level = level, k_surface = surface, k_frames = frames, k_heap = heap, k_report = figures\<rparr>))) c')
       (do {
          heap \<leftarrow> setup_heap frames (bi_physical_memory_offset bi);
          case heap of
            Inl message \<Rightarrow> Ret (Inl message)
          | Inr (frames, heap) \<Rightarrow> do {
              figures \<leftarrow> report frames used;
              Ret (Inr \<lparr>k_log_level = level, k_surface = surface, k_frames = frames, k_heap = heap, k_report = figures\<rparr>)
            }
        })"
      by (rule behaves_lines(1) [OF c' assms boot_lines_plain(5)]) (rule heap_and_report_behaves [OF _ assms])
  qed
qed

lemma bring_up_memory_stages:
  assumes "good c" "bring_up_memory mem used bi level surface c = Runs k c'"
  shows "contains_str (cs_output c') (str ''stage 7: physical memory'')" "contains_str (cs_output c') (str ''stage 8: kernel heap'')"
proof -
  let ?l7 = "log_line Level.Info (str ''boot'') (str ''stage 7: physical memory'')"
    and ?l8 = "log_line Level.Info (str ''boot'') (str ''stage 8: kernel heap'')"
  have g1: "good (printed c ?l7)" using good_printed [OF assms(1) boot_lines_plain(4)] .
  obtain frames c2 where c2: "setup_memory_logged mem bi (printed c ?l7) = Runs frames c2"
    "then_do (info ''boot'' (str ''stage 8: kernel heap''))
         (seq (setup_heap_logged frames (bi_physical_memory_offset bi)) (\<lambda>(frames, heap).
          seq (report_logged frames used) (\<lambda>figures.
          return \<lparr>k_log_level = level, k_surface = surface, k_frames = frames, k_heap = heap, k_report = figures\<rparr>))) c2 = Runs k c'"
    using assms(2) unfolding bring_up_memory_def line_good(1) [OF assms(1)] by (rule seq_RunsE)
  have l2: "later (printed c ?l7) c2" using behaves_Runs(1) [OF setup_memory_behaves [OF g1] c2(1)] .
  have g2: "good c2" using later_good [OF l2 g1] .
  have g3: "good (printed c2 ?l8)" using good_printed [OF g2 boot_lines_plain(5)] .
  have l3: "later (printed c2 ?l8) c'"
    using c2(2) unfolding line_good(1) [OF g2]
    by (rule behaves_Runs(1) [OF heap_and_report_behaves [OF later_refl g3]])
  show "contains_str (cs_output c') (str ''stage 8: kernel heap'')"
    by (rule later_contains [OF l3 line_contains]) (rule contains_str_self)
  show "contains_str (cs_output c') (str ''stage 7: physical memory'')"
    by (rule later_contains [OF l3], unfold printed_simps, rule contains_str_prefix,
        rule later_contains [OF l2 line_contains], rule contains_str_self)
qed

lemma bring_up_memory_fields:
  "bring_up_memory mem used bi level surface c = Runs k c' \<Longrightarrow> k_surface k = surface \<and> k_log_level k = level"
  by (auto simp: bring_up_memory_def return_def elim!: seq_RunsE split: prod.splits)

text \<open>The lines before the first decision.\<close>

definition entered :: "Console \<Rightarrow> Console" where
  "entered c = printed (c\<lparr>cs_port := True, cs_level := 2\<rparr>)
     (log_line Level.Info (str ''boot'') (str ''LokoOS kernel '' @ VERSION) @
      log_line Level.Info (str ''boot'') (str ''stage 5: kernel entered''))"

lemma entered:
  assumes "fresh_console c"
  shows "good (entered c)" "cs_surface (entered c) = None" "cs_level (entered c) = 2"
    "then_do serial_init (then_do (set_level Level.Info) (then_do (info ''boot'' (str ''LokoOS kernel '' @ VERSION))
       (then_do (info ''boot'' (str ''stage 5: kernel entered'')) m))) c = m (entered c)"
proof -
  let ?c = "c\<lparr>cs_port := True, cs_level := 2\<rparr>"
  have g: "good ?c"
    using assms by (simp add: fresh_console_def good_def console_free_def screen_ok_def)
  have g1: "good (printed ?c (log_line Level.Info (str ''boot'') (str ''LokoOS kernel '' @ VERSION)))"
    using good_printed [OF g boot_lines_plain(1)] .
  show "good (entered c)" using good_printed [OF g1 boot_lines_plain(2)] by (simp add: entered_def)
  show "cs_surface (entered c) = None" "cs_level (entered c) = 2"
    using assms by (simp_all add: entered_def fresh_console_def)
  have "serial_init c = Runs () (c\<lparr>cs_port := True\<rparr>)"
    using assms by (simp add: serial_init_def fresh_console_def console_free_def)
  then show "then_do serial_init (then_do (set_level Level.Info) (then_do (info ''boot'' (str ''LokoOS kernel '' @ VERSION))
       (then_do (info ''boot'' (str ''stage 5: kernel entered'')) m))) c = m (entered c)"
    by (simp add: set_level_def line_good [OF g] line_good [OF g1] entered_def)
qed

text \<open>The lines about the device, up to the surface.\<close>

definition identified :: "bitflags_api \<Rightarrow> BootInfo \<Rightarrow> Console \<Rightarrow> Console" where
  "identified api bi c =
     printed (if bf_contains api (bi_flags bi) BootFlags_VERBOSE then c\<lparr>cs_level := 0\<rparr> else c)
       (log_line Level.Info (str ''boot'') (str ''protocol '' @ dec (bi_version_major bi) @ str ''.'' @ dec (bi_version_minor bi) @
          str '', '' @ dec (bi_memory_map_len bi) @ str '' memory regions, physical window at '' @ hex (bi_physical_memory_offset bi)) @
        (if bf_contains api (bi_flags bi) BootFlags_SECURE_BOOT
         then log_line Level.Info (str ''security'') (str ''Secure Boot verified this kernel image'')
         else log_line Level.Warn (str ''security'') (str ''Secure Boot is off; this image was not verified'')) @
        log_line Level.Info (str ''boot'') (str ''stage 6: descriptor tables''))"

lemma identified:
  assumes "good c"
  shows "good (identified api bi c)" "cs_surface (identified api bi c) = cs_surface c"
    "cs_level c = 2 \<Longrightarrow> cs_level (identified api bi c) =
       Level_code (if bf_contains api (bi_flags bi) BootFlags_VERBOSE then Level.Trace else Level.Info)"
    "then_do (if bf_contains api (bi_flags bi) BootFlags_VERBOSE then set_level Level.Trace else return ())
      (then_do (info ''boot'' (str ''protocol '' @ dec (bi_version_major bi) @ str ''.'' @ dec (bi_version_minor bi) @
         str '', '' @ dec (bi_memory_map_len bi) @ str '' memory regions, physical window at '' @ hex (bi_physical_memory_offset bi)))
      (then_do (if bf_contains api (bi_flags bi) BootFlags_SECURE_BOOT
         then info ''security'' (str ''Secure Boot verified this kernel image'')
         else warn ''security'' (str ''Secure Boot is off; this image was not verified''))
      (then_do (info ''boot'' (str ''stage 6: descriptor tables'')) m))) c = m (identified api bi c)"
proof -
  let ?v = "bf_contains api (bi_flags bi) BootFlags_VERBOSE" and ?s = "bf_contains api (bi_flags bi) BootFlags_SECURE_BOOT"
  let ?c = "if ?v then c\<lparr>cs_level := 0\<rparr> else c"
  let ?p = "log_line Level.Info (str ''boot'') (str ''protocol '' @ dec (bi_version_major bi) @ str ''.'' @ dec (bi_version_minor bi) @
    str '', '' @ dec (bi_memory_map_len bi) @ str '' memory regions, physical window at '' @ hex (bi_physical_memory_offset bi))"
  let ?sec = "if ?s then log_line Level.Info (str ''security'') (str ''Secure Boot verified this kernel image'')
    else log_line Level.Warn (str ''security'') (str ''Secure Boot is off; this image was not verified'')"
  have g: "good ?c" using assms by (simp add: good_def console_free_def screen_ok_def)
  have g1: "good (printed ?c ?p)" using good_printed [OF g boot_lines_plain(7)] .
  have "plain ?sec" using hardware_lines_plain(1,2) by simp
  with g1 have g2: "good (printed (printed ?c ?p) ?sec)" by (rule good_printed)
  show "good (identified api bi c)"
    using good_printed [OF g2 boot_lines_plain(3)] by (simp only: identified_def printed_simps append_assoc)
  show "cs_surface (identified api bi c) = cs_surface c"
    "cs_level c = 2 \<Longrightarrow> cs_level (identified api bi c) = Level_code (if ?v then Level.Trace else Level.Info)"
    by (simp_all add: identified_def)
  have step: "then_do (if ?v then set_level Level.Trace else return ()) k c = k ?c" for k :: "'a kernel"
    by (simp add: set_level_def return_def)
  have sec: "then_do (if ?s then info ''security'' (str ''Secure Boot verified this kernel image'')
         else warn ''security'' (str ''Secure Boot is off; this image was not verified'')) k (printed ?c ?p) =
      k (printed (printed ?c ?p) ?sec)" for k :: "'a kernel"
    by (cases ?s) (simp_all only: if_True if_False line_good [OF g1])
  show "then_do (if ?v then set_level Level.Trace else return ())
      (then_do (info ''boot'' (str ''protocol '' @ dec (bi_version_major bi) @ str ''.'' @ dec (bi_version_minor bi) @
         str '', '' @ dec (bi_memory_map_len bi) @ str '' memory regions, physical window at '' @ hex (bi_physical_memory_offset bi)))
      (then_do (if ?s then info ''security'' (str ''Secure Boot verified this kernel image'')
         else warn ''security'' (str ''Secure Boot is off; this image was not verified''))
      (then_do (info ''boot'' (str ''stage 6: descriptor tables'')) m))) c = m (identified api bi c)"
    unfolding step line_good(1) [OF g] sec line_good(1) [OF g2] by (simp only: identified_def printed_simps append_assoc)
qed

lemma identified_stages:
  assumes "w \<in> {str ''LokoOS kernel'', str ''stage 5: kernel entered'', str ''stage 6: descriptor tables''}"
  shows "contains_str (cs_output (identified api bi (entered c))) w"
proof -
  have "contains_str (str ''LokoOS kernel '' @ VERSION) (str ''LokoOS kernel'')"
    unfolding contains_str_iff by (rule exI [of _ "[]"], rule exI [of _ "32 # VERSION"]) (simp add: str_def)
  then have first: "contains_str (log_line Level.Info (str ''boot'') (str ''LokoOS kernel '' @ VERSION)) (str ''LokoOS kernel'')"
    by (rule log_line_contains)
  have self: "contains_str (log_line level s w) w" for level s w by (rule log_line_contains [OF contains_str_self])
  have "contains_str (cs_output (entered c)) (str ''LokoOS kernel'')"
    "contains_str (cs_output (entered c)) (str ''stage 5: kernel entered'')"
    using first self by (simp_all add: entered_def contains_str_append)
  moreover have "contains_str (cs_output (identified api bi (entered c))) (str ''stage 6: descriptor tables'')"
    using self by (simp add: identified_def contains_str_append)
  moreover have "contains_str (cs_output (entered c)) w \<Longrightarrow> contains_str (cs_output (identified api bi (entered c))) w"
    by (simp add: identified_def contains_str_prefix)
  ultimately show ?thesis using assms by blast
qed

text \<open>The surface.\<close>

lemma graphics_step:
  assumes "good c" "cs_surface c = None" "is_present fb \<Longrightarrow> surface_ok fb"
  shows "let m = then_do (if is_present fb
        then then_do (info ''graphics'' (str ''framebuffer '' @ dec (fb_width fb) @ str ''x'' @
                 dec (fb_height fb) @ str '' at '' @ hex (fb_base fb)))
               (seq (lift (add64 (fb_base fb) offset)) (\<lambda>base. framebuffer_record (fb\<lparr>fb_base := base\<rparr>)))
        else info ''graphics'' (str ''no framebuffer; serial only'')) k c in
     (is_present fb \<and> add64 (fb_base fb) offset = Panic \<and> (\<exists>c'. good c' \<and> m = Panics c')) \<or>
     (\<exists>c'. (is_present fb \<longrightarrow> add64 (fb_base fb) offset = Ret (fb_base fb + offset)) \<and> good c' \<and>
        cs_surface c' = (if is_present fb then framebuffer_init None (fb\<lparr>fb_base := fb_base fb + offset\<rparr>) else None) \<and>
        cs_level c' = cs_level c \<and> (\<exists>t. cs_output c' = cs_output c @ t) \<and> m = k c')"
proof (cases "is_present fb")
  case False
  then show ?thesis
    using good_printed [OF assms(1) hardware_lines_plain(4)] assms(2)
    by (simp add: Let_def line_good(1) [OF assms(1)])
      (rule exI [of _ "printed c (log_line Level.Info (str ''graphics'') (str ''no framebuffer; serial only''))"], simp)
next
  case True
  let ?c = "printed c (log_line Level.Info (str ''graphics'') (str ''framebuffer '' @ dec (fb_width fb) @ str ''x'' @
                 dec (fb_height fb) @ str '' at '' @ hex (fb_base fb)))"
  have g: "good ?c" using good_printed [OF assms(1) hardware_lines_plain(3)] .
  show ?thesis
  proof (cases "add64 (fb_base fb) offset")
    case None
    have m: "seq (lift (add64 (fb_base fb) offset)) f ?c = Panics ?c" for f :: "nat \<Rightarrow> 'a kernel"
      by (simp only: seq_def lift_def None option.case outcome.case)
    show ?thesis using True g None by (simp add: Let_def seq_assoc line_good(1) [OF assms(1)] m)
  next
    case (Some base)
    then have base: "base = fb_base fb + offset" by (simp add: add64_def split: if_splits)
    have present: "is_present (fb\<lparr>fb_base := base\<rparr>)" using True base by (simp add: is_present_def)
    have g2: "good (?c\<lparr>cs_surface := Some (fb\<lparr>fb_base := base\<rparr>)\<rparr>)"
      using g assms(3) True by (simp add: good_def console_free_def screen_ok_def surface_ok_def)
    have "framebuffer_record (fb\<lparr>fb_base := base\<rparr>) ?c = Runs () (?c\<lparr>cs_surface := Some (fb\<lparr>fb_base := base\<rparr>)\<rparr>)"
      using present g by (simp add: framebuffer_record_def good_def console_free_def)
    moreover have m: "seq (lift (add64 (fb_base fb) offset)) f ?c = f base ?c" for f :: "nat \<Rightarrow> 'a kernel"
      by (simp only: seq_def lift_def Some option.case outcome.case)
    ultimately show ?thesis using True Some g2 present base
      by (simp add: Let_def seq_assoc line_good(1) [OF assms(1)] framebuffer_init_def m)
        (rule exI [of _ "?c\<lparr>cs_surface := Some (fb\<lparr>fb_base := base\<rparr>)\<rparr>"], simp)
  qed
qed

lemma bring_up_unfold:
  assumes "fresh_console c"
  shows "bring_up api mem used boot_info c = (case boot_info of
       None \<Rightarrow> fail (str ''LokoOS could not start: the bootloader did not describe this device.'')
     | Some bi \<Rightarrow> (case BootInfo_validate mem bi of
            Inl e \<Rightarrow> then_do (error ''boot'' (str ''boot info rejected: '' @ BootInfoError_debug e)) (fail (BootInfoError_message e))
          | Inr _ \<Rightarrow> (\<lambda>c. then_do (if is_present (bi_framebuffer bi)
              then then_do (info ''graphics'' (str ''framebuffer '' @ dec (fb_width (bi_framebuffer bi)) @ str ''x'' @
                       dec (fb_height (bi_framebuffer bi)) @ str '' at '' @ hex (fb_base (bi_framebuffer bi))))
                     (seq (lift (add64 (fb_base (bi_framebuffer bi)) (bi_physical_memory_offset bi))) (\<lambda>base.
                       framebuffer_record (bi_framebuffer bi\<lparr>fb_base := base\<rparr>)))
              else info ''graphics'' (str ''no framebuffer; serial only''))
            (bring_up_memory mem used bi
               (Level_code (if bf_contains api (bi_flags bi) BootFlags_VERBOSE then Level.Trace else Level.Info))
               (if is_present (bi_framebuffer bi)
                then framebuffer_init None (bi_framebuffer bi\<lparr>fb_base := fb_base (bi_framebuffer bi) + bi_physical_memory_offset bi\<rparr>)
                else None)) (identified api bi c)))) (entered c)"
proof (cases boot_info)
  case None
  show ?thesis by (simp only: bring_up_def Let_def entered(4) [OF assms] None option.case)
next
  case (Some bi)
  show ?thesis
    by (cases "BootInfo_validate mem bi")
      (simp_all only: bring_up_def Let_def entered(4) [OF assms] Some option.case sum.case identified(4) [OF entered(1) [OF assms]])
qed

text \<open>Every way up ends as the computation without the log says.\<close>

lemma bring_up_refines:
  assumes "fresh_console c" and fb: "\<And>bi. boot_info = Some bi \<Longrightarrow> is_present (bi_framebuffer bi) \<Longrightarrow> surface_ok (bi_framebuffer bi)"
  shows "behaves good (bring_up api mem used boot_info c) (kernel_start api mem used boot_info) \<and>
    (\<forall>k c'. bring_up api mem used boot_info c = Runs k c' \<longrightarrow> reached_kernel k c')"
proof (cases boot_info)
  case None
  then show ?thesis
    using entered(1) [OF assms(1)] by (auto simp: bring_up_unfold [OF assms(1)] kernel_start_def behaves_def fail_not_Runs)
next
  case (Some bi)
  note start = entered [OF assms(1)]
  note ident = identified [OF start(1), of api bi]
  show ?thesis
  proof (cases "BootInfo_validate mem bi")
    case (Inl e)
    then show ?thesis
      using Some good_printed [OF start(1) rejection_line_plain]
      by (auto simp: bring_up_unfold [OF assms(1)] kernel_start_def behaves_def fail_not_Runs line_good [OF start(1)])
  next
    case (Inr u)
    let ?fb = "bi_framebuffer bi" and ?off = "bi_physical_memory_offset bi"
    let ?level = "Level_code (if bf_contains api (bi_flags bi) BootFlags_VERBOSE then Level.Trace else Level.Info)"
    let ?surface = "if is_present ?fb then framebuffer_init None (?fb\<lparr>fb_base := fb_base ?fb + ?off\<rparr>) else None"
    have none: "cs_surface (identified api bi (entered c)) = None" by (simp add: ident(2) start(2))
    have up: "bring_up api mem used boot_info c = then_do (if is_present ?fb
        then then_do (info ''graphics'' (str ''framebuffer '' @ dec (fb_width ?fb) @ str ''x'' @
                 dec (fb_height ?fb) @ str '' at '' @ hex (fb_base ?fb)))
               (seq (lift (add64 (fb_base ?fb) ?off)) (\<lambda>base. framebuffer_record (?fb\<lparr>fb_base := base\<rparr>)))
        else info ''graphics'' (str ''no framebuffer; serial only''))
      (bring_up_memory mem used bi ?level ?surface) (identified api bi (entered c))"
      by (simp only: bring_up_unfold [OF assms(1)] Some Inr option.case sum.case)
    from graphics_step [OF ident(1) none, of ?fb ?off "bring_up_memory mem used bi ?level ?surface"] fb [OF Some]
    consider c' where "is_present ?fb" "add64 (fb_base ?fb) ?off = Panic" "good c'" "bring_up api mem used boot_info c = Panics c'"
      | c' t where "is_present ?fb \<longrightarrow> add64 (fb_base ?fb) ?off = Ret (fb_base ?fb + ?off)" "good c'" "cs_surface c' = ?surface"
          "cs_level c' = ?level" "cs_output c' = cs_output (identified api bi (entered c)) @ t"
          "bring_up api mem used boot_info c = bring_up_memory mem used bi ?level ?surface c'"
      unfolding Let_def up [symmetric] ident(3) [OF start(3)] by blast
    then show ?thesis
    proof cases
      case 1
      have "kernel_start api mem used boot_info = None"
        by (simp only: kernel_start_def Some Inr option.case sum.case Let_def 1(1,2) if_True Option.bind.simps)
      then show ?thesis using 1(3,4) by (auto simp: behaves_def)
    next
      case (2 c' t)
      have surface: "(if is_present ?fb
          then do { base \<leftarrow> add64 (fb_base ?fb) ?off; Ret (framebuffer_init None (?fb\<lparr>fb_base := base\<rparr>)) }
          else Ret None) = Ret ?surface"
        using 2(1) by (cases "is_present ?fb") (simp_all only: if_True if_False Option.bind.simps simp_thms)
      have start_eq: "kernel_start api mem used boot_info =
          (do {
             memory \<leftarrow> setup_memory mem bi;
             case memory of
               Inl message \<Rightarrow> Ret (Inl message)
             | Inr frames \<Rightarrow> do {
                 heap \<leftarrow> setup_heap frames ?off;
                 case heap of
                   Inl message \<Rightarrow> Ret (Inl message)
                 | Inr (frames, heap) \<Rightarrow> do {
                     figures \<leftarrow> report frames used;
                     Ret (Inr \<lparr>k_log_level = ?level, k_surface = ?surface, k_frames = frames, k_heap = heap, k_report = figures\<rparr>)
                   }
               }
           })"
        by (simp only: kernel_start_def Some Inr option.case sum.case Let_def surface Option.bind.simps if_distrib [of Level_code])
      note tail = bring_up_memory_behaves [OF 2(2), of mem used bi ?level ?surface]
      have "behaves good (bring_up api mem used boot_info c) (kernel_start api mem used boot_info)"
        unfolding start_eq 2(6) using tail by (rule behaves_mono) (rule later_good [OF _ 2(2)])
      moreover have "reached_kernel k d" if d: "bring_up api mem used boot_info c = Runs k d" for k d
      proof -
        have later: "later c' d" using behaves_Runs(1) [OF tail d [unfolded 2(6)]] .
        have fields: "k_surface k = ?surface \<and> k_log_level k = ?level"
          using d by (simp only: 2(6) bring_up_memory_fields)
        have "contains_str (cs_output d) w" if "w \<in> set stage_lines" for w
        proof -
          have "contains_str (cs_output d) w" if "contains_str (cs_output (identified api bi (entered c))) w"
            by (rule later_contains [OF later]) (simp only: 2(5) contains_str_prefix [OF that])
          then show ?thesis
            using that identified_stages [of _ api bi c] bring_up_memory_stages [OF 2(2) d [unfolded 2(6)]]
            by (auto simp only: stage_lines_def list.set)
        qed
        then show ?thesis
          using later_good [OF later 2(2)] later_fields [OF later] 2(3,4) fields by (simp add: reached_kernel_def)
      qed
      ultimately show ?thesis by blast
    qed
  qed
qed

section \<open>What a run of the kernel shows\<close>

lemma fail_Halts:
  assumes "good c"
  shows "\<exists>screen. fail message c =
    Halts ((printed c (log_line Level.Error (str ''boot'') message @ stopped_text message))\<lparr>cs_screen := screen\<rparr>)"
proof -
  let ?c = "printed c (log_line Level.Error (str ''boot'') message)"
  obtain screen where "stop_screen (cs_surface c) (cs_screen c) = Ret screen"
    using paint_stop_screen_Runs [of c] assms by (auto simp: good_def)
  then have "panic_screen message ?c = Halts ((printed ?c (stopped_text message))\<lparr>cs_screen := screen\<rparr>)"
    using assms by (simp add: panic_screen_eq good_def console_free_def)
  then show ?thesis by (auto simp: fail_def line_good(3) [OF assms])
qed

lemma on_panic_Halts:
  assumes "good c"
  shows "\<exists>screen. on_panic what c =
    Halts ((printed c (10 # str ''*** LokoOS kernel panic ***'' @ 10 # what @ [10]))\<lparr>cs_screen := screen\<rparr>)"
proof -
  let ?c = "printed c (10 # str ''*** LokoOS kernel panic ***'' @ 10 # what @ [10])"
  have "console_free ?c" "screen_ok ?c" using assms by (simp_all add: good_def)
  then obtain screen where "paint_stop_screen ?c = Runs () (?c\<lparr>cs_screen := screen\<rparr>)"
    using paint_stop_screen_Runs by blast
  then show ?thesis by (auto simp: on_panic_def write_fmt_unlocked_def printed_def seq_def halt_forever_def)
qed

lemma entry_point_halts:
  assumes "fresh_console c" "\<And>bi. boot_info = Some bi \<Longrightarrow> is_present (bi_framebuffer bi) \<Longrightarrow> surface_ok (bi_framebuffer bi)"
  shows "\<exists>c' t. handled what (entry_point api mem used boot_info) c = Halts c' \<and> plain t \<and>
    (case kernel_start api mem used boot_info of
       None \<Rightarrow> cs_output c' = t @ 10 # str ''*** LokoOS kernel panic ***'' @ 10 # what @ [10]
     | Some (Inl message) \<Rightarrow>
         cs_output c' = t @ log_line Level.Error (str ''boot'') message @ stopped_text message
     | Some (Inr k) \<Rightarrow> cs_surface c' = k_surface k \<and> cs_level c' = k_log_level k \<and>
         (\<forall>w \<in> set stage_lines. contains_str t w) \<and>
         cs_output c' = t @ log_line Level.Info (str ''boot'') (str ''kernel initialised successfully and is halting''))"
proof -
  note up = bring_up_refines [where api = api and mem = mem and used = used and boot_info = boot_info, OF assms]
  show ?thesis
  proof (cases "kernel_start api mem used boot_info")
    case None
    with up obtain d where d: "bring_up api mem used boot_info c = Panics d" "good d" by (auto simp: behaves_def)
    then have "entry_point api mem used boot_info c = Panics d" by (simp add: entry_point_def)
    moreover obtain screen where "(on_panic what d :: unit outcome) =
        Halts ((printed d (10 # str ''*** LokoOS kernel panic ***'' @ 10 # what @ [10]))\<lparr>cs_screen := screen\<rparr>)"
      using on_panic_Halts [OF d(2)] by blast
    ultimately show ?thesis using d(2) unfolding None option.case by (auto simp: handled_def good_def)
  next
    case (Some out)
    show ?thesis
    proof (cases out)
      case (Inl message)
      with up Some obtain d where d: "bring_up api mem used boot_info c = fail message d" "good d" by (auto simp: behaves_def)
      then have "entry_point api mem used boot_info c = fail message d"
        unfolding entry_point_def by (intro seq_fails)
      moreover obtain screen where "(fail message d :: unit outcome) =
          Halts ((printed d (log_line Level.Error (str ''boot'') message @ stopped_text message))\<lparr>cs_screen := screen\<rparr>)"
        using fail_Halts [OF d(2)] by blast
      ultimately have "handled what (entry_point api mem used boot_info) c =
          Halts ((printed d (log_line Level.Error (str ''boot'') message @ stopped_text message))\<lparr>cs_screen := screen\<rparr>)"
        by (simp add: handled_def)
      then show ?thesis using d(2) unfolding Some Inl option.case sum.case by (auto simp: good_def)
    next
      case (Inr k)
      with up Some obtain d where d: "bring_up api mem used boot_info c = Runs k d" "reached_kernel k d" by (auto simp: behaves_def)
      let ?l9 = "log_line Level.Info (str ''boot'') (str ''stage 9: not implemented; no scheduler or storage stack yet'')"
      let ?last = "log_line Level.Info (str ''boot'') (str ''kernel initialised successfully and is halting'')"
      have g: "good d" using d(2) by (simp add: reached_kernel_def)
      have g9: "good (printed d ?l9)" using good_printed [OF g boot_lines_plain(6)] .
      have "entry_point api mem used boot_info c = Halts (printed d (?l9 @ ?last))"
        by (simp add: entry_point_def d(1) return_def line_good [OF g] line_good [OF g9] halt_forever_def)
      moreover have "plain (cs_output d @ ?l9)" using g9 by (simp add: good_def)
      moreover have "\<forall>w \<in> set stage_lines. contains_str (cs_output d @ ?l9) w"
        using d(2) contains_str_prefix unfolding reached_kernel_def by blast
      ultimately show ?thesis using d(2) unfolding Some Inr option.case sum.case
        by (intro exI [of _ "printed d (?l9 @ ?last)"] exI [of _ "cs_output d @ ?l9"])
          (simp add: handled_def reached_kernel_def)
    qed
  qed
qed

text \<open>
  C10. The entry point always halts the machine, and its serial output says truthfully how it went. The computation with
  all its log lines refines the one without: if that one comes up, the output shows
  every stage in lines that contain no word of a verdict, followed by the line that claims success, with the same
  surface and log level; if that one refuses, the output ends with its message, as an error line and behind the marker of a
  stop; if its arithmetic overflows, the output ends with the report of a panic.
\<close>

theorem entry_point_refines:
  assumes "fresh_console c" "\<And>bi. boot_info = Some bi \<Longrightarrow> is_present (bi_framebuffer bi) \<Longrightarrow> surface_ok (bi_framebuffer bi)"
  shows "\<exists>c' t. handled what (entry_point api mem used boot_info) c = Halts c' \<and> plain t \<and>
    (case kernel_start api mem used boot_info of
       None \<Rightarrow> cs_output c' = t @ 10 # str ''*** LokoOS kernel panic ***'' @ 10 # what @ [10]
     | Some (Inl message) \<Rightarrow>
         cs_output c' = t @ log_line Level.Error (str ''boot'') message @ stopped_text message
     | Some (Inr k) \<Rightarrow> cs_surface c' = k_surface k \<and> cs_level c' = k_log_level k \<and>
         (\<forall>w \<in> set stage_lines. contains_str t w) \<and>
         cs_output c' = t @ log_line Level.Info (str ''boot'') (str ''kernel initialised successfully and is halting''))"
  by (rule entry_point_halts [OF assms])

text \<open>A machine whose firmware has printed nothing, and the 4 MiB device of \<open>kernel_start_correct\<close>.\<close>

definition silent :: Console where
  "silent = quiet\<lparr>cs_port := False, cs_surface := None\<rparr>"

lemma silent_fresh: "fresh_console silent"
  by (simp add: fresh_console_def console_free_def silent_def quiet_def)

lemma four_mib_up: "\<exists>k. kernel_start word_bitflags four_mib 0 (Some four_mib_info) = Ret (Inr k)"
proof -
  have u64: "BootInfo_u64 four_mib_info"
    by (simp add: BootInfo_u64_def four_mib_info_def small_info_def Framebuffer_NONE_def)
  have low: "bi_physical_memory_offset four_mib_info + 2 ^ 34 \<le> 2 ^ 64"
    "fb_base (bi_framebuffer four_mib_info) + bi_physical_memory_offset four_mib_info < 2 ^ 64"
    by (simp_all add: four_mib_info_def small_info_def Framebuffer_NONE_def)
  have ex: "\<exists>f. {f..<f + 256} \<subseteq> available four_mib four_mib_info" using four_mib_available by blast
  show ?thesis using kernel_start_cases [OF four_mib_info_valid u64 low, of word_bitflags 0] unfolding if_P [OF ex] by blast
qed

theorem entry_point_refines_witness:
  "\<exists>c' t. handled [] (entry_point word_bitflags four_mib 0 (Some four_mib_info)) silent = Halts c' \<and> plain t \<and>
     cs_output c' = t @ log_line Level.Info (str ''boot'') (str ''kernel initialised successfully and is halting'')"
proof -
  have "surface_ok (bi_framebuffer bi)" if "Some four_mib_info = Some bi" "is_present (bi_framebuffer bi)" for bi
    using that by (auto simp: four_mib_info_def small_info_def Framebuffer_NONE_def is_present_def)
  from entry_point_refines [where boot_info = "Some four_mib_info" and what = "[]" and api = word_bitflags and mem = four_mib
      and used = 0, OF silent_fresh this] four_mib_up
  show ?thesis by auto
qed

end
