(* ===== verification/Boot_Test.thy ===== *)
theory Boot_Test
  imports Xtask_Host Kernel_Entry
begin

text \<open>
  The boot test of the build driver, \<^verbatim>\<open>src/tools/xtask/src/qemu.rs\<close>: it starts a virtual machine, polls the serial log
  and judges the boot by the lines it finds there. The last section runs it on the output of the kernel's entry point.
\<close>

section \<open>What the log is searched for\<close>

definition BOOT_STAGES :: "(rstr \<times> rstr) list" where
  "BOOT_STAGES =
     [(str ''LokoOS kernel'', str ''kernel entry reached''),
      (str ''stage 5: kernel entered'', str ''boot info accepted''),
      (str ''stage 6: descriptor tables'', str ''GDT, TSS and IDT loaded''),
      (str ''stage 7: physical memory'', str ''frame allocator built''),
      (str ''stage 8: kernel heap'', str ''heap initialised'')]"

definition SUCCESS_MARKER :: rstr where
  "SUCCESS_MARKER = str ''kernel initialised successfully and is halting''"

definition FAILURE_MARKERS :: "(rstr \<times> rstr) list" where
  "FAILURE_MARKERS =
     [(str ''*** LokoOS kernel panic ***'', str ''the kernel panicked''),
      (str ''*** LokoOS stopped ***'', str ''the kernel hit a fault it could not continue from''),
      (str ''LokoOS could not start'', str ''the kernel rejected what the bootloader handed it''),
      (str ''double fault'', str ''a fault occurred while handling a fault'')]"

text \<open>Times are in nanoseconds.\<close>

definition from_secs :: "nat \<Rightarrow> nat" where
  "from_secs secs = secs * 10 ^ 9"

definition DEFAULT_TIMEOUT :: nat where
  "DEFAULT_TIMEOUT = from_secs 90"

definition OVMF_CANDIDATES :: "(rstr \<times> rstr) list" where
  "OVMF_CANDIDATES =
     [(str ''/usr/share/OVMF/OVMF_CODE_4M.fd'', str ''/usr/share/OVMF/OVMF_VARS_4M.fd''),
      (str ''/usr/share/OVMF/OVMF_CODE.fd'', str ''/usr/share/OVMF/OVMF_VARS.fd''),
      (str ''/usr/share/edk2/ovmf/OVMF_CODE.fd'', str ''/usr/share/edk2/ovmf/OVMF_VARS.fd''),
      (str ''/usr/share/edk2/x64/OVMF_CODE.4m.fd'', str ''/usr/share/edk2/x64/OVMF_VARS.4m.fd''),
      (str ''/usr/share/qemu/edk2-x86_64-code.fd'', str ''/usr/share/qemu/edk2-i386-vars.fd'')]"

definition no_firmware_message :: rstr where
  "no_firmware_message =
     str ''could not find OVMF, the UEFI firmware QEMU needs.'' @ [10, 10] @
     str ''On Debian or Ubuntu:  sudo apt-get install -y ovmf'' @ 10 #
     str ''On Fedora:            sudo dnf install -y edk2-ovmf'' @ 10 #
     str ''On Arch:              sudo pacman -S edk2-ovmf'' @ [10, 10] @
     str ''Set LOKO_OVMF_CODE and LOKO_OVMF_VARS to point at it directly if it is'' @ 10 #
     str ''installed somewhere this does not look.''"

definition find_firmware :: "Host \<Rightarrow> (rstr \<times> rstr) task" where
  "find_firmware host =
     (case (h_env host (str ''LOKO_OVMF_CODE''), h_env host (str ''LOKO_OVMF_VARS'')) of
        (Some code, Some vars) \<Rightarrow> t_ok (code, vars)
      | _ \<Rightarrow> t_bind (t_ask (\<lambda>events. find (\<lambda>(code, vars). h_exists host events code \<and> h_exists host events vars) OVMF_CANDIDATES))
          (\<lambda>found. case found of Some pair \<Rightarrow> t_ok pair | None \<Rightarrow> t_err no_firmware_message))"

section \<open>Watching the log\<close>

record Outcome =
  oc_serial :: rstr
  oc_stages_reached :: nat
  oc_succeeded :: bool
  oc_failure :: "rstr option"

definition reached_stages :: "rstr \<Rightarrow> nat" where
  "reached_stages serial = length (takeWhile (\<lambda>(marker, _). contains_str serial marker) BOOT_STAGES)"

text \<open>The lines printed as new stages are reached.\<close>

definition progress :: "nat \<Rightarrow> nat \<Rightarrow> rstr list" where
  "progress reported reached = map (\<lambda>i. str ''  ok  '' @ snd (BOOT_STAGES ! i)) [reported..<reached]"

text \<open>
  One pass of the loop: the poll's number \<open>i\<close>, and the outcome the loop returns with at this poll, if it does.
\<close>

definition poll :: "Machine \<Rightarrow> nat \<Rightarrow> nat \<Rightarrow> Outcome option" where
  "poll m timeout i =
     (let serial = mc_log m i; reached = reached_stages serial in
      if contains_str serial SUCCESS_MARKER
      then Some \<lparr>oc_serial = serial, oc_stages_reached = reached, oc_succeeded = True, oc_failure = None\<rparr>
      else case find (\<lambda>(marker, _). contains_str serial marker) FAILURE_MARKERS of
        Some (_, description) \<Rightarrow>
          Some \<lparr>oc_serial = serial, oc_stages_reached = reached, oc_succeeded = False, oc_failure = Some description\<rparr>
      | None \<Rightarrow>
          (case mc_try_wait m i of
             Some success \<Rightarrow>
               Some \<lparr>oc_serial = mc_log_again m i, oc_stages_reached = reached, oc_succeeded = False,
                 oc_failure = Some (if success then str ''QEMU exited before the kernel finished starting''
                   else str ''QEMU exited with an error, which usually means a triple fault'')\<rparr>
           | None \<Rightarrow>
               if mc_elapsed m i > timeout
               then Some \<lparr>oc_serial = serial, oc_stages_reached = reached, oc_succeeded = False,
                 oc_failure = Some (str ''timed out with no further output'')\<rparr>
               else None))"

text \<open>
  The loop, from poll \<open>i\<close> on, with the number of stages reported so far and the lines printed. It need not end.
\<close>

partial_function (option) watch :: "Machine \<Rightarrow> nat \<Rightarrow> nat \<Rightarrow> nat \<Rightarrow> rstr list \<Rightarrow> (rstr list \<times> Outcome) option" where
  "watch m timeout i reported said =
     (let reached = reached_stages (mc_log m i);
          said = said @ progress reported reached in
      case poll m timeout i of
        Some outcome \<Rightarrow> Some (said, outcome)
      | None \<Rightarrow> watch m timeout (Suc i) (max reported reached) said)"

section \<open>The test\<close>

definition qemu_args :: "rstr \<Rightarrow> rstr \<Rightarrow> rstr \<Rightarrow> rstr \<Rightarrow> rstr list" where
  "qemu_args image_file code vars serial_log =
     [str ''-machine'', str ''q35'', str ''-cpu'', str ''max'', str ''-m'', str ''512M'',
      str ''-drive'', str ''if=pflash,format=raw,unit=0,readonly=on,file='' @ code,
      str ''-drive'', str ''if=pflash,format=raw,unit=1,file='' @ vars,
      str ''-drive'', str ''file='' @ image_file @ str '',format=raw,media=cdrom,readonly=on'',
      str ''-serial'', str ''file:'' @ serial_log, str ''-display'', str ''none'', str ''-no-reboot'']"

definition spawn_qemu :: "Host \<Rightarrow> rstr \<Rightarrow> rstr \<Rightarrow> rstr \<Rightarrow> rstr \<Rightarrow> Machine task" where
  "spawn_qemu host image_file code vars serial_log events =
     (let args = qemu_args image_file code vars serial_log; binary = str ''qemu-system-x86_64'' in
      case h_spawn host events binary args of
        Inl e \<Rightarrow> Some (events, Inl (str ''could not start QEMU: '' @ e))
      | Inr machine \<Rightarrow> Some (events @ [Ran binary args], Inr machine))"

definition command_exists :: "Host \<Rightarrow> rstr \<Rightarrow> bool task" where
  "command_exists host binary = t_bind (t_command host binary [str ''--version'']) (\<lambda>x. t_ok (started x))"

definition no_qemu_message :: rstr where
  "no_qemu_message =
     str ''qemu-system-x86_64 is not on PATH.'' @ [10, 10] @
     str ''On Debian or Ubuntu:  sudo apt-get install -y qemu-system-x86'' @ 10 #
     str ''On Fedora:            sudo dnf install -y qemu-system-x86'' @ 10 #
     str ''On macOS:             brew install qemu''"

definition t_watch :: "Machine \<Rightarrow> nat \<Rightarrow> Outcome task" where
  "t_watch m timeout events =
     (case watch m timeout 0 0 [] of None \<Rightarrow> None | Some (said, outcome) \<Rightarrow> Some (events @ map Said said, Inr outcome))"

definition boot_test :: "Host \<Rightarrow> rstr \<Rightarrow> rstr \<Rightarrow> nat \<Rightarrow> Outcome task" where
  "boot_test host image_file out_dir timeout =
     t_bind (command_exists host (str ''qemu-system-x86_64'')) (\<lambda>present.
     if \<not> present then t_err no_qemu_message
     else t_bind (find_firmware host) (\<lambda>(code, firmware_vars).
       let vars = join_path out_dir (str ''OVMF_VARS.local.fd''); serial_log = join_path out_dir (str ''serial.log'') in
       t_then (t_file (\<lambda>events. h_make_dir host events out_dir) (MadeDir out_dir)
                 (\<lambda>e. str ''could not create '' @ out_dir @ str '': '' @ e))
      (t_then (t_file (\<lambda>events. h_copy host events firmware_vars vars) (CopiedFile firmware_vars vars)
                 (\<lambda>e. str ''could not copy firmware variables from '' @ firmware_vars @ str '': '' @ e))
      (t_then (t_try (\<lambda>events. h_remove_file host events serial_log) (RemovedFile serial_log))
      (t_then (t_say (str ''  firmware  '' @ code))
      (t_then (t_say (str ''  image     '' @ image_file))
      (t_then (t_say (str ''  serial    '' @ serial_log))
      (t_bind (spawn_qemu host image_file code vars serial_log) (\<lambda>machine. t_watch machine timeout)))))))))"

definition boot_timeout :: "Host \<Rightarrow> nat" where
  "boot_timeout host =
     (case Option.bind (h_env host (str ''LOKO_BOOT_TIMEOUT_SECS'')) parse_u64 of
        Some secs \<Rightarrow> from_secs secs
      | None \<Rightarrow> DEFAULT_TIMEOUT)"

text \<open>What is said of an outcome: the serial output, and success or the reason of the failure.\<close>

definition reached_text :: "nat \<Rightarrow> rstr" where
  "reached_text stages =
     (if stages = 0 then str ''nothing at all''
      else snd (BOOT_STAGES ! (stages - 1)) @ str '' ('' @ dec stages @ str '' of '' @ dec (length BOOT_STAGES) @ str '' stages)'')"

definition judge :: "Outcome \<Rightarrow> unit task" where
  "judge outcome =
     t_then (t_say (10 # str ''--- serial output ---''))
    (t_then (if trim (oc_serial outcome) = []
             then t_say (str ''(nothing: the kernel never reached its first log line)'')
             else t_for (\<lambda>line. t_say (str ''  '' @ line)) (lines (oc_serial outcome)))
    (t_then (t_say (str ''--- end of serial output ---'' @ [10]))
    (if oc_succeeded outcome
     then t_say (str ''LokoOS booted. All '' @ dec (length BOOT_STAGES) @ str '' stages reached, and the kernel finished'' @ 10 #
            str ''initialising and halted as designed.'')
     else t_err (str ''LokoOS did not finish booting.'' @ 10 #
            str ''  Reached: '' @ reached_text (oc_stages_reached outcome) @ 10 #
            str ''  Stopped: '' @ (case oc_failure outcome of Some f \<Rightarrow> f | None \<Rightarrow> str ''for an unknown reason'') @ [10, 10] @
            str ''The serial output above is everything the kernel managed to say.''))))"

definition qemu_run :: "Host \<Rightarrow> rstr \<Rightarrow> rstr \<Rightarrow> unit task" where
  "qemu_run host image_file out_dir =
     (let timeout = boot_timeout host in
      t_then (t_say (10 # str ''Booting LokoOS under QEMU''))
        (t_bind (boot_test host image_file out_dir timeout) judge))"

section \<open>The loop ends\<close>

text \<open>The loop returns what the first deciding poll decides.\<close>

lemma watch_decides:
  assumes "poll m timeout (i + n) = Some outcome" "\<And>j. j < n \<Longrightarrow> poll m timeout (i + j) = None"
  shows "\<exists>more. watch m timeout i reported said = Some (said @ more, outcome)"
  using assms
proof (induction n arbitrary: i reported said)
  case 0
  then show ?case by (subst watch.simps) (simp add: Let_def)
next
  case (Suc n)
  have none: "poll m timeout i = None" using Suc.prems(2) [of 0] by simp
  have "poll m timeout (Suc i + n) = Some outcome" using Suc.prems(1) by simp
  moreover have "poll m timeout (Suc i + j) = None" if "j < n" for j using Suc.prems(2) [of "Suc j"] that by simp
  ultimately obtain more where "watch m timeout (Suc i) (max reported (reached_stages (mc_log m i)))
      (said @ progress reported (reached_stages (mc_log m i))) =
      Some ((said @ progress reported (reached_stages (mc_log m i))) @ more, outcome)"
    using Suc.IH by blast
  then show ?case by (subst watch.simps) (simp add: Let_def none)
qed

lemma watch_first:
  assumes "poll m timeout n \<noteq> None"
  shows "\<exists>j outcome more. j \<le> n \<and> poll m timeout j = Some outcome \<and> (\<forall>k < j. poll m timeout k = None) \<and>
    watch m timeout 0 0 [] = Some (more, outcome)"
proof -
  define j where "j = (LEAST j. poll m timeout j \<noteq> None)"
  have j: "poll m timeout j \<noteq> None" "j \<le> n" "\<And>k. k < j \<Longrightarrow> poll m timeout k = None"
    using assms LeastI [of "\<lambda>j. poll m timeout j \<noteq> None"] Least_le [of "\<lambda>j. poll m timeout j \<noteq> None"]
      not_less_Least [of _ "\<lambda>j. poll m timeout j \<noteq> None"] unfolding j_def by blast+
  then obtain outcome where o: "poll m timeout j = Some outcome" by blast
  with watch_decides [of m timeout 0 j outcome 0 "[]"] j show ?thesis by auto
qed

lemma poll_timeout: "timeout < mc_elapsed m i \<Longrightarrow> poll m timeout i \<noteq> None"
  by (simp add: poll_def Let_def split: option.split)

text \<open>
  C32. A boot test always ends. However the machine behaves, even if the kernel hangs without a word, the loop
  returns at the latest at the first poll after the timeout, and a timeout is reported only then: never while the time is not up.
  It claims success exactly if a poll up to then reads the kernel's last line and no earlier poll could decide anything.
\<close>

theorem watch_terminates:
  assumes "timeout < mc_elapsed m n"
  shows "\<exists>j outcome more. j \<le> n \<and> watch m timeout 0 0 [] = Some (more, outcome) \<and> poll m timeout j = Some outcome \<and>
    (\<forall>k < j. poll m timeout k = None) \<and>
    (oc_failure outcome = Some (str ''timed out with no further output'') \<longrightarrow> timeout < mc_elapsed m j) \<and>
    (oc_succeeded outcome \<longleftrightarrow> contains_str (mc_log m j) SUCCESS_MARKER)"
proof -
  obtain j outcome more where j: "j \<le> n" "poll m timeout j = Some outcome" "\<forall>k < j. poll m timeout k = None"
    "watch m timeout 0 0 [] = Some (more, outcome)"
    using watch_first [OF poll_timeout [OF assms]] by blast
  have "(oc_failure outcome = Some (str ''timed out with no further output'') \<longrightarrow> timeout < mc_elapsed m j)"
    using j(2) by (auto simp: poll_def Let_def FAILURE_MARKERS_def str_def split: if_splits option.splits)
  moreover have "oc_succeeded outcome \<longleftrightarrow> contains_str (mc_log m j) SUCCESS_MARKER"
    using j(2) by (auto simp: poll_def Let_def split: if_splits option.splits)
  ultimately show ?thesis using j by blast
qed

text \<open>A machine that prints nothing and never exits, polled every 250 milliseconds.\<close>

definition hung :: Machine where
  "hung = \<lparr>mc_log = (\<lambda>i. []), mc_log_again = (\<lambda>i. []), mc_try_wait = (\<lambda>i. None), mc_elapsed = (\<lambda>i. i * 250000000)\<rparr>"

theorem watch_terminates_witness:
  "\<exists>outcome more. watch hung DEFAULT_TIMEOUT 0 0 [] = Some (more, outcome) \<and> \<not> oc_succeeded outcome"
proof -
  have "DEFAULT_TIMEOUT < mc_elapsed hung 361" by (simp add: DEFAULT_TIMEOUT_def from_secs_def hung_def)
  from watch_terminates [OF this] obtain j outcome more where
    j: "watch hung DEFAULT_TIMEOUT 0 0 [] = Some (more, outcome)" "oc_succeeded outcome \<longleftrightarrow> contains_str (mc_log hung j) SUCCESS_MARKER"
    by blast
  moreover have "\<not> contains_str (mc_log hung j) SUCCESS_MARKER" by (simp add: hung_def SUCCESS_MARKER_def str_def)
  ultimately show ?thesis by blast
qed

section \<open>What the test says of the kernel\<close>

text \<open>
  The virtual machine runs the kernel that writes \<open>output\<close>: every read of the log finds a beginning of it, poll \<open>n\<close> finds all of it,
  the time is not up before that, and the emulator does not exit, as the kernel ends by halting the processor.
\<close>

definition shows_output :: "Machine \<Rightarrow> nat \<Rightarrow> nat \<Rightarrow> rstr \<Rightarrow> bool" where
  "shows_output m timeout n out \<longleftrightarrow> (\<forall>i. take (length (mc_log m i)) out = mc_log m i) \<and> mc_log m n = out \<and>
     (\<forall>i. mc_try_wait m i = None) \<and> (\<forall>i \<le> n. mc_elapsed m i \<le> timeout)"

lemma poll_shown:
  assumes "shows_output m timeout n out" "i \<le> n"
  shows "poll m timeout i =
    (let serial = mc_log m i; reached = reached_stages serial in
     if contains_str serial SUCCESS_MARKER
     then Some \<lparr>oc_serial = serial, oc_stages_reached = reached, oc_succeeded = True, oc_failure = None\<rparr>
     else map_option (\<lambda>(_, description). \<lparr>oc_serial = serial, oc_stages_reached = reached, oc_succeeded = False,
       oc_failure = Some description\<rparr>) (find (\<lambda>(marker, _). contains_str serial marker) FAILURE_MARKERS))"
  using assms by (auto simp: poll_def shows_output_def Let_def split: option.split)

definition markers :: "rstr list" where
  "markers = SUCCESS_MARKER # map fst FAILURE_MARKERS"

text \<open>A beginning of the output has a marker only in what follows the plain lines.\<close>

lemma marker_in_rest:
  assumes "plain t" "marker \<in> set markers"
  shows "contains_str (t @ s) marker \<longleftrightarrow> contains_str s marker"
proof -
  have "\<forall>marker \<in> set markers. (\<exists>w \<in> set verdict_words. contains_str marker w) \<and> 10 \<notin> set marker"
    by (simp add: markers_def SUCCESS_MARKER_def FAILURE_MARKERS_def verdict_words_def str_def)
  then show ?thesis using plain_without [OF assms(1)] assms(2) by blast
qed

lemma marker_not_in_plain: "plain t \<Longrightarrow> marker \<in> set markers \<Longrightarrow> \<not> contains_str t marker"
  using marker_in_rest [of t marker "[]"] by (auto simp: markers_def SUCCESS_MARKER_def FAILURE_MARKERS_def str_def)

lemma prefix_cases:
  assumes "take (length p) (t @ rest) = p"
  obtains s where "t = p @ s" | q s where "p = t @ q" "rest = q @ s"
proof -
  obtain s where "t @ rest = p @ s" using append_take_drop_id [of "length p" "t @ rest"] assms by metis
  then show ?thesis using that by (metis append_eq_append_conv2)
qed

lemma marker_in_prefix:
  assumes "plain t" "marker \<in> set markers" "take (length p) (t @ rest) = p" "contains_str p marker"
  shows "\<exists>q s. p = t @ q \<and> rest = q @ s \<and> contains_str q marker"
  using assms(3)
proof (rule prefix_cases)
  fix s
  assume "t = p @ s"
  then have "contains_str t marker" using assms(4) by (simp add: contains_str_prefix)
  then show ?thesis using marker_not_in_plain assms(1,2) by blast
next
  fix q s
  assume "p = t @ q" "rest = q @ s"
  then show ?thesis using marker_in_rest assms(1,2,4) by blast
qed

lemma stage_markers: "set stage_lines = fst ` set BOOT_STAGES" "length BOOT_STAGES = 5"
  by (auto simp: stage_lines_def BOOT_STAGES_def)

lemma all_stages_reached:
  assumes "\<forall>w \<in> set stage_lines. contains_str s w"
  shows "reached_stages s = 5"
proof -
  have "takeWhile (\<lambda>(marker, _). contains_str s marker) BOOT_STAGES = BOOT_STAGES"
    using assms by (simp add: takeWhile_eq_all_conv stage_markers(1)) auto
  then show ?thesis by (simp only: reached_stages_def stage_markers(2))
qed

text \<open>The messages the kernel refuses to start with.\<close>

definition refusals :: "rstr list" where
  "refusals = map BootInfoError_message [BadMagic, VersionMismatch 0 0, BootInfoError.TooSmall, NoMemoryMap, MalformedRegion,
       UnsortedMemoryMap, NoUsableMemory, MisalignedPhysicalOffset] @
     [str ''LokoOS could not start: the bootloader did not describe this device.'', memory_message,
      str ''LokoOS could not start: there isn't enough memory in this device.'']"

lemma kernel_start_refusal:
  assumes "kernel_start api mem used boot_info = Ret (Inl message)"
  shows "message \<in> set refusals"
proof -
  have e: "BootInfoError_message e \<in> set refusals" for e by (cases e) (simp_all add: refusals_def)
  have heap: "m = str ''LokoOS could not start: there isn't enough memory in this device.''"
    if "setup_heap frames offset = Ret (Inl m)" for frames offset m
  proof (cases "allocate_contiguous frames (div_ceil64 HEAP_SIZE FRAME_SIZE)")
    case (Some x)
    then show ?thesis using that
      by (cases x, cases "snd x") (auto simp: setup_heap_def bind_eq_Some_conv)
  qed (use that in \<open>simp add: setup_heap_def\<close>)
  have memory: "m = memory_message" if "setup_memory mem bi = Ret (Inl m)" for bi m
  proof (cases "from_memory_map FRAME_BITMAP (mem (bi_memory_map bi) (bi_memory_map_len bi))")
    case (Some x)
    then show ?thesis using that
      by (cases x) (auto simp: setup_memory_def Let_def bind_eq_Some_conv split: if_split_asm)
  qed (use that in \<open>simp add: setup_memory_def Let_def\<close>)
  have fixed: "str ''LokoOS could not start: the bootloader did not describe this device.'' \<in> set refusals"
    "memory_message \<in> set refusals" "str ''LokoOS could not start: there isn't enough memory in this device.'' \<in> set refusals"
    by (simp_all add: refusals_def)
  show ?thesis
  proof (cases boot_info)
    case None
    then show ?thesis using assms fixed(1) by (simp add: kernel_start_def)
  next
    case (Some bi)
    show ?thesis
    proof (cases "BootInfo_validate mem bi")
      case (Inl e)
      then show ?thesis using assms Some \<open>\<And>e. BootInfoError_message e \<in> set refusals\<close> by (auto simp: kernel_start_def)
    next
      case (Inr u)
      then obtain x where x: "setup_memory mem bi = Some x"
        using assms Some by (auto simp: kernel_start_def Let_def bind_eq_Some_conv)
      show ?thesis
      proof (cases x)
        case (Inl m)
        then show ?thesis
          using assms Some Inr x memory [of bi m] fixed(2) by (auto simp: kernel_start_def Let_def bind_eq_Some_conv)
      next
        case (Inr frames)
        then obtain y where y: "setup_heap frames (bi_physical_memory_offset bi) = Some y"
          using assms Some \<open>BootInfo_validate mem bi = Inr u\<close> x by (auto simp: kernel_start_def Let_def bind_eq_Some_conv)
        then show ?thesis
          using assms Some \<open>BootInfo_validate mem bi = Inr u\<close> x Inr heap fixed(3)
          by (cases y) (auto simp: kernel_start_def Let_def bind_eq_Some_conv)
      qed
    qed
  qed
qed

definition refusal_text :: "rstr \<Rightarrow> rstr" where
  "refusal_text message = log_line Level.Error (str ''boot'') message @ stopped_text message"

text \<open>The marker of a stop has a line of its own, followed by the message.\<close>

lemma stopped_text_contains:
  assumes "10 \<notin> set marker" "marker \<noteq> []"
  shows "contains_str (stopped_text message) marker \<longleftrightarrow>
    contains_str (str ''*** LokoOS stopped ***'') marker \<or> contains_str message marker"
proof -
  have "contains_str (stopped_text message) marker \<longleftrightarrow>
      contains_str ([] @ [10] @ str ''*** LokoOS stopped ***'' @ [10] @ message @ [10] @ []) marker"
    by (simp add: stopped_text_def)
  moreover have "\<not> contains_str [] marker" using assms(2) by simp
  ultimately show ?thesis unfolding contains_str_line [OF assms] by blast
qed

lemma log_line_lines:
  assumes "10 \<notin> set marker" "marker \<noteq> []"
  shows "contains_str (log_line level subsystem args @ s) marker \<longleftrightarrow>
    contains_str (str ''['' @ Level_tag level @ str ''] '' @ pad_right 10 subsystem @ str '' '' @ args) marker \<or> contains_str s marker"
  using contains_str_line [OF assms, of "str ''['' @ Level_tag level @ str ''] '' @ pad_right 10 subsystem @ str '' '' @ args" s]
  by (simp add: log_line_def)

lemma refusal_words:
  "\<forall>message \<in> set refusals. \<forall>w \<in> {str ''lting'', str ''***'', str ''double''}.
     \<not> contains_str (str ''['' @ Level_tag Level.Error @ str ''] '' @ pad_right 10 (str ''boot'') @ str '' '' @ message) w"
  by (simp add: refusals_def memory_message_def str_def pad_right_def contains_str_Cons replicate_numeral)

lemma refusal_starts: "\<forall>message \<in> set refusals. starts_with message (str ''LokoOS could not start'')"
  by (simp add: refusals_def memory_message_def starts_with_def str_def)

lemma refusal_markers:
  "\<forall>message \<in> set refusals.
     \<not> contains_str (refusal_text message) SUCCESS_MARKER \<and>
     \<not> contains_str (refusal_text message) (str ''*** LokoOS kernel panic ***'') \<and>
     \<not> contains_str (refusal_text message) (str ''double fault'') \<and>
     contains_str (refusal_text message) (str ''*** LokoOS stopped ***'') \<and>
     contains_str (refusal_text message) (str ''LokoOS could not start'')"
proof
  fix message
  assume m: "message \<in> set refusals"
  have lines: "contains_str (refusal_text message) marker \<longleftrightarrow>
      contains_str (str ''['' @ Level_tag Level.Error @ str ''] '' @ pad_right 10 (str ''boot'') @ str '' '' @ message) marker \<or>
      contains_str (str ''*** LokoOS stopped ***'') marker" if "10 \<notin> set marker" "marker \<noteq> []" for marker
  proof -
    have "contains_str message marker \<Longrightarrow> contains_str (a @ b @ c @ d @ e @ message) marker" for a b c d e
      by (intro contains_str_append disjI2)
    then show ?thesis unfolding refusal_text_def log_line_lines [OF that] stopped_text_contains [OF that] by blast
  qed
  have words: "contains_str SUCCESS_MARKER (str ''lting'')" "contains_str (str ''*** LokoOS kernel panic ***'') (str ''***'')"
      "contains_str (str ''double fault'') (str ''double'')"
    by (simp_all add: SUCCESS_MARKER_def str_def)
  have fixed: "\<not> contains_str (str ''*** LokoOS stopped ***'') SUCCESS_MARKER"
      "\<not> contains_str (str ''*** LokoOS stopped ***'') (str ''*** LokoOS kernel panic ***'')"
      "\<not> contains_str (str ''*** LokoOS stopped ***'') (str ''double fault'')"
      "10 \<notin> set SUCCESS_MARKER" "SUCCESS_MARKER \<noteq> []" "10 \<notin> set (str ''*** LokoOS kernel panic ***'')"
      "str ''*** LokoOS kernel panic ***'' \<noteq> []" "10 \<notin> set (str ''double fault'')" "str ''double fault'' \<noteq> []"
      "10 \<notin> set (str ''*** LokoOS stopped ***'')" "str ''*** LokoOS stopped ***'' \<noteq> []"
      "10 \<notin> set (str ''LokoOS could not start'')" "str ''LokoOS could not start'' \<noteq> []"
    by (simp_all add: SUCCESS_MARKER_def str_def)
  obtain rest where "message = str ''LokoOS could not start'' @ rest"
    using refusal_starts m by (auto simp: starts_with_def) (metis append_take_drop_id)
  then have start: "contains_str message (str ''LokoOS could not start'')"
    using contains_str_prefix contains_str_self by metis
  have absent: "\<not> contains_str (refusal_text message) marker"
    if "w \<in> {str ''lting'', str ''***'', str ''double''}" "contains_str marker w" "10 \<notin> set marker" "marker \<noteq> []"
      "\<not> contains_str (str ''*** LokoOS stopped ***'') marker" for marker w
    using lines [OF that(3,4)] that(5) refusal_words m contains_str_factor [OF _ that(2)] that(1) by blast
  have "\<not> contains_str (refusal_text message) SUCCESS_MARKER" by (rule absent [OF _ words(1) fixed(4,5,1)]) blast
  moreover have "\<not> contains_str (refusal_text message) (str ''*** LokoOS kernel panic ***'')"
    by (rule absent [OF _ words(2) fixed(6,7,2)]) blast
  moreover have "\<not> contains_str (refusal_text message) (str ''double fault'')" by (rule absent [OF _ words(3) fixed(8,9,3)]) blast
  moreover have "contains_str (refusal_text message) (str ''*** LokoOS stopped ***'')"
    using lines [OF fixed(10,11)] contains_str_self by blast
  moreover have "contains_str (refusal_text message) (str ''LokoOS could not start'')"
    unfolding lines [OF fixed(12,13)] append_assoc [symmetric] using contains_str_append [OF disjI2 [OF start]] by blast
  ultimately show "\<not> contains_str (refusal_text message) SUCCESS_MARKER \<and>
     \<not> contains_str (refusal_text message) (str ''*** LokoOS kernel panic ***'') \<and>
     \<not> contains_str (refusal_text message) (str ''double fault'') \<and>
     contains_str (refusal_text message) (str ''*** LokoOS stopped ***'') \<and>
     contains_str (refusal_text message) (str ''LokoOS could not start'')" by blast
qed

text \<open>Once the whole output has been read, the test has decided.\<close>

lemma shown_decided:
  assumes "shows_output m timeout n out" "marker \<in> set markers" "contains_str out marker"
  obtains j said outcome where "j \<le> n" "watch m timeout 0 0 [] = Some (said, outcome)" "poll m timeout j = Some outcome"
proof -
  have log: "mc_log m n = out" using assms(1) by (simp add: shows_output_def)
  have "poll m timeout n \<noteq> None"
  proof (cases "contains_str out SUCCESS_MARKER")
    case True
    then show ?thesis by (simp add: poll_shown [OF assms(1) order_refl] log Let_def)
  next
    case False
    then have "marker \<in> fst ` set FAILURE_MARKERS" using assms(2,3) by (auto simp: markers_def)
    then have "find (\<lambda>(marker, _). contains_str out marker) FAILURE_MARKERS \<noteq> None"
      using assms(3) by (auto simp: find_None_iff)
    with False show ?thesis by (simp add: poll_shown [OF assms(1) order_refl] log Let_def)
  qed
  from watch_first [OF this] show ?thesis using that by blast
qed

lemma poll_verdict:
  assumes "shows_output m timeout n out" "j \<le> n" "poll m timeout j = Some outcome"
  shows "oc_serial outcome = mc_log m j \<and> oc_stages_reached outcome = reached_stages (mc_log m j) \<and>
    (if contains_str (mc_log m j) SUCCESS_MARKER then oc_succeeded outcome \<and> oc_failure outcome = None
     else \<not> oc_succeeded outcome \<and> (\<exists>marker description. (marker, description) \<in> set FAILURE_MARKERS \<and> marker \<in> set markers \<and>
       contains_str (mc_log m j) marker \<and> oc_failure outcome = Some description \<and>
       find (\<lambda>(marker, _). contains_str (mc_log m j) marker) FAILURE_MARKERS = Some (marker, description)))"
proof (cases "contains_str (mc_log m j) SUCCESS_MARKER")
  case True
  then show ?thesis using assms(3) by (auto simp: poll_shown [OF assms(1,2)] Let_def)
next
  case False
  then obtain marker description where f: "find (\<lambda>(marker, _). contains_str (mc_log m j) marker) FAILURE_MARKERS = Some (marker, description)"
      "outcome = \<lparr>oc_serial = mc_log m j, oc_stages_reached = reached_stages (mc_log m j), oc_succeeded = False,
         oc_failure = Some description\<rparr>"
    using assms(3) by (auto simp: poll_shown [OF assms(1,2)] Let_def)
  then have "(marker, description) \<in> set FAILURE_MARKERS" "contains_str (mc_log m j) marker"
    by (auto simp: find_Some_iff) (metis nth_mem)
  then show ?thesis using f False by (auto simp: markers_def image_iff intro: bexI [of _ "(marker, description)"])
qed

lemma success_verdict:
  assumes shown: "shows_output m timeout n (t @ log_line Level.Info (str ''boot'') SUCCESS_MARKER)"
    and t: "plain t" "\<forall>w \<in> set stage_lines. contains_str t w"
  shows "\<exists>said outcome. watch m timeout 0 0 [] = Some (said, outcome) \<and>
    oc_succeeded outcome \<and> oc_failure outcome = None \<and> oc_stages_reached outcome = 5"
proof -
  let ?line = "log_line Level.Info (str ''boot'') SUCCESS_MARKER"
  have "SUCCESS_MARKER \<in> set markers" by (simp add: markers_def)
  moreover have "contains_str (t @ ?line) SUCCESS_MARKER"
    by (rule contains_str_append) (simp add: log_line_contains contains_str_self)
  ultimately obtain j said outcome where j: "j \<le> n" "watch m timeout 0 0 [] = Some (said, outcome)" "poll m timeout j = Some outcome"
    using shown_decided [OF shown] by blast
  note v = poll_verdict [OF shown j(1,3)]
  have prefix: "take (length (mc_log m j)) (t @ ?line) = mc_log m j" using shown by (simp add: shows_output_def)
  note inside = marker_in_prefix [OF t(1) _ prefix]
  have "\<forall>marker \<in> fst ` set FAILURE_MARKERS. \<not> contains_str ?line marker"
    by (simp add: FAILURE_MARKERS_def SUCCESS_MARKER_def log_line_def str_def pad_right_def replicate_numeral contains_str_Cons)
  then have no_failure: "\<not> contains_str (mc_log m j) marker" if "(marker, d) \<in> set FAILURE_MARKERS" "marker \<in> set markers" for marker d
    using inside [OF that(2)] that(1) contains_str_prefix by fastforce
  have success: "contains_str (mc_log m j) SUCCESS_MARKER"
    using v no_failure by (auto split: if_splits)
  then obtain q where "mc_log m j = t @ q" using inside \<open>SUCCESS_MARKER \<in> set markers\<close> by blast
  then have "reached_stages (mc_log m j) = 5"
    using t(2) by (intro all_stages_reached) (simp add: contains_str_prefix)
  then show ?thesis using v success j(2) by auto
qed

lemma refusal_verdict:
  assumes shown: "shows_output m timeout n (t @ refusal_text message)" and t: "plain t" and message: "message \<in> set refusals"
  shows "\<exists>said outcome. watch m timeout 0 0 [] = Some (said, outcome) \<and> \<not> oc_succeeded outcome \<and>
    oc_failure outcome = Some (if contains_str (oc_serial outcome) (str ''*** LokoOS stopped ***'')
      then str ''the kernel hit a fault it could not continue from''
      else str ''the kernel rejected what the bootloader handed it'')"
proof -
  have stopped: "str ''*** LokoOS stopped ***'' \<in> set markers" by (simp add: markers_def FAILURE_MARKERS_def)
  note r = refusal_markers [rule_format, OF message]
  have "contains_str (t @ refusal_text message) (str ''*** LokoOS stopped ***'')"
    using r by (intro contains_str_append) blast
  with stopped obtain j said outcome where
    j: "j \<le> n" "watch m timeout 0 0 [] = Some (said, outcome)" "poll m timeout j = Some outcome"
    using shown_decided [OF shown] by blast
  have prefix: "take (length (mc_log m j)) (t @ refusal_text message) = mc_log m j" using shown by (simp add: shows_output_def)
  have absent: "\<not> contains_str (mc_log m j) marker" if "marker \<in> set markers" "\<not> contains_str (refusal_text message) marker" for marker
    using marker_in_prefix [OF t that(1) prefix] that(2) contains_str_prefix by fastforce
  have no: "\<not> contains_str (mc_log m j) SUCCESS_MARKER" "\<not> contains_str (mc_log m j) (str ''*** LokoOS kernel panic ***'')"
    "\<not> contains_str (mc_log m j) (str ''double fault'')"
    by (rule absent; use r in \<open>simp add: markers_def FAILURE_MARKERS_def\<close>)+
  from poll_verdict [OF shown j(1,3)] no(1) obtain d where d: "oc_serial outcome = mc_log m j" "\<not> oc_succeeded outcome" "oc_failure outcome = Some d"
    "\<exists>marker. find (\<lambda>(marker, _). contains_str (mc_log m j) marker) FAILURE_MARKERS = Some (marker, d)" by auto
  have "d = (if contains_str (mc_log m j) (str ''*** LokoOS stopped ***'')
      then str ''the kernel hit a fault it could not continue from''
      else str ''the kernel rejected what the bootloader handed it'')"
    using d(4) no(2,3) unfolding FAILURE_MARKERS_def find.simps prod.case by (simp split: if_splits)
  then show ?thesis using d j(2) by auto
qed

lemma prefix_take: "length a \<le> length p \<Longrightarrow> take (length a) (p @ r) = take (length a) p" "take (length a) (a @ r) = a"
  by simp_all

lemma panic_only:
  assumes "marker \<in> fst ` set FAILURE_MARKERS" "contains_str (10 # str ''*** LokoOS kernel panic ***'') marker"
  shows "marker = str ''*** LokoOS kernel panic ***''"
proof -
  have "\<not> contains_str (10 # str ''*** LokoOS kernel panic ***'') (str ''*** LokoOS stopped ***'')"
    "\<not> contains_str (10 # str ''*** LokoOS kernel panic ***'') (str ''LokoOS could not start'')"
    "\<not> contains_str (10 # str ''*** LokoOS kernel panic ***'') (str ''double fault'')"
    by (simp_all add: str_def contains_str_Cons)
  with assms show ?thesis unfolding FAILURE_MARKERS_def by auto
qed

lemma panic_verdict:
  assumes shown: "shows_output m timeout n (t @ 10 # str ''*** LokoOS kernel panic ***'' @ 10 # what @ [10])" and t: "plain t"
    and what: "\<not> contains_str what SUCCESS_MARKER"
  shows "\<exists>said outcome. watch m timeout 0 0 [] = Some (said, outcome) \<and> \<not> oc_succeeded outcome \<and>
    oc_failure outcome = Some (str ''the kernel panicked'')"
proof -
  let ?panic = "str ''*** LokoOS kernel panic ***''" and ?rest = "10 # str ''*** LokoOS kernel panic ***'' @ 10 # what @ [10]"
  have panic: "?panic \<in> set markers" by (simp add: markers_def FAILURE_MARKERS_def)
  have "contains_str ?rest ?panic"
    unfolding contains_str_iff by (rule exI [of _ "[10]"], rule exI [of _ "10 # what @ [10]"]) simp
  then have "contains_str (t @ ?rest) ?panic" by (intro contains_str_append disjI2)
  with panic obtain j said outcome where
    j: "j \<le> n" "watch m timeout 0 0 [] = Some (said, outcome)" "poll m timeout j = Some outcome"
    using shown_decided [OF shown] by blast
  note v = poll_verdict [OF shown j(1,3)]
  have prefix: "take (length (mc_log m j)) (t @ ?rest) = mc_log m j" using shown by (simp add: shows_output_def)
  note inside = marker_in_prefix [OF t _ prefix]
  have s: "10 \<notin> set SUCCESS_MARKER" "SUCCESS_MARKER \<noteq> []" "\<not> contains_str ?panic SUCCESS_MARKER" "\<not> contains_str [] SUCCESS_MARKER"
    by (simp_all add: SUCCESS_MARKER_def str_def contains_str_Cons)
  have "\<not> contains_str ([] @ [10] @ ?panic @ [10] @ what @ [10] @ []) SUCCESS_MARKER"
    unfolding contains_str_line [OF s(1,2)] using s(3,4) what by blast
  then have no: "\<not> contains_str (mc_log m j) SUCCESS_MARKER"
    using inside [of SUCCESS_MARKER] contains_str_prefix by (fastforce simp: markers_def)
  then obtain marker where marker: "marker \<in> set markers" "contains_str (mc_log m j) marker" "marker \<in> fst ` set FAILURE_MARKERS"
    using v by (auto simp: image_iff) (metis fst_conv)
  obtain q s where q: "mc_log m j = t @ q" "?rest = q @ s" "contains_str q marker" using inside [OF marker(1,2)] by blast
  have rest: "(10 # ?panic) @ 10 # what @ [10] = q @ s" using q(2) by (simp only: append_Cons)
  have "contains_str q ?panic"
  proof (cases "length q \<le> length (10 # ?panic)")
    case True
    then have "q = take (length q) (10 # ?panic)"
      using arg_cong [OF rest, of "take (length q)"] by (simp only: prefix_take)
    then have "10 # ?panic = q @ drop (length q) (10 # ?panic)" using append_take_drop_id by metis
    then have "contains_str (10 # ?panic) marker" using q(3) contains_str_prefix by metis
    then have "marker = ?panic" using panic_only [OF marker(3)] by blast
    then show ?thesis using q(3) by simp
  next
    case False
    then have "length (10 # ?panic) \<le> length q" by linarith
    then have "10 # ?panic = take (length (10 # ?panic)) q"
      using arg_cong [OF rest, of "take (length (10 # ?panic))"] by (simp only: prefix_take)
    then have "q = (10 # ?panic) @ drop (length (10 # ?panic)) q" using append_take_drop_id by metis
    moreover have "contains_str (10 # ?panic) ?panic"
      unfolding contains_str_iff by (rule exI [of _ "[10]"], rule exI [of _ "[]"]) simp
    ultimately show ?thesis using contains_str_prefix by metis
  qed
  then have "contains_str (mc_log m j) ?panic" unfolding q(1) by (intro contains_str_append disjI2)
  then have "find (\<lambda>(marker, _). contains_str (mc_log m j) marker) FAILURE_MARKERS = Some (?panic, str ''the kernel panicked'')"
    unfolding FAILURE_MARKERS_def find.simps prod.case by (simp only: if_True)
  then show ?thesis using v no j(2) by auto
qed

lemma started_verdict:
  assumes fresh: "fresh_console c"
    and surface: "\<And>bi. boot_info = Some bi \<Longrightarrow> is_present (bi_framebuffer bi) \<Longrightarrow> surface_ok (bi_framebuffer bi)"
    and halted: "handled what (entry_point api mem used boot_info) c = Halts c'"
    and shown: "shows_output m timeout n (cs_output c')" and what: "\<not> contains_str what SUCCESS_MARKER"
  shows "\<exists>said outcome. watch m timeout 0 0 [] = Some (said, outcome) \<and>
    (case kernel_start api mem used boot_info of
       None \<Rightarrow> \<not> oc_succeeded outcome \<and> oc_failure outcome = Some (str ''the kernel panicked'')
     | Some (Inl message) \<Rightarrow> \<not> oc_succeeded outcome \<and>
         oc_failure outcome = Some (if contains_str (oc_serial outcome) (str ''*** LokoOS stopped ***'')
           then str ''the kernel hit a fault it could not continue from''
           else str ''the kernel rejected what the bootloader handed it'')
     | Some (Inr k) \<Rightarrow> oc_succeeded outcome \<and> oc_failure outcome = None \<and> oc_stages_reached outcome = 5)"
proof -
  obtain d t where d: "handled what (entry_point api mem used boot_info) c = Halts d" and t: "plain t"
    "case kernel_start api mem used boot_info of
       None \<Rightarrow> cs_output d = t @ 10 # str ''*** LokoOS kernel panic ***'' @ 10 # what @ [10]
     | Some (Inl message) \<Rightarrow> cs_output d = t @ log_line Level.Error (str ''boot'') message @ stopped_text message
     | Some (Inr k) \<Rightarrow> cs_surface d = k_surface k \<and> cs_level d = k_log_level k \<and>
         (\<forall>w \<in> set stage_lines. contains_str t w) \<and>
         cs_output d = t @ log_line Level.Info (str ''boot'') (str ''kernel initialised successfully and is halting'')"
    using entry_point_halts [where boot_info = boot_info and what = what and api = api and mem = mem and used = used, OF fresh surface]
    by blast
  have "d = c'" using d halted by simp
  note t = t(1) t(2) [unfolded this]
  show ?thesis
  proof (cases "kernel_start api mem used boot_info")
    case None
    with t(2) shown have "shows_output m timeout n (t @ 10 # str ''*** LokoOS kernel panic ***'' @ 10 # what @ [10])" by simp
    then show ?thesis using panic_verdict [OF _ t(1) what] None by simp
  next
    case (Some r)
    show ?thesis
    proof (cases r)
      case (Inl message)
      with t(2) Some shown have "shows_output m timeout n (t @ refusal_text message)" by (simp add: refusal_text_def)
      then show ?thesis
        using refusal_verdict [OF _ t(1) kernel_start_refusal [of api mem used boot_info message]] Some Inl by simp
    next
      case (Inr k)
      with t(2) Some shown have "shows_output m timeout n (t @ log_line Level.Info (str ''boot'') SUCCESS_MARKER)"
        "\<forall>w \<in> set stage_lines. contains_str t w" by (simp_all add: SUCCESS_MARKER_def)
      then show ?thesis using success_verdict [OF _ t(1)] Some Inr by simp
    qed
  qed
qed

text \<open>
  C14. The boot test's verdict about a kernel is right. Whenever it reads the log, and whatever it has read so far: a machine
  whose entry point comes up is reported as booted with all five stages; one that refuses is never reported as booted; and one that panics is
  reported as panicked. Of a refusal it says that the kernel rejected what it was handed only if it happens to read the log
  between the two lines the kernel prints about it; once the second is there, it says that the kernel hit a fault.
\<close>

theorem boot_test_verdict:
  assumes fresh: "fresh_console c"
    and surface: "\<And>bi. boot_info = Some bi \<Longrightarrow> is_present (bi_framebuffer bi) \<Longrightarrow> surface_ok (bi_framebuffer bi)"
    and halted: "handled what (entry_point api mem used boot_info) c = Halts c'"
    and shown: "shows_output m timeout n (cs_output c')" and what: "\<not> contains_str what SUCCESS_MARKER"
  shows "\<exists>said outcome. watch m timeout 0 0 [] = Some (said, outcome) \<and>
    (case kernel_start api mem used boot_info of
       None \<Rightarrow> \<not> oc_succeeded outcome \<and> oc_failure outcome = Some (str ''the kernel panicked'')
     | Some (Inl message) \<Rightarrow> \<not> oc_succeeded outcome \<and>
         oc_failure outcome = Some (if contains_str (oc_serial outcome) (str ''*** LokoOS stopped ***'')
           then str ''the kernel hit a fault it could not continue from''
           else str ''the kernel rejected what the bootloader handed it'')
     | Some (Inr k) \<Rightarrow> oc_succeeded outcome \<and> oc_failure outcome = None \<and> oc_stages_reached outcome = 5)"
  by (rule started_verdict [OF assms])

text \<open>A machine that runs the kernel of \<open>entry_point_refines\<close> to its end before the first poll.\<close>

definition finished :: "rstr \<Rightarrow> Machine" where
  "finished out = \<lparr>mc_log = (\<lambda>i. out), mc_log_again = (\<lambda>i. out), mc_try_wait = (\<lambda>i. None), mc_elapsed = (\<lambda>i. 0)\<rparr>"

lemma finished_shows: "shows_output (finished out) timeout 0 out"
  by (simp add: shows_output_def finished_def)

theorem boot_test_verdict_witness:
  "\<exists>c' said outcome. handled [] (entry_point word_bitflags four_mib 0 (Some four_mib_info)) silent = Halts c' \<and>
     watch (finished (cs_output c')) DEFAULT_TIMEOUT 0 0 [] = Some (said, outcome) \<and> oc_succeeded outcome"
proof -
  have surface: "surface_ok (bi_framebuffer bi)" if "Some four_mib_info = Some bi" "is_present (bi_framebuffer bi)" for bi
    using that by (auto simp: four_mib_info_def small_info_def Framebuffer_NONE_def is_present_def)
  obtain c' where c': "handled [] (entry_point word_bitflags four_mib 0 (Some four_mib_info)) silent = Halts c'"
    using entry_point_halts [where boot_info = "Some four_mib_info" and what = "[]" and api = word_bitflags and mem = four_mib
      and used = 0, OF silent_fresh surface] by blast
  have "\<not> contains_str [] SUCCESS_MARKER" by (simp add: SUCCESS_MARKER_def str_def)
  from boot_test_verdict [where boot_info = "Some four_mib_info" and timeout = DEFAULT_TIMEOUT, OF silent_fresh surface c' finished_shows this] four_mib_up c'
  show ?thesis by fastforce
qed

section \<open>How a refusal is reported\<close>

text \<open>What the kernel has printed when it halts because it refused its boot information.\<close>

lemma rejected_output:
  assumes fresh: "fresh_console c" "cs_output c = []" and rejected: "BootInfo_validate mem bi = Inl e"
    and halted: "handled what (entry_point api mem used (Some bi)) c = Halts c'"
  shows "cs_output c' = log_line Level.Info (str ''boot'') (str ''LokoOS kernel '' @ VERSION) @
    log_line Level.Info (str ''boot'') (str ''stage 5: kernel entered'') @
    log_line Level.Error (str ''boot'') (str ''boot info rejected: '' @ BootInfoError_debug e) @
    refusal_text (BootInfoError_message e)"
proof -
  note start = entered [OF fresh(1)]
  let ?c = "printed (entered c) (log_line Level.Error (str ''boot'') (str ''boot info rejected: '' @ BootInfoError_debug e))"
  have g: "good ?c" using good_printed [OF start(1) rejection_line_plain] .
  have "bring_up api mem used (Some bi) c = fail (BootInfoError_message e) ?c"
    by (simp add: bring_up_unfold [OF fresh(1)] rejected line_good [OF start(1)])
  then have "entry_point api mem used (Some bi) c = fail (BootInfoError_message e) ?c"
    unfolding entry_point_def by (intro seq_fails)
  moreover obtain screen where "(fail (BootInfoError_message e) ?c :: unit outcome) =
      Halts ((printed ?c (log_line Level.Error (str ''boot'') (BootInfoError_message e) @ stopped_text (BootInfoError_message e)))\<lparr>cs_screen := screen\<rparr>)"
    using fail_Halts [OF g] by blast
  ultimately show ?thesis using halted fresh(2) by (auto simp: handled_def refusal_text_def entered_def)
qed

lemma t_for_say: "\<exists>events'. t_for (\<lambda>line. t_say (f line)) ls events = Some (events', Inr ())"
  by (induction ls arbitrary: events) simp_all

lemma judge_failed:
  assumes "\<not> oc_succeeded outcome" "oc_stages_reached outcome = 2" "oc_failure outcome = Some f"
  shows "\<exists>events'. judge outcome events = Some (events', Inl (
     str ''LokoOS did not finish booting.'' @ 10 # str ''  Reached: boot info accepted (2 of 5 stages)'' @ 10 #
     str ''  Stopped: '' @ f @ [10, 10] @ str ''The serial output above is everything the kernel managed to say.''))"
proof -
  obtain events' where "(if trim (oc_serial outcome) = []
      then t_say (str ''(nothing: the kernel never reached its first log line)'')
      else t_for (\<lambda>line. t_say (str ''  '' @ line)) (lines (oc_serial outcome))) (events @ [Said (10 # str ''--- serial output ---'')]) =
      Some (events', Inr ())"
    using t_for_say [of "\<lambda>line. str ''  '' @ line" "lines (oc_serial outcome)"] by (cases "trim (oc_serial outcome) = []") auto
  moreover have "reached_text 2 = str ''boot info accepted (2 of 5 stages)''"
    by (simp add: reached_text_def BOOT_STAGES_def dec.simps str_def)
  ultimately show ?thesis using assms by (simp add: judge_def str_def)
qed

lemma rejected_stages:
  "reached_stages (log_line Level.Info (str ''boot'') (str ''LokoOS kernel '' @ VERSION) @
    log_line Level.Info (str ''boot'') (str ''stage 5: kernel entered'') @
    log_line Level.Error (str ''boot'') (str ''boot info rejected: '' @ BootInfoError_debug e) @
    refusal_text (BootInfoError_message e)) = 2" (is "reached_stages ?out = 2")
proof -
  have "contains_str ?out (str ''LokoOS kernel'')"
    by (simp add: log_line_def VERSION_def str_def pad_right_def replicate_numeral contains_str_Cons)
  moreover have "contains_str ?out (str ''stage 5: kernel entered'')"
    using log_line_contains [OF contains_str_self] contains_str_append by blast
  moreover have tables: "contains_str (str ''stage 6: descriptor tables'') (str ''descriptor tables'')"
    by (simp add: str_def contains_str_Cons)
  have "\<not> contains_str ?out (str ''descriptor tables'')"
    by (cases e; simp add: refusal_text_def stopped_text_def log_line_def VERSION_def word_search)
  then have "\<not> contains_str ?out (str ''stage 6: descriptor tables'')"
    using contains_str_factor [OF _ tables] by blast
  ultimately show ?thesis
    by (simp only: reached_stages_def BOOT_STAGES_def takeWhile.simps prod.case if_True if_False) simp
qed

text \<open>
  The report of a refused boot is wrong in both of its lines. The kernel refuses boot information that it finds invalid; if the boot test's
  first read that finds anything finds all of the output, its error message says that the boot info was accepted, as the line of stage 5
  is printed before the check, and that the kernel hit a fault, as the line of a stop is searched for before the line of a refusal.
\<close>

theorem refusal_report:
  assumes fresh: "fresh_console c" "cs_output c = []" and rejected: "BootInfo_validate mem bi = Inl e"
    and surface: "is_present (bi_framebuffer bi) \<Longrightarrow> surface_ok (bi_framebuffer bi)"
    and halted: "handled what (entry_point api mem used (Some bi)) c = Halts c'"
    and shown: "shows_output m timeout n (cs_output c')" "\<And>i. i < n \<Longrightarrow> mc_log m i = []"
  shows "\<exists>said outcome. watch m timeout 0 0 [] = Some (said, outcome) \<and> oc_stages_reached outcome = 2 \<and>
    (\<forall>events. \<exists>events'. judge outcome events = Some (events', Inl (
       str ''LokoOS did not finish booting.'' @ 10 #
       str ''  Reached: boot info accepted (2 of 5 stages)'' @ 10 #
       str ''  Stopped: '' @ str ''the kernel hit a fault it could not continue from'' @ [10, 10] @
       str ''The serial output above is everything the kernel managed to say.'')))"
proof -
  note out = rejected_output [OF fresh rejected halted]
  have start: "kernel_start api mem used (Some bi) = Ret (Inl (BootInfoError_message e))"
    using rejected by (simp add: kernel_start_def)
  note message = kernel_start_refusal [OF start]
  note r = refusal_markers [rule_format, OF message]
  have stopped: "contains_str (cs_output c') (str ''*** LokoOS stopped ***'')"
    unfolding out using r by (intro contains_str_append disjI2) blast
  obtain j said outcome where j: "j \<le> n" "watch m timeout 0 0 [] = Some (said, outcome)" "poll m timeout j = Some outcome"
    using shown_decided [OF shown(1) _ stopped] by (auto simp: markers_def FAILURE_MARKERS_def)
  have "poll m timeout i = None" if "i < n" for i
    using poll_shown [OF shown(1), of i] shown(2) [OF that] that
    by (simp add: Let_def SUCCESS_MARKER_def FAILURE_MARKERS_def str_def)
  with j have "j = n" by (metis le_neq_implies_less option.distinct(1))
  then have log: "mc_log m j = cs_output c'" using shown(1) by (simp add: shows_output_def)
  have v: "oc_serial outcome = mc_log m j" "oc_stages_reached outcome = reached_stages (mc_log m j)"
    using poll_verdict [OF shown(1) j(1,3)] by simp_all
  have "plain (log_line Level.Info (str ''boot'') (str ''LokoOS kernel '' @ VERSION) @
      log_line Level.Info (str ''boot'') (str ''stage 5: kernel entered'') @
      log_line Level.Error (str ''boot'') (str ''boot info rejected: '' @ BootInfoError_debug e))"
    by (intro plain_append boot_lines_plain rejection_line_plain)
  from refusal_verdict [OF _ this message, of m timeout n] shown(1) j(2) out
  have f: "\<not> oc_succeeded outcome" "oc_failure outcome = Some (if contains_str (oc_serial outcome) (str ''*** LokoOS stopped ***'')
      then str ''the kernel hit a fault it could not continue from''
      else str ''the kernel rejected what the bootloader handed it'')" by (simp_all only: append_assoc) auto
  have stages: "oc_stages_reached outcome = 2" unfolding v(2) log out by (rule rejected_stages)
  have failure: "oc_failure outcome = Some (str ''the kernel hit a fault it could not continue from'')"
    using f(2) stopped unfolding v(1) log by simp
  show ?thesis using j(2) stages judge_failed [OF f(1) stages failure] by blast
qed

text \<open>The 4 MiB device, with an empty memory map.\<close>

definition no_map_info :: BootInfo where
  "no_map_info = four_mib_info\<lparr>bi_memory_map_len := 0\<rparr>"

theorem refusal_report_witness:
  "\<exists>c' said outcome. handled [] (entry_point word_bitflags four_mib 0 (Some no_map_info)) silent = Halts c' \<and>
     watch (finished (cs_output c')) DEFAULT_TIMEOUT 0 0 [] = Some (said, outcome) \<and> oc_stages_reached outcome = 2"
proof -
  have surface: "is_present (bi_framebuffer no_map_info) \<Longrightarrow> surface_ok (bi_framebuffer no_map_info)"
    by (simp add: no_map_info_def four_mib_info_def small_info_def Framebuffer_NONE_def is_present_def)
  have rejected: "BootInfo_validate four_mib no_map_info = Inl NoMemoryMap"
    by (simp add: no_map_info_def BootInfo_validate_def PROTOCOL_VERSION_MAJOR_def size_of_BootInfo_def
      size_of_Framebuffer_def four_mib_info_def small_info_def)
  obtain c' where c': "handled [] (entry_point word_bitflags four_mib 0 (Some no_map_info)) silent = Halts c'"
    using entry_point_halts [where boot_info = "Some no_map_info" and what = "[]" and api = word_bitflags and mem = four_mib
      and used = 0, OF silent_fresh] surface by blast
  have quiet: "cs_output silent = []" by (simp add: silent_def quiet_def)
  from refusal_report [OF silent_fresh quiet rejected surface c' finished_shows [of "cs_output c'" DEFAULT_TIMEOUT]] c'
  show ?thesis by blast
qed

end
