(* ===== verification/Boot_Faults.thy ===== *)
theory Boot_Faults
  imports Boot_Test
begin

text \<open>
  How the boot test of \<^verbatim>\<open>tools/xtask/src/qemu.rs\<close> sees a kernel that dies of a processor exception while it starts: the points of
  the start-up at which one can strike, the handlers of \<^verbatim>\<open>kernel/loko-kernel/src/arch/idt.rs\<close> (theory \<open>Kernel_Console\<close>), which run
  once the interrupt descriptor table is loaded, and the polling loop (theory \<open>Boot_Test\<close>).
\<close>

section \<open>Where an exception can strike\<close>

text \<open>
  A point of the start-up: the console, what the critical section of the serial port still has to write, and whether \<^verbatim>\<open>idt::init\<close> has
  been reached. A step takes the lock of the port to initialise it or to print a line, initialises it, writes one byte, or releases
  the lock; sets the log level; loads the descriptor tables; or takes the lock of the surface, records a surface, or releases it. Everything
  else the kernel does on its way up leaves all of this as it is. \<open>start_path\<close> shows that \<open>bring_up\<close> takes such steps.
\<close>

type_synonym point = "Console \<times> rstr \<times> bool"

inductive start_step :: "point \<Rightarrow> point \<Rightarrow> bool" where
  take_port: "console_free c \<Longrightarrow> start_step (c, [], tables) (c\<lparr>cs_serial_held := True\<rparr>, [], tables)"
| init_port: "cs_serial_held c \<Longrightarrow> start_step (c, [], tables) (c\<lparr>cs_port := True\<rparr>, [], tables)"
| take_to_print: "console_free c \<Longrightarrow> cs_port c \<Longrightarrow> plain (line @ [10]) \<Longrightarrow>
    start_step (c, [], tables) (c\<lparr>cs_serial_held := True\<rparr>, line @ [10], tables)"
| print_byte: "cs_serial_held c \<Longrightarrow>
    start_step (c, b # rest, tables) (c\<lparr>cs_output := cs_output c @ [b]\<rparr>, rest, tables)"
| release_port: "cs_serial_held c \<Longrightarrow> start_step (c, [], tables) (c\<lparr>cs_serial_held := False\<rparr>, [], tables)"
| log_level: "console_free c \<Longrightarrow> level \<le> 2 \<Longrightarrow> start_step (c, [], tables) (c\<lparr>cs_level := level\<rparr>, [], tables)"
| load_tables: "console_free c \<Longrightarrow> cs_port c \<Longrightarrow> cs_level c \<le> 2 \<Longrightarrow> start_step (c, [], False) (c, [], True)"
| take_surface: "console_free c \<Longrightarrow> start_step (c, [], tables) (c\<lparr>cs_surface_held := True\<rparr>, [], tables)"
| record_surface: "cs_surface_held c \<Longrightarrow> surface_ok fb \<Longrightarrow>
    start_step (c, [], tables) (c\<lparr>cs_surface := Some fb\<rparr>, [], tables)"
| release_surface: "cs_surface_held c \<Longrightarrow> start_step (c, [], tables) (c\<lparr>cs_surface_held := False\<rparr>, [], tables)"

text \<open>What holds at all points: the text is plain, or will be when the line is complete.\<close>

fun on_the_way :: "point \<Rightarrow> bool" where
  "on_the_way (c, pending, tables) \<longleftrightarrow> plain (cs_output c @ pending) \<and> screen_ok c \<and> (\<not> cs_serial_held c \<longrightarrow> pending = []) \<and>
     (tables \<longrightarrow> cs_port c \<and> cs_level c \<le> 2)"

lemma start_step_invariant: "start_step p q \<Longrightarrow> on_the_way p \<Longrightarrow> on_the_way q"
  by (induction rule: start_step.induct) (auto simp: screen_ok_def console_free_def plain_append)

lemma reachable_on_the_way:
  assumes "start_step\<^sup>*\<^sup>* (c0, [], False) p" "fresh_console c0"
  shows "on_the_way p"
  using assms(1)
proof (induction rule: rtranclp_induct)
  case base
  show ?case using assms(2) by (simp add: fresh_console_def screen_ok_def console_free_def)
next
  case (step p q)
  show ?case by (rule start_step_invariant [OF step.hyps(2) step.IH])
qed

subsection \<open>The start-up takes these steps\<close>

lemma write_path:
  "cs_serial_held c \<Longrightarrow> start_step\<^sup>*\<^sup>* (c, rest, tables) (c\<lparr>cs_output := cs_output c @ rest\<rparr>, [], tables)"
proof (induction rest arbitrary: c)
  case (Cons b rest)
  have "start_step\<^sup>*\<^sup>* (c\<lparr>cs_output := cs_output c @ [b]\<rparr>, rest, tables) (c\<lparr>cs_output := cs_output c @ b # rest\<rparr>, [], tables)"
    using Cons.IH [of "c\<lparr>cs_output := cs_output c @ [b]\<rparr>"] Cons.prems by simp
  with print_byte [OF Cons.prems] show ?case by (rule converse_rtranclp_into_rtranclp)
qed simp

lemma locked_update:
  "c\<lparr>cs_serial_held := True, cs_output := text\<rparr> = c\<lparr>cs_output := text, cs_serial_held := True\<rparr>"
  "c\<lparr>cs_serial_held := True, cs_port := True\<rparr> = c\<lparr>cs_port := True, cs_serial_held := True\<rparr>"
  "c\<lparr>cs_surface_held := True, cs_surface := surface\<rparr> = c\<lparr>cs_surface := surface, cs_surface_held := True\<rparr>"
  by (cases c, simp)+

lemma released:
  assumes "console_free c"
  shows "start_step (c\<lparr>cs_serial_held := True\<rparr>, [], tables) (c, [], tables)"
    "start_step (c\<lparr>cs_surface_held := True\<rparr>, [], tables) (c, [], tables)"
proof -
  have "c\<lparr>cs_serial_held := False\<rparr> = c" "c\<lparr>cs_surface_held := False\<rparr> = c"
    using assms by (cases c, simp add: console_free_def)+
  then show "start_step (c\<lparr>cs_serial_held := True\<rparr>, [], tables) (c, [], tables)"
    "start_step (c\<lparr>cs_surface_held := True\<rparr>, [], tables) (c, [], tables)"
    using release_port [of "c\<lparr>cs_serial_held := True\<rparr>" tables] release_surface [of "c\<lparr>cs_surface_held := True\<rparr>" tables] by simp_all
qed

lemma line_path:
  assumes "console_free c" "cs_port c" "plain (line @ [10])"
  shows "start_step\<^sup>*\<^sup>* (c, [], tables) (printed c (line @ [10]), [], tables)"
proof -
  have "start_step\<^sup>*\<^sup>* (c\<lparr>cs_serial_held := True\<rparr>, line @ [10], tables)
      (c\<lparr>cs_serial_held := True, cs_output := cs_output c @ line @ [10]\<rparr>, [], tables)"
    using write_path [of "c\<lparr>cs_serial_held := True\<rparr>"] by simp
  with take_to_print [OF assms]
  have "start_step\<^sup>*\<^sup>* (c, [], tables) (c\<lparr>cs_serial_held := True, cs_output := cs_output c @ line @ [10]\<rparr>, [], tables)"
    by (rule converse_rtranclp_into_rtranclp)
  also have "start_step (c\<lparr>cs_serial_held := True, cs_output := cs_output c @ line @ [10]\<rparr>, [], tables)
      (printed c (line @ [10]), [], tables)"
    using released(1) [of "printed c (line @ [10])" tables] assms(1) by (simp add: printed_def locked_update console_free_def)
  finally show ?thesis .
qed

lemma print_path:
  assumes "console_free c" "cs_port c" "plain t"
  shows "start_step\<^sup>*\<^sup>* (c, [], tables) (printed c t, [], tables)"
proof -
  obtain lines where l: "t = concat (map (\<lambda>l. l @ [10]) lines)" "\<forall>l \<in> set lines. \<forall>w \<in> set verdict_words. \<not> contains_str l w"
    using assms(3) unfolding plain_def by blast
  have "start_step\<^sup>*\<^sup>* (c, [], tables) (printed c (concat (map (\<lambda>l. l @ [10]) lines)), [], tables)"
    using l(2) assms(1,2)
  proof (induction lines arbitrary: c)
    case (Cons l ls)
    have "plain (l @ [10])" unfolding plain_def by (rule exI [of _ "[l]"]) (use Cons.prems(1) in simp)
    note first = line_path [OF Cons.prems(2,3) this, of tables]
    have "start_step\<^sup>*\<^sup>* (printed c (l @ [10]), [], tables) (printed c (concat (map (\<lambda>l. l @ [10]) (l # ls))), [], tables)"
      using Cons.IH [of "printed c (l @ [10])"] Cons.prems by simp
    with first show ?case by (rule rtranclp_trans)
  qed (simp add: printed_def)
  with l(1) show ?thesis by simp
qed

lemma init_path:
  assumes "console_free c"
  shows "start_step\<^sup>*\<^sup>* (c, [], False) (c\<lparr>cs_port := True, cs_level := 2\<rparr>, [], False)"
proof -
  let ?held = "c\<lparr>cs_serial_held := True\<rparr>"
  have "start_step\<^sup>*\<^sup>* (c, [], False) (?held, [], False)" using take_port [OF assms] by (rule r_into_rtranclp)
  also have "start_step (?held, [], False) (?held\<lparr>cs_port := True\<rparr>, [], False)" by (rule init_port) simp
  also have "start_step (?held\<lparr>cs_port := True\<rparr>, [], False) (c\<lparr>cs_port := True\<rparr>, [], False)"
    using released(1) [of "c\<lparr>cs_port := True\<rparr>" False] assms by (simp add: console_free_def locked_update)
  also have "start_step (c\<lparr>cs_port := True\<rparr>, [], False) (c\<lparr>cs_port := True, cs_level := 2\<rparr>, [], False)"
    using log_level [of "c\<lparr>cs_port := True\<rparr>" 2 False] assms by (simp add: console_free_def)
  finally show ?thesis .
qed

lemma surface_path:
  assumes "console_free c" "surface_ok fb"
  shows "start_step\<^sup>*\<^sup>* (c, [], tables) (c\<lparr>cs_surface := Some fb\<rparr>, [], tables)"
proof -
  let ?held = "c\<lparr>cs_surface_held := True\<rparr>"
  have "start_step\<^sup>*\<^sup>* (c, [], tables) (?held, [], tables)" using take_surface [OF assms(1)] by (rule r_into_rtranclp)
  also have "start_step (?held, [], tables) (?held\<lparr>cs_surface := Some fb\<rparr>, [], tables)" by (rule record_surface) (simp_all add: assms(2))
  also have "start_step (?held\<lparr>cs_surface := Some fb\<rparr>, [], tables) (c\<lparr>cs_surface := Some fb\<rparr>, [], tables)"
    using released(2) [of "c\<lparr>cs_surface := Some fb\<rparr>" tables] assms(1) by (simp add: console_free_def locked_update)
  finally show ?thesis .
qed

lemma entered_path:
  assumes "fresh_console c"
  shows "start_step\<^sup>*\<^sup>* (c, [], False) (entered c, [], False)"
proof -
  let ?c = "c\<lparr>cs_port := True, cs_level := 2\<rparr>"
  have "start_step\<^sup>*\<^sup>* (c, [], False) (?c, [], False)"
    using assms by (intro init_path) (simp add: fresh_console_def)
  also have "start_step\<^sup>*\<^sup>* (?c, [], False) (entered c, [], False)"
    unfolding entered_def using assms
    by (intro print_path plain_append boot_lines_plain) (simp_all add: fresh_console_def console_free_def)
  finally show ?thesis .
qed

lemma identified_path:
  assumes "good c"
  shows "start_step\<^sup>*\<^sup>* (c, [], False) (identified api bi c, [], True)"
proof -
  let ?c = "if bf_contains api (bi_flags bi) BootFlags_VERBOSE then c\<lparr>cs_level := 0\<rparr> else c"
  have g: "console_free c" "cs_port c" "cs_level c \<le> 2" using assms by (simp_all add: good_def)
  have "start_step\<^sup>*\<^sup>* (c, [], False) (?c, [], False)" using log_level [OF g(1), of 0 False] by (simp add: r_into_rtranclp)
  also have "start_step\<^sup>*\<^sup>* (?c, [], False) (identified api bi c, [], False)"
    unfolding identified_def using g hardware_lines_plain(1,2)
    by (intro print_path plain_append boot_lines_plain) (simp_all add: console_free_def)
  also have "start_step (identified api bi c, [], False) (identified api bi c, [], True)"
    using identified(1) [OF assms] by (intro load_tables) (simp_all add: good_def)
  finally show ?thesis .
qed

lemma graphics_path:
  assumes "good c" "is_present fb \<Longrightarrow> surface_ok fb"
  shows "\<exists>c'. start_step\<^sup>*\<^sup>* (c, [], True) (c', [], True) \<and> good c' \<and>
    then_do (if is_present fb
        then then_do (info ''graphics'' (str ''framebuffer '' @ dec (fb_width fb) @ str ''x'' @
                 dec (fb_height fb) @ str '' at '' @ hex (fb_base fb)))
               (seq (lift (add64 (fb_base fb) offset)) (\<lambda>base. framebuffer_record (fb\<lparr>fb_base := base\<rparr>)))
        else info ''graphics'' (str ''no framebuffer; serial only'')) k c \<in> {Panics c', k c'}"
proof -
  have path: "start_step\<^sup>*\<^sup>* (c, [], True) (printed c t, [], True)" if "plain t" for t
    using print_path [OF _ _ that] assms(1) by (simp add: good_def)
  note line = line_good(1) [OF assms(1)] and plain = hardware_lines_plain(3,4)
  show ?thesis
  proof (cases "is_present fb")
    case False
    with path [OF plain(2)] good_printed [OF assms(1) plain(2)] show ?thesis
      unfolding if_not_P [OF False] line by blast
  next
    case True
    let ?c = "printed c (log_line Level.Info (str ''graphics'') (str ''framebuffer '' @ dec (fb_width fb) @ str ''x'' @
                   dec (fb_height fb) @ str '' at '' @ hex (fb_base fb)))"
    have g: "good ?c" by (rule good_printed [OF assms(1) plain(1)])
    show ?thesis
    proof (cases "add64 (fb_base fb) offset")
      case None
      have "seq (lift (add64 (fb_base fb) offset)) f ?c = Panics ?c" for f :: "nat \<Rightarrow> 'a kernel"
        by (simp only: seq_def lift_def None option.case outcome.case)
      with path [OF plain(1)] g show ?thesis unfolding if_P [OF True] seq_assoc line by blast
    next
      case (Some base)
      let ?d = "?c\<lparr>cs_surface := Some (fb\<lparr>fb_base := base\<rparr>)\<rparr>"
      have present: "is_present (fb\<lparr>fb_base := base\<rparr>)" "surface_ok (fb\<lparr>fb_base := base\<rparr>)"
        using Some True assms(2) by (auto simp: is_present_def surface_ok_def add64_def split: if_splits)
      have d: "good ?d" using g present(2) by (simp add: good_def console_free_def screen_ok_def)
      have "framebuffer_record (fb\<lparr>fb_base := base\<rparr>) ?c = Runs () ?d"
        using present(1) g by (simp add: framebuffer_record_def good_def console_free_def)
      moreover have "seq (lift (add64 (fb_base fb) offset)) f ?c = f base ?c" for f :: "nat \<Rightarrow> 'a kernel"
        by (simp only: seq_def lift_def Some option.case outcome.case)
      ultimately have "seq (lift (add64 (fb_base fb) offset))
          (\<lambda>base. then_do (framebuffer_record (fb\<lparr>fb_base := base\<rparr>)) k) ?c = k ?d" by simp
      moreover have "start_step\<^sup>*\<^sup>* (c, [], True) (?d, [], True)"
        using path [OF plain(1)]
        by (rule rtranclp_trans) (rule surface_path [OF _ present(2)], use g in \<open>simp add: good_def\<close>)
      ultimately show ?thesis using d unfolding if_P [OF True] seq_assoc line by blast
    qed
  qed
qed

lemma behaves_laterE:
  assumes "behaves (later c) out r"
  obtains t x where "plain t" "out = Runs x (printed c t)"
  | t where "plain t" "out = Panics (printed c t)"
  | t message where "plain t" "out = fail message (printed c t)"
  using assms unfolding behaves_def later_def by (auto split: option.splits sum.splits)

text \<open>
  Wherever the way up leads, to the last stage, to a panic or to a refusal, its steps lead there; to the last stage with the descriptor
  tables loaded.
\<close>

lemma start_path:
  assumes fresh: "fresh_console c"
    and surface: "\<And>bi. boot_info = Some bi \<Longrightarrow> is_present (bi_framebuffer bi) \<Longrightarrow> surface_ok (bi_framebuffer bi)"
  shows "\<exists>d tables. start_step\<^sup>*\<^sup>* (c, [], False) (d, [], tables) \<and>
    ((\<exists>k. tables \<and> bring_up api mem used boot_info c = Runs k d) \<or> bring_up api mem used boot_info c = Panics d \<or>
     (\<exists>message. bring_up api mem used boot_info c = fail message d))"
proof (cases boot_info)
  case None
  then show ?thesis using entered_path [OF fresh] by (auto simp: bring_up_unfold [OF fresh])
next
  case (Some bi)
  note start = entered [OF fresh]
  show ?thesis
  proof (cases "BootInfo_validate mem bi")
    case (Inl e)
    have "start_step\<^sup>*\<^sup>* (c, [], False) (printed (entered c)
        (log_line Level.Error (str ''boot'') (str ''boot info rejected: '' @ BootInfoError_debug e)), [], False)"
      using entered_path [OF fresh] print_path [OF _ _ rejection_line_plain, of "entered c"] start(1)
      by (simp add: good_def) (meson rtranclp_trans)
    then show ?thesis using Some Inl by (auto simp: bring_up_unfold [OF fresh] line_good [OF start(1)])
  next
    case (Inr u)
    let ?tail = "bring_up_memory mem used bi (Level_code (if bf_contains api (bi_flags bi) BootFlags_VERBOSE then Level.Trace else Level.Info))
      (if is_present (bi_framebuffer bi)
       then framebuffer_init None (bi_framebuffer bi\<lparr>fb_base := fb_base (bi_framebuffer bi) + bi_physical_memory_offset bi\<rparr>) else None)"
    obtain c' where c': "start_step\<^sup>*\<^sup>* (identified api bi (entered c), [], True) (c', [], True)" "good c'"
      "bring_up api mem used boot_info c \<in> {Panics c', ?tail c'}"
      using graphics_path [OF identified(1) [OF start(1)] surface [OF Some]]
      unfolding bring_up_unfold [OF fresh] Some Inr option.case sum.case by blast
    have up: "start_step\<^sup>*\<^sup>* (c, [], False) (c', [], True)"
      using entered_path [OF fresh] identified_path [OF start(1)] c'(1) by (meson rtranclp_trans)
    have on: "start_step\<^sup>*\<^sup>* (c, [], False) (printed c' t, [], True)" if "plain t" for t
      using up print_path [OF _ _ that] c'(2) by (simp add: good_def) (meson rtranclp_trans)
    show ?thesis
    proof (cases "bring_up api mem used boot_info c = Panics c'")
      case True
      then show ?thesis using up by blast
    next
      case False
      then have tail: "bring_up api mem used boot_info c = ?tail c'" using c'(3) by simp
      show ?thesis
        using bring_up_memory_behaves [OF c'(2)] unfolding tail by (rule behaves_laterE) (use on in blast)+
    qed
  qed
qed

text \<open>The texts that the \<^verbatim>\<open>x86_64\<close> crate prints for a page fault, an address and the names of flags, contain no marker.\<close>

definition printable :: "nat \<Rightarrow> Exception \<Rightarrow> bool" where
  "printable ip e \<longleftrightarrow> (case e of
     PageFault user address cause \<Rightarrow> \<forall>marker \<in> set markers. \<not> contains_str (exception_line ip e) marker
   | _ \<Rightarrow> True)"

section \<open>What the handlers print\<close>

abbreviation stopped_marker :: rstr where
  "stopped_marker \<equiv> str ''*** LokoOS stopped ***''"

abbreviation double_fault_marker :: rstr where
  "double_fault_marker \<equiv> str ''double fault''"

text \<open>Parts of the markers that no number contains, so that they can be searched for next to one.\<close>

definition fault_words :: "rstr list" where
  "fault_words = [str ''lting'', str ''***'', str ''not st'', str ''ou'']"

lemma marker_words: "marker \<in> set markers \<Longrightarrow> \<exists>w \<in> set fault_words. contains_str marker w \<and>
    (marker \<noteq> double_fault_marker \<longrightarrow> w \<noteq> str ''ou'')"
proof -
  have "contains_str SUCCESS_MARKER (str ''lting'')" "contains_str (str ''*** LokoOS kernel panic ***'') (str ''***'')"
    "contains_str stopped_marker (str ''***'')" "contains_str (str ''LokoOS could not start'') (str ''not st'')"
    "contains_str double_fault_marker (str ''ou'')"
    by (simp_all add: SUCCESS_MARKER_def str_def)
  moreover have "str ''lting'' \<noteq> str ''ou''" "str ''***'' \<noteq> str ''ou''" "str ''not st'' \<noteq> str ''ou''" by (simp_all add: str_def)
  moreover assume "marker \<in> set markers"
  ultimately show ?thesis unfolding markers_def FAILURE_MARKERS_def fault_words_def by auto
qed

abbreviation error_line :: "string \<Rightarrow> rstr \<Rightarrow> rstr" where
  "error_line subsystem args \<equiv>
     str ''['' @ Level_tag Level.Error @ str ''] '' @ pad_right 10 (str subsystem) @ str '' '' @ args"

lemma fault_lines_quiet:
  "\<forall>w \<in> set fault_words. \<not> contains_str (error_line ''cpu'' (str ''divide error at '' @ hex ip)) w"
  "\<forall>w \<in> set fault_words. \<not> contains_str (error_line ''cpu'' (str ''invalid opcode at '' @ hex ip)) w"
  "\<forall>w \<in> set fault_words. \<not> contains_str (error_line ''cpu'' (str ''non-maskable interrupt at '' @ hex ip)) w"
  "\<forall>w \<in> set fault_words. \<not> contains_str (error_line ''cpu''
     (str ''general protection fault at '' @ hex ip @ str '', selector '' @ hex code)) w"
  "\<forall>w \<in> set (take 3 fault_words). \<not> contains_str (error_line ''cpu'' (str ''double fault at '' @ hex ip)) w"
  by (simp_all add: fault_words_def find_word str_def pad_right_def replicate_numeral hex_def)

lemma fault_line_words:
  assumes "w \<in> set fault_words"
  shows "\<not> contains_str (exception_line ip DivideError) w" "\<not> contains_str (exception_line ip InvalidOpcode) w"
    "\<not> contains_str (exception_line ip NonMaskableInterrupt) w" "\<not> contains_str (exception_line ip (GeneralProtection code)) w"
    "w \<noteq> str ''ou'' \<Longrightarrow> \<not> contains_str (exception_line ip DoubleFault) w"
proof -
  have w: "10 \<notin> set w" "w \<noteq> []" "w \<noteq> str ''ou'' \<Longrightarrow> w \<in> set (take 3 fault_words)" "\<not> contains_str [] w"
    using assms by (auto simp: fault_words_def str_def)
  note line = log_line_lines [OF w(1,2), of Level.Error _ _ "[]", unfolded append_Nil2]
  show "\<not> contains_str (exception_line ip DivideError) w" "\<not> contains_str (exception_line ip InvalidOpcode) w"
    "\<not> contains_str (exception_line ip NonMaskableInterrupt) w" "\<not> contains_str (exception_line ip (GeneralProtection code)) w"
    "w \<noteq> str ''ou'' \<Longrightarrow> \<not> contains_str (exception_line ip DoubleFault) w"
    unfolding exception_line.simps line using fault_lines_quiet assms w(3,4) by blast+
qed

lemma fault_line_markers:
  assumes "printable ip e" "e \<noteq> DebugException" "marker \<in> set markers" "contains_str (exception_line ip e) marker"
  shows "marker = double_fault_marker \<and> e = DoubleFault"
proof -
  obtain w where w: "w \<in> set fault_words" "contains_str (exception_line ip e) w" "marker \<noteq> double_fault_marker \<longrightarrow> w \<noteq> str ''ou''"
    using marker_words [OF assms(3)] assms(4) contains_str_factor by blast
  show ?thesis
    using assms w fault_line_words [OF w(1)] by (cases e) (auto simp: printable_def)
qed

lemma stopped_text_markers:
  "\<forall>message \<in> set fault_messages.
     \<not> contains_str (stopped_text message) SUCCESS_MARKER \<and>
     \<not> contains_str (stopped_text message) (str ''*** LokoOS kernel panic ***'') \<and>
     \<not> contains_str (stopped_text message) (str ''LokoOS could not start'') \<and>
     \<not> contains_str (stopped_text message) double_fault_marker"
  by (simp add: fault_messages_def stopped_text_def SUCCESS_MARKER_def str_def contains_str_Cons)

text \<open>Every read of the log is a beginning of what the kernel has printed.\<close>

definition shows_part :: "Machine \<Rightarrow> rstr \<Rightarrow> bool" where
  "shows_part m out \<longleftrightarrow> (\<forall>i. take (length (mc_log m i)) out = mc_log m i)"

text \<open>The reason given at a poll that has found nothing in the log, and the one from what the log shows.\<close>

definition silent_verdict :: "Machine \<Rightarrow> nat \<Rightarrow> rstr" where
  "silent_verdict m j = (case mc_try_wait m j of
     Some success \<Rightarrow> (if success then str ''QEMU exited before the kernel finished starting''
       else str ''QEMU exited with an error, which usually means a triple fault'')
   | None \<Rightarrow> str ''timed out with no further output'')"

definition fault_verdict :: "Machine \<Rightarrow> nat \<Rightarrow> rstr" where
  "fault_verdict m j =
     (if contains_str (mc_log m j) stopped_marker then str ''the kernel hit a fault it could not continue from''
      else if contains_str (mc_log m j) double_fault_marker then str ''a fault occurred while handling a fault''
      else silent_verdict m j)"

text \<open>
  Whoever waits until the time is up or the emulator exits gets an answer, and from output without the marker of success, of a panic or of
  a refusal it is a failure.
\<close>

lemma poll_ends: "timeout < mc_elapsed m n \<or> mc_try_wait m n \<noteq> None \<Longrightarrow> poll m timeout n \<noteq> None"
  by (auto simp: poll_def Let_def split: option.split)

lemma faulty_output_verdict:
  assumes shown: "shows_part m out" and ends: "timeout < mc_elapsed m n \<or> mc_try_wait m n \<noteq> None"
    and no: "\<not> contains_str out SUCCESS_MARKER" "\<not> contains_str out (str ''*** LokoOS kernel panic ***'')"
      "\<not> contains_str out (str ''LokoOS could not start'')"
  shows "\<exists>said outcome j. j \<le> n \<and> watch m timeout 0 0 [] = Some (said, outcome) \<and> \<not> oc_succeeded outcome \<and>
    oc_failure outcome = Some (fault_verdict m j)"
proof -
  obtain j outcome said where j: "j \<le> n" "poll m timeout j = Some outcome" "watch m timeout 0 0 [] = Some (said, outcome)"
    using watch_first [OF poll_ends [OF ends]] by blast
  have "take (length (mc_log m j)) out = mc_log m j" using shown by (simp add: shows_part_def)
  then have absent: "\<not> contains_str out marker \<Longrightarrow> \<not> contains_str (mc_log m j) marker" for marker
    using contains_str_prefix append_take_drop_id by metis
  have "\<not> oc_succeeded outcome \<and> oc_failure outcome = Some (fault_verdict m j)"
    using j(2) no [THEN absent]
    by (auto simp: poll_def FAILURE_MARKERS_def Let_def fault_verdict_def silent_verdict_def split: if_splits option.splits)
  with j show ?thesis by blast
qed

lemma silent_output:
  assumes "shows_part m out" "\<not> contains_str out stopped_marker" "\<not> contains_str out double_fault_marker"
  shows "fault_verdict m j = silent_verdict m j"
proof -
  have "take (length (mc_log m j)) out = mc_log m j" using assms(1) by (simp add: shows_part_def)
  then have "\<not> contains_str out marker \<Longrightarrow> \<not> contains_str (mc_log m j) marker" for marker
    using contains_str_prefix append_take_drop_id by metis
  with assms(2,3) show ?thesis by (simp add: fault_verdict_def)
qed

section \<open>A crash is never taken for a boot\<close>

text \<open>What a handler leaves behind, with the port's lock free.\<close>

lemma handler_output:
  assumes e: "e \<noteq> DebugException" "printable ip e" and c: "on_the_way (c, [], True)" "\<not> cs_serial_held c"
  shows "\<exists>c'. handle_exception ip e c = (if cs_surface_held c then Spins c' else Halts c') \<and>
    contains_str (cs_output c') stopped_marker \<and> \<not> contains_str (cs_output c') SUCCESS_MARKER \<and>
    \<not> contains_str (cs_output c') (str ''*** LokoOS kernel panic ***'') \<and>
    \<not> contains_str (cs_output c') (str ''LokoOS could not start'')"
proof -
  let ?panic = "str ''*** LokoOS kernel panic ***''" and ?refused = "str ''LokoOS could not start''"
  have m: "SUCCESS_MARKER \<in> set markers" "?panic \<in> set markers" "?refused \<in> set markers"
    by (simp_all add: markers_def FAILURE_MARKERS_def)
  have t: "plain (cs_output c)" "screen_ok c" "cs_port c" "cs_level c \<le> 2" using c(1) by simp_all
  obtain message where stop: "message \<in> set fault_messages"
      "handle_exception ip e c = panic_screen message (printed c (exception_line ip e))"
    using handle_exception_stops [OF e(1), of c ip] t(3,4) c(2) by auto
  let ?rest = "exception_line ip e @ stopped_text message"
  obtain c' where c': "handle_exception ip e c = (if cs_surface_held c then Spins c' else Halts c')"
    "cs_output c' = cs_output c @ ?rest"
  proof (cases "cs_surface_held c")
    case True
    then show ?thesis by (intro that [of "printed c ?rest"]) (simp_all add: stop(2) panic_screen_eq)
  next
    case False
    then obtain screen where "stop_screen (cs_surface c) (cs_screen c) = Ret screen"
      using paint_stop_screen_Runs [of c] t(2) c(2) by (auto simp: console_free_def)
    then show ?thesis using False by (intro that [of "(printed c ?rest)\<lparr>cs_screen := screen\<rparr>"]) (simp_all add: stop(2) panic_screen_eq)
  qed
  have none: "\<not> contains_str (cs_output c') marker"
    if "marker \<in> set markers" "marker \<noteq> double_fault_marker" "\<not> contains_str (stopped_text message) marker" for marker
  proof -
    have ends: "\<exists>l. exception_line ip e = l @ [10]" by (cases e) (simp_all add: log_line_def)
    have w: "10 \<notin> set marker" "marker \<noteq> []"
      using that(1) by (auto simp: markers_def FAILURE_MARKERS_def SUCCESS_MARKER_def str_def)
    have "contains_str ?rest marker \<longleftrightarrow> contains_str (exception_line ip e) marker \<or> contains_str (stopped_text message) marker"
      using ends contains_str_line [OF w] contains_str_line [OF w, of _ "[]"] w(2) by auto
    then show ?thesis
      unfolding c'(2) using marker_in_rest [OF t(1) that(1)] fault_line_markers [OF e(2,1) that(1)] that(2,3) by blast
  qed
  have differ: "SUCCESS_MARKER \<noteq> double_fault_marker" "?panic \<noteq> double_fault_marker" "?refused \<noteq> double_fault_marker"
    by (simp_all add: SUCCESS_MARKER_def str_def)
  have "stopped_text message = [10] @ stopped_marker @ 10 # message @ [10]" by (simp add: stopped_text_def)
  then have "contains_str (stopped_text message) stopped_marker" unfolding contains_str_iff by blast
  then have "contains_str (cs_output c') stopped_marker" unfolding c'(2) by (intro contains_str_append disjI2)
  with c'(1) show ?thesis
    using stopped_text_markers [rule_format, OF stop(1)] none [OF m(1) differ(1)] none [OF m(2) differ(2)] none [OF m(3) differ(3)]
    by blast
qed

text \<open>
  C19. A kernel that dies of an exception while it starts is never reported as booted. The start-up is everything from the kernel's entry
  to its last line, a panic or a refusal, point by point, also inside the locks. From the moment the interrupt descriptor table
  is loaded, in stage 6, the handler runs: it prints what stopped the kernel and halts or, inside the surface's lock, hangs; inside the serial
  port's lock it hangs without a word. Before that moment the kernel has no handler, and no more of it is printed: the processor resets, on which
  the emulator exits. In every case the boot test, whatever it has read and whenever it looks, concludes at the latest when the
  timeout is over or the emulator has exited that the boot failed: with a fault once it has read the line of the stop, with a fault inside a fault
  if it has read only that far, and otherwise because the emulator has exited or the time is up. (A debug exception is only reported, and the
  kernel goes on. Of the texts the \<^verbatim>\<open>x86_64\<close> crate prints for a page fault it is assumed that no marker occurs in them.)
\<close>

theorem crash_never_passes:
  assumes e: "e \<noteq> DebugException" "printable ip e" and fresh: "fresh_console c0"
    and point: "start_step\<^sup>*\<^sup>* (c0, [], False) (c, pending, tables)"
  shows "\<exists>c'. (if tables
      then handle_exception ip e c = (if cs_serial_held c \<or> cs_surface_held c then Spins c' else Halts c') \<and>
        (if cs_serial_held c then c' = c else contains_str (cs_output c') stopped_marker)
      else c' = c) \<and>
    (\<forall>m timeout n. shows_part m (cs_output c') \<and> (timeout < mc_elapsed m n \<or> mc_try_wait m n \<noteq> None) \<longrightarrow>
      (\<exists>said outcome j. j \<le> n \<and> watch m timeout 0 0 [] = Some (said, outcome) \<and> \<not> oc_succeeded outcome \<and>
        oc_failure outcome = Some (if tables \<and> \<not> cs_serial_held c then fault_verdict m j else silent_verdict m j)))"
proof (cases "tables \<and> \<not> cs_serial_held c")
  case True
  then have "on_the_way (c, [], True)" using reachable_on_the_way [OF point fresh] by auto
  then obtain c' where c': "handle_exception ip e c = (if cs_surface_held c then Spins c' else Halts c')"
    "contains_str (cs_output c') stopped_marker" and no: "\<not> contains_str (cs_output c') SUCCESS_MARKER"
    "\<not> contains_str (cs_output c') (str ''*** LokoOS kernel panic ***'')" "\<not> contains_str (cs_output c') (str ''LokoOS could not start'')"
    using handler_output [OF e] True by blast
  show ?thesis
    using c' True faulty_output_verdict [OF _ _ no] by (intro exI [of _ c']) simp
next
  case False
  have "plain (cs_output c @ pending)" using reachable_on_the_way [OF point fresh] by simp
  then have none: "\<not> contains_str (cs_output c) marker" if "marker \<in> set markers" for marker
    using marker_not_in_plain [OF _ that] contains_str_prefix by blast
  have m: "SUCCESS_MARKER \<in> set markers" "str ''*** LokoOS kernel panic ***'' \<in> set markers"
      "str ''LokoOS could not start'' \<in> set markers" "stopped_marker \<in> set markers" "double_fault_marker \<in> set markers"
    by (simp_all add: markers_def FAILURE_MARKERS_def)
  have verdict: "\<exists>said outcome j. j \<le> n \<and> watch w timeout 0 0 [] = Some (said, outcome) \<and> \<not> oc_succeeded outcome \<and>
      oc_failure outcome = Some (silent_verdict w j)"
    if "shows_part w (cs_output c)" "timeout < mc_elapsed w n \<or> mc_try_wait w n \<noteq> None" for w timeout n
    using faulty_output_verdict [OF that none [OF m(1)] none [OF m(2)] none [OF m(3)]]
    unfolding silent_output [OF that(1) none [OF m(4)] none [OF m(5)]] .
  have "tables \<Longrightarrow> handle_exception ip e c = Spins c"
    using handle_exception_stops [OF e(1), of c ip] reachable_on_the_way [OF point fresh] False by auto
  then show ?thesis
    unfolding if_not_P [OF False] using False verdict by (intro exI [of _ c]) auto
qed

text \<open>A machine on which the whole output can be read from the start, polled every 250 milliseconds.\<close>

definition printed_at_once :: "rstr \<Rightarrow> Machine" where
  "printed_at_once out = (finished out)\<lparr>mc_elapsed := (\<lambda>i. i * 250000000)\<rparr>"

text \<open>A double fault after the last stage on the 4 MiB device, and one before the first.\<close>

theorem crash_never_passes_witness:
  "(\<exists>k d c said outcome. bring_up word_bitflags four_mib 0 (Some four_mib_info) silent = Runs k d \<and>
     handle_exception 0x1000 DoubleFault d = Halts c \<and>
     watch (printed_at_once (cs_output c)) DEFAULT_TIMEOUT 0 0 [] = Some (said, outcome) \<and> \<not> oc_succeeded outcome) \<and>
   (\<exists>said outcome. watch ((printed_at_once [])\<lparr>mc_try_wait := \<lambda>i. Some True\<rparr>) DEFAULT_TIMEOUT 0 0 [] = Some (said, outcome) \<and>
     oc_failure outcome = Some (str ''QEMU exited before the kernel finished starting''))"
proof
  have e: "DoubleFault \<noteq> DebugException" "printable 0x1000 DoubleFault" by (simp_all add: printable_def)
  have surface: "surface_ok (bi_framebuffer bi)" if "Some four_mib_info = Some bi" "is_present (bi_framebuffer bi)" for bi
    using that by (auto simp: four_mib_info_def small_info_def Framebuffer_NONE_def is_present_def)
  obtain k d where d: "bring_up word_bitflags four_mib 0 (Some four_mib_info) silent = Runs k d" "good d"
    using bring_up_refines [where boot_info = "Some four_mib_info" and api = word_bitflags and mem = four_mib and used = 0,
      OF silent_fresh surface] four_mib_up by (auto simp: behaves_def)
  have path: "start_step\<^sup>*\<^sup>* (silent, [], False) (d, [], True)"
    using start_path [where boot_info = "Some four_mib_info" and api = word_bitflags and mem = four_mib and used = 0,
      OF silent_fresh surface] d(1) by (auto simp: fail_not_Runs [symmetric])
  have free: "\<not> cs_serial_held d" "\<not> cs_surface_held d" using d(2) by (simp_all add: good_def console_free_def)
  have shown: "shows_part (printed_at_once out) out \<and> DEFAULT_TIMEOUT < mc_elapsed (printed_at_once out) 361" for out
    by (simp add: shows_part_def printed_at_once_def finished_def DEFAULT_TIMEOUT_def from_secs_def)
  obtain c where crash: "handle_exception 0x1000 DoubleFault d = Halts c"
      "\<forall>m timeout n. shows_part m (cs_output c) \<and> (timeout < mc_elapsed m n \<or> mc_try_wait m n \<noteq> None) \<longrightarrow>
      (\<exists>said outcome j. j \<le> n \<and> watch m timeout 0 0 [] = Some (said, outcome) \<and> \<not> oc_succeeded outcome \<and>
        oc_failure outcome = Some (if True \<and> \<not> cs_serial_held d then fault_verdict m j else silent_verdict m j))"
    using crash_never_passes [OF e silent_fresh path] free by auto
  with shown d(1) show "\<exists>k d c said outcome. bring_up word_bitflags four_mib 0 (Some four_mib_info) silent = Runs k d \<and>
     handle_exception 0x1000 DoubleFault d = Halts c \<and>
     watch (printed_at_once (cs_output c)) DEFAULT_TIMEOUT 0 0 [] = Some (said, outcome) \<and> \<not> oc_succeeded outcome" by blast
  let ?exits = "(printed_at_once [])\<lparr>mc_try_wait := \<lambda>i. Some True\<rparr>"
  have "shows_part ?exits (cs_output silent)" "mc_try_wait ?exits 0 \<noteq> None"
    by (simp_all add: shows_part_def printed_at_once_def finished_def)
  then obtain said outcome j where "watch ?exits DEFAULT_TIMEOUT 0 0 [] = Some (said, outcome)"
      "oc_failure outcome = Some (silent_verdict ?exits j)"
    using crash_never_passes [OF e silent_fresh rtranclp.rtrancl_refl] by (simp only: if_False simp_thms) blast
  then show "\<exists>said outcome. watch ?exits DEFAULT_TIMEOUT 0 0 [] = Some (said, outcome) \<and>
     oc_failure outcome = Some (str ''QEMU exited before the kernel finished starting'')"
    by (simp add: silent_verdict_def)
qed

end
