(* ===== verification/Boot_End.thy ===== *)
theory Boot_End
  imports Boot_Chain Boot_Faults
begin

text \<open>
  From the firmware to the verdict: the bootloader (theory \<open>Boot_Loader\<close>), the kernel with its serial output (theory
  \<open>Kernel_Entry\<close>) and the boot test that watches it (theory \<open>Boot_Test\<close>), run one after the other on one machine.
\<close>

text \<open>
  A graphics mode as UEFI describes one: a row holds at least its visible pixels, and mode and rows have the sizes the
  boot information can express.
\<close>

definition display_ok :: "Firmware \<Rightarrow> bool" where
  "display_ok fw \<longleftrightarrow> (\<forall>gop. fw_gop fw = Some gop \<longrightarrow>
     go_width gop \<le> go_stride gop \<and> go_stride gop * 4 < 2 ^ 32 \<and> go_height gop < 2 ^ 31)"

lemma find_framebuffer_ok:
  assumes "display_ok fw" "firmware_memory_ok fw" "find_framebuffer fw = Ret fb" "is_present fb"
  shows "surface_ok fb"
proof -
  obtain gop where gop: "fw_gop fw = Some gop" "fb_size fb = go_frame_buffer_size gop" "fb_width fb = go_width gop mod 2 ^ 32"
      "fb_height fb = go_height gop mod 2 ^ 32" "fb_stride_bytes fb = go_stride gop * 4 mod 2 ^ 32"
    using assms(3,4) by (auto simp: find_framebuffer_def is_present_def Framebuffer_NONE_def bind_eq_Some_conv mul64_def
      split: if_splits option.splits GopPixelFormat.splits)
  have size: "go_width gop \<le> go_stride gop" "go_stride gop * 4 < 2 ^ 32" "go_height gop < 2 ^ 31"
      "go_frame_buffer_size gop < 2 ^ 47"
    using assms(1,2) gop(1) by (auto simp: display_ok_def firmware_memory_ok_def)
  then show ?thesis using gop by (simp add: surface_ok_def)
qed

lemma handoff_surface:
  assumes boot: "load_and_start fw = Ret (Inr h)" and ok: "firmware_memory_ok fw" "display_ok fw"
    and present: "is_present (bi_framebuffer (ho_boot_info h))"
  shows "surface_ok (bi_framebuffer (ho_boot_info h))"
proof (rule load_and_start_success [OF boot])
  fix data mem0 img low high kphys arena stack regions boot_info mem fb highest
  assume s: "find_framebuffer fw = Ret fb"
    "hand_over fw img low (high - low) kphys stack regions boot_info fb (find_acpi_rsdp fw) (ho_bytes h) (ho_tables h) =
     Ret (Inr h)"
  have "bi_framebuffer (ho_boot_info h) = fb" using hand_over_fields [OF s(2)] by blast
  then show ?thesis using find_framebuffer_ok [OF ok(2,1) s(1)] present by simp
qed

text \<open>
  C9. The whole chain works. On a machine that is ready, the bootloader hands over, the kernel it has loaded runs to a halt, and the
  boot test that watches its serial port, whenever it happens to read it, reports success exactly if the firmware's final memory map
  leaves 256 consecutive frames for the kernel's heap; otherwise it reports a failure, and never a panic.
\<close>

theorem ready_machine_passes:
  assumes ready: "machine_ready fw img" and map_ok: "firmware_map_ok (fw_exit_memory_map fw)"
    and few: "length (nonempty (fw_exit_memory_map fw)) \<le> region_capacity" and display: "display_ok fw"
    and fresh: "fresh_console c" and what: "\<not> contains_str what SUCCESS_MARKER"
  shows "\<exists>h c'. load_and_start fw = Ret (Inr h) \<and>
    handled what (entry_point api (handoff_memory h) used (Some (ho_boot_info h))) c = Halts c' \<and>
    (\<forall>m timeout n. shows_output m timeout n (cs_output c') \<longrightarrow>
      (\<exists>said outcome. watch m timeout 0 0 [] = Some (said, outcome) \<and>
        (oc_succeeded outcome \<longleftrightarrow> (\<exists>f. {f..<f + 256} \<subseteq> available (handoff_memory h) (ho_boot_info h))) \<and>
        oc_failure outcome \<noteq> Some (str ''the kernel panicked'')))"
proof -
  obtain h where h: "load_and_start fw = Ret (Inr h)" using boot_reaches_kernel [OF ready] by blast
  have ok: "firmware_memory_ok fw" using ready by (simp add: machine_ready_def)
  have surface: "surface_ok (bi_framebuffer bi)" if "Some (ho_boot_info h) = Some bi" "is_present (bi_framebuffer bi)" for bi
    using handoff_surface [OF h ok display] that by simp
  obtain c' where c': "handled what (entry_point api (handoff_memory h) used (Some (ho_boot_info h))) c = Halts c'"
    using entry_point_halts [where boot_info = "Some (ho_boot_info h)" and what = what and api = api and mem = "handoff_memory h"
      and used = used, OF fresh surface] by blast
  let ?start = "kernel_start api (handoff_memory h) used (Some (ho_boot_info h))"
  let ?room = "\<exists>f. {f..<f + 256} \<subseteq> available (handoff_memory h) (ho_boot_info h)"
  note cases = kernel_start_cases [OF boot_info_valid [OF h map_ok few] boot_info_bounds [OF h ok], of api used]
  have "\<exists>said outcome. watch m timeout 0 0 [] = Some (said, outcome) \<and> (oc_succeeded outcome \<longleftrightarrow> ?room) \<and>
      oc_failure outcome \<noteq> Some (str ''the kernel panicked'')" if shown: "shows_output m timeout n (cs_output c')" for m timeout n
  proof -
    note verdict = started_verdict [where boot_info = "Some (ho_boot_info h)", OF fresh surface c' shown what]
    show ?thesis
    proof (cases ?room)
      case True
      then obtain k where "?start = Ret (Inr k)" using cases unfolding if_P [OF True] by blast
      then show ?thesis using verdict True by auto
    next
      case False
      then have "?start = Ret (Inl (str ''LokoOS could not start: there isn't enough memory in this device.''))"
        using cases unfolding if_not_P [OF False] by blast
      moreover have "str ''the kernel hit a fault it could not continue from'' \<noteq> str ''the kernel panicked''"
        "str ''the kernel rejected what the bootloader handed it'' \<noteq> str ''the kernel panicked''"
        by (simp_all add: str_def)
      ultimately show ?thesis using verdict False by (auto split: if_splits)
    qed
  qed
  with h c' show ?thesis by blast
qed

theorem ready_machine_passes_witness:
  "\<exists>h c said outcome. load_and_start demo_firmware = Ret (Inr h) \<and>
     handled [] (entry_point word_bitflags (handoff_memory h) 0 (Some (ho_boot_info h))) silent = Halts c \<and>
     watch (finished (cs_output c)) DEFAULT_TIMEOUT 0 0 [] = Some (said, outcome) \<and> oc_succeeded outcome"
proof -
  have what: "\<not> contains_str [] SUCCESS_MARKER" by (simp add: SUCCESS_MARKER_def str_def)
  have display: "display_ok demo_firmware" by (simp add: display_ok_def demo_firmware_def demo_gop_def)
  obtain h c where r: "load_and_start demo_firmware = Ret (Inr h)"
      "handled [] (entry_point word_bitflags (handoff_memory h) 0 (Some (ho_boot_info h))) silent = Halts c"
      "\<forall>m timeout n. shows_output m timeout n (cs_output c) \<longrightarrow> (\<exists>said outcome. watch m timeout 0 0 [] = Some (said, outcome) \<and>
        (oc_succeeded outcome \<longleftrightarrow> (\<exists>f. {f..<f + 256} \<subseteq> available (handoff_memory h) (ho_boot_info h))))"
    using ready_machine_passes [OF demo_ready demo_map_ok display silent_fresh what, of word_bitflags 0] by blast
  with demo_available [OF r(1)] finished_shows show ?thesis by blast
qed

end
