(* ===== verification/Abi_Error.thy ===== *)
theory Abi_Error
  imports Rust_Str
begin

text \<open>
  System-call error codes, \<^verbatim>\<open>src/sdk/loko-abi/src/error.rs\<close>, and the register
  convention of a system-call result, \<^verbatim>\<open>RawReturn\<close> in
  \<^verbatim>\<open>src/sdk/loko-abi/src/lib.rs\<close>. An \<^verbatim>\<open>isize\<close> is an \<open>int\<close> between
  \<open>ISIZE_MIN\<close> and \<open>ISIZE_MAX\<close>; negating \<open>ISIZE_MIN\<close> overflows and panics.

  \<open>code_table\<close> is the interface of a permanently numbered enumeration, as the ABI uses it for
  errors and for system calls: a list of all the values and an injective numbering.
\<close>

section \<open>Numbered enumerations\<close>

locale code_table =
  fixes all :: "'a list" and code :: "'a \<Rightarrow> 'k"
  assumes complete: "x \<in> set all"
    and distinct_codes: "distinct (map code all)"
begin

lemma code_inj: "code x = code y \<Longrightarrow> x = y"
  using distinct_codes complete by (auto simp: distinct_map dest: inj_onD)

lemma find_code: "find (\<lambda>x. code x = n) all = Some x \<longleftrightarrow> code x = n"
proof
  show "find (\<lambda>x. code x = n) all = Some x \<Longrightarrow> code x = n"
    by (auto simp: find_Some_iff)
next
  assume n: "code x = n"
  then have "find (\<lambda>x. code x = n) all \<noteq> None"
    using complete [of x] by (auto simp: find_None_iff)
  then obtain y where "find (\<lambda>x. code x = n) all = Some y" by blast
  moreover from this have "code y = n" by (auto simp: find_Some_iff)
  ultimately show "find (\<lambda>x. code x = n) all = Some x" using code_inj n by metis
qed

lemma find_code_None: "find (\<lambda>x. code x = n) all = None \<longleftrightarrow> n \<notin> range code"
  using complete by (auto simp: find_None_iff)

end

section \<open>Errors\<close>

datatype Error =
    InvalidArgument
  | BadHandle
  | InsufficientRights
  | PermissionDenied
  | NotFound
  | AlreadyExists
  | NotImplemented
  | OutOfMemory
  | WrongObjectType
  | ProtectedLocation
  | QuotaExceeded
  | DeviceFault
  | Interrupted
  | WouldBlock
  | IntegrityFailure
  | ConfirmationRequired
  | RuntimeMissing
  | NoSuchSyscall

definition Error_ALL :: "Error list" where
  "Error_ALL =
    [InvalidArgument, BadHandle, InsufficientRights, PermissionDenied,
     NotFound, AlreadyExists, NotImplemented, OutOfMemory,
     WrongObjectType, ProtectedLocation, QuotaExceeded, DeviceFault,
     Interrupted, WouldBlock, IntegrityFailure, ConfirmationRequired,
     RuntimeMissing, NoSuchSyscall]"

fun code :: "Error \<Rightarrow> nat" where
  "code InvalidArgument = 1"
| "code BadHandle = 2"
| "code InsufficientRights = 3"
| "code PermissionDenied = 4"
| "code NotFound = 5"
| "code AlreadyExists = 6"
| "code NotImplemented = 7"
| "code OutOfMemory = 8"
| "code WrongObjectType = 9"
| "code ProtectedLocation = 10"
| "code QuotaExceeded = 11"
| "code DeviceFault = 12"
| "code Interrupted = 13"
| "code WouldBlock = 14"
| "code IntegrityFailure = 15"
| "code ConfirmationRequired = 16"
| "code RuntimeMissing = 17"
| "code NoSuchSyscall = 18"

definition ISIZE_MAX :: int where
  "ISIZE_MAX = 2 ^ 63 - 1"

definition ISIZE_MIN :: int where
  "ISIZE_MIN = - (2 ^ 63)"

definition isize_neg :: "int \<Rightarrow> int run" where
  "isize_neg n = (if n = ISIZE_MIN then Panic else Ret (- n))"

definition to_raw :: "Error \<Rightarrow> int" where
  "to_raw e = - int (code e)"

definition from_code :: "int \<Rightarrow> Error" where
  "from_code n =
     (if n = 1 then InvalidArgument
      else if n = 2 then BadHandle
      else if n = 3 then InsufficientRights
      else if n = 4 then PermissionDenied
      else if n = 5 then NotFound
      else if n = 6 then AlreadyExists
      else if n = 7 then NotImplemented
      else if n = 8 then OutOfMemory
      else if n = 9 then WrongObjectType
      else if n = 10 then ProtectedLocation
      else if n = 11 then QuotaExceeded
      else if n = 12 then DeviceFault
      else if n = 13 then Interrupted
      else if n = 14 then WouldBlock
      else if n = 15 then IntegrityFailure
      else if n = 16 then ConfirmationRequired
      else if n = 17 then RuntimeMissing
      else if n = 18 then NoSuchSyscall
      else InvalidArgument)"

definition from_raw :: "int \<Rightarrow> Error run" where
  "from_raw raw = do { n \<leftarrow> isize_neg raw; Ret (from_code n) }"

fun Error_name :: "Error \<Rightarrow> rstr" where
  "Error_name InvalidArgument = str ''InvalidArgument''"
| "Error_name BadHandle = str ''BadHandle''"
| "Error_name InsufficientRights = str ''InsufficientRights''"
| "Error_name PermissionDenied = str ''PermissionDenied''"
| "Error_name NotFound = str ''NotFound''"
| "Error_name AlreadyExists = str ''AlreadyExists''"
| "Error_name NotImplemented = str ''NotImplemented''"
| "Error_name OutOfMemory = str ''OutOfMemory''"
| "Error_name WrongObjectType = str ''WrongObjectType''"
| "Error_name ProtectedLocation = str ''ProtectedLocation''"
| "Error_name QuotaExceeded = str ''QuotaExceeded''"
| "Error_name DeviceFault = str ''DeviceFault''"
| "Error_name Interrupted = str ''Interrupted''"
| "Error_name WouldBlock = str ''WouldBlock''"
| "Error_name IntegrityFailure = str ''IntegrityFailure''"
| "Error_name ConfirmationRequired = str ''ConfirmationRequired''"
| "Error_name RuntimeMissing = str ''RuntimeMissing''"
| "Error_name NoSuchSyscall = str ''NoSuchSyscall''"

fun explanation :: "Error \<Rightarrow> rstr" where
  "explanation InvalidArgument =
     str ''The request wasn't formed correctly. This is usually a problem with the app, not with your system.''"
| "explanation BadHandle =
     str ''The app referred to something that is no longer open. This is usually a problem with the app.''"
| "explanation InsufficientRights =
     str ''The app has access to this, but not the kind of access it asked for.''"
| "explanation PermissionDenied =
     str ''The app doesn't have permission to do this. You can change what it's allowed to do in Settings.''"
| "explanation NotFound =
     str ''It isn't there. It may have been moved, renamed, or deleted.''"
| "explanation AlreadyExists =
     str ''Something with that name is already there.''"
| "explanation NotImplemented =
     str ''This part of LokoOS isn't finished yet. It's marked experimental in this build.''"
| "explanation OutOfMemory =
     str ''Your system ran out of memory. Closing some apps should free enough to continue.''"
| "explanation WrongObjectType =
     str ''That's a different kind of item than the one this action works on.''"
| "explanation ProtectedLocation =
     str ''This location is part of LokoOS itself and is protected. Only system updates can change it.''"
| "explanation QuotaExceeded =
     str ''This app has reached a limit set for it.''"
| "explanation DeviceFault =
     str ''The drive or device reported a problem. Your data may be at risk '' @ [0x2014] @ str '' check the device in Settings.''"
| "explanation Interrupted =
     str ''The operation was interrupted before it finished.''"
| "explanation WouldBlock =
     str ''This isn't ready yet. LokoOS will try again.''"
| "explanation IntegrityFailure =
     str ''LokoOS couldn't verify that this came from who it says it came from, so it stopped. Don't install it unless you're certain of the source.''"
| "explanation ConfirmationRequired =
     str ''This needs your confirmation before it can go ahead.''"
| "explanation RuntimeMissing =
     str ''The compatibility support this app needs isn't installed yet.''"
| "explanation NoSuchSyscall =
     str ''The app asked LokoOS for something this version doesn't provide. The app may be built for a newer version of LokoOS.''"

datatype UserAction =
    Cancel
  | Retry
  | Confirm
  | OpenPermissionSettings
  | OpenSystemMonitor
  | OpenStorageSettings
  | InstallRuntime
  | LearnMore

fun suggested_actions :: "Error \<Rightarrow> UserAction list" where
  "suggested_actions PermissionDenied = [OpenPermissionSettings, Cancel]"
| "suggested_actions InsufficientRights = [OpenPermissionSettings, Cancel]"
| "suggested_actions ProtectedLocation = [LearnMore, Cancel]"
| "suggested_actions OutOfMemory = [OpenSystemMonitor, Cancel]"
| "suggested_actions DeviceFault = [OpenStorageSettings, Cancel]"
| "suggested_actions IntegrityFailure = [LearnMore, Cancel]"
| "suggested_actions ConfirmationRequired = [Confirm, Cancel]"
| "suggested_actions RuntimeMissing = [InstallRuntime, LearnMore, Cancel]"
| "suggested_actions Interrupted = [Retry, Cancel]"
| "suggested_actions WouldBlock = [Retry, Cancel]"
| "suggested_actions NotImplemented = [LearnMore, Cancel]"
| "suggested_actions NoSuchSyscall = [LearnMore, Cancel]"
| "suggested_actions _ = [Cancel]"

fun is_retryable :: "Error \<Rightarrow> bool" where
  "is_retryable Interrupted = True"
| "is_retryable WouldBlock = True"
| "is_retryable OutOfMemory = True"
| "is_retryable _ = False"

fun is_security_relevant :: "Error \<Rightarrow> bool" where
  "is_security_relevant PermissionDenied = True"
| "is_security_relevant InsufficientRights = True"
| "is_security_relevant ProtectedLocation = True"
| "is_security_relevant IntegrityFailure = True"
| "is_security_relevant _ = False"

fun label :: "UserAction \<Rightarrow> rstr" where
  "label Cancel = str ''Cancel''"
| "label Retry = str ''Try Again''"
| "label Confirm = str ''Continue''"
| "label OpenPermissionSettings = str ''Open Permissions''"
| "label OpenSystemMonitor = str ''Open System Monitor''"
| "label OpenStorageSettings = str ''Check Storage''"
| "label InstallRuntime = str ''Install Runtime''"
| "label LearnMore = str ''Learn More''"

fun is_affirmative :: "UserAction \<Rightarrow> bool" where
  "is_affirmative Retry = True"
| "is_affirmative Confirm = True"
| "is_affirmative _ = False"

text \<open>\<^verbatim>\<open>impl Display for Error\<close>.\<close>

definition Error_display :: "Error \<Rightarrow> rstr" where
  "Error_display e = explanation e"

section \<open>The register convention\<close>

definition RawReturn_ok :: "nat \<Rightarrow> int run" where
  "RawReturn_ok v = (if int v \<le> ISIZE_MAX then Ret (int v) else Panic)"

definition RawReturn_err :: "Error \<Rightarrow> int" where
  "RawReturn_err e = to_raw e"

definition RawReturn_from :: "Error + nat \<Rightarrow> int run" where
  "RawReturn_from r = (case r of Inr v \<Rightarrow> RawReturn_ok v | Inl e \<Rightarrow> Ret (RawReturn_err e))"

definition decode :: "int \<Rightarrow> (Error + nat) run" where
  "decode raw =
     (if raw \<ge> 0 then Ret (Inr (nat raw))
      else do { e \<leftarrow> from_raw raw; Ret (Inl e) })"

section \<open>Properties\<close>

interpretation errors: code_table Error_ALL code
proof unfold_locales
  fix e show "e \<in> set Error_ALL" by (cases e) (simp_all add: Error_ALL_def)
qed (simp add: Error_ALL_def)

lemma from_code_code: "from_code (int (code e)) = e"
  by (cases e) (simp_all add: from_code_def)

lemma code_range: "1 \<le> code e" "code e \<le> 18"
  by (cases e; simp)+

lemma from_raw_to_raw: "from_raw (to_raw e) = Ret e"
proof -
  have "to_raw e \<noteq> ISIZE_MIN" using code_range(2) [of e] by (simp add: to_raw_def ISIZE_MIN_def)
  then show ?thesis by (simp add: from_raw_def isize_neg_def to_raw_def from_code_code)
qed

text \<open>
  A system-call result survives the register. Every error, and every success payload that fits
  a non-negative \<^verbatim>\<open>isize\<close>, is what the caller decodes from the raw value; the values of
  the two cases never overlap; and building the raw value panics for exactly the payloads that
  do not fit.
\<close>

theorem raw_return_roundtrip:
  "(case RawReturn_from r of
      Panic \<Rightarrow> \<exists>v. r = Inr v \<and> ISIZE_MAX < int v
    | Ret raw \<Rightarrow> ISIZE_MIN < raw \<and> raw \<le> ISIZE_MAX \<and> decode raw = Ret r \<and> (raw < 0 \<longleftrightarrow> isl r))"
proof (cases r)
  case (Inl e)
  then show ?thesis
    using code_range [of e] from_raw_to_raw [of e]
    by (simp add: RawReturn_from_def RawReturn_err_def decode_def to_raw_def ISIZE_MAX_def ISIZE_MIN_def)
next
  case (Inr v)
  then show ?thesis
    by (simp add: RawReturn_from_def RawReturn_ok_def decode_def ISIZE_MAX_def ISIZE_MIN_def)
qed

lemma from_code_other:
  assumes "\<forall>e. n \<noteq> int (code e)"
  shows "from_code n = InvalidArgument"
proof -
  have "\<forall>e \<in> set Error_ALL. n \<noteq> int (code e)" using assms by blast
  then show ?thesis by (simp add: Error_ALL_def from_code_def)
qed

lemma from_code_iff:
  "from_code n = e \<longleftrightarrow> n = int (code e) \<or> e = InvalidArgument \<and> (\<forall>e. n \<noteq> int (code e))"
  using from_code_code from_code_other by metis

text \<open>
  Decoding is defined on every register value except one. For a value in the range of an
  \<^verbatim>\<open>isize\<close>, \<^verbatim>\<open>decode\<close> panics exactly when it is the least
  \<^verbatim>\<open>isize\<close>, whose negation in \<^verbatim>\<open>from_raw\<close> overflows; any other negative
  value decodes to the error with that number, or to \<open>InvalidArgument\<close> when no error has it.
\<close>

theorem decode_cases:
  assumes "ISIZE_MIN \<le> raw" "raw \<le> ISIZE_MAX"
  shows "(decode raw = Panic \<longleftrightarrow> raw = ISIZE_MIN) \<and>
    (decode raw = Ret (Inr v) \<longleftrightarrow> raw = int v) \<and>
    (decode raw = Ret (Inl e) \<longleftrightarrow> raw < 0 \<and> raw \<noteq> ISIZE_MIN \<and>
      (raw = to_raw e \<or> e = InvalidArgument \<and> raw \<notin> range to_raw))"
proof (intro conjI)
  show "decode raw = Panic \<longleftrightarrow> raw = ISIZE_MIN" "decode raw = Ret (Inr v) \<longleftrightarrow> raw = int v"
    using assms by (auto simp: decode_def from_raw_def isize_neg_def ISIZE_MIN_def)
  have "raw = to_raw e \<longleftrightarrow> - raw = int (code e)" for e by (auto simp: to_raw_def)
  then show "decode raw = Ret (Inl e) \<longleftrightarrow> raw < 0 \<and> raw \<noteq> ISIZE_MIN \<and>
      (raw = to_raw e \<or> e = InvalidArgument \<and> raw \<notin> range to_raw)"
    by (auto simp: decode_def from_raw_def isize_neg_def from_code_iff image_iff)
qed

theorem decode_cases_witness:
  "decode ISIZE_MIN = Panic \<and> decode (- 5) = Ret (Inl NotFound)"
proof -
  have "ISIZE_MIN \<le> ISIZE_MIN" "ISIZE_MIN \<le> ISIZE_MAX" "ISIZE_MIN \<le> - 5" "- 5 \<le> ISIZE_MAX"
    by (simp_all add: ISIZE_MIN_def ISIZE_MAX_def)
  with decode_cases [of ISIZE_MIN] decode_cases [of "- 5" _ NotFound] show ?thesis
    by (simp add: ISIZE_MIN_def to_raw_def)
qed

text \<open>
  Every error can be shown to a user and handled safely. It has a non-empty explanation, its
  suggested actions are distinct and always end with the way out, \<open>Cancel\<close>; an affirmative action
  is offered only for the three errors that a retry or a confirmation can resolve; and an error
  that belongs in the security log is never retried automatically.
\<close>

theorem error_presentation:
  "explanation e \<noteq> [] \<and> suggested_actions e \<noteq> [] \<and> last (suggested_actions e) = Cancel \<and>
   distinct (suggested_actions e) \<and>
   ((\<exists>a \<in> set (suggested_actions e). is_affirmative a) \<longleftrightarrow>
      e \<in> {Interrupted, WouldBlock, ConfirmationRequired}) \<and>
   \<not> (is_security_relevant e \<and> is_retryable e)"
  by (cases e) (simp_all add: str_def)

end
