(* ===== verification/Abi_Syscall.thy ===== *)
theory Abi_Syscall
  imports Abi_Error Bitflags
begin

text \<open>
  Handles and their rights, \<^verbatim>\<open>src/sdk/loko-abi/src/handle.rs\<close>; system-call numbers and
  their contracts, \<^verbatim>\<open>src/sdk/loko-abi/src/syscall.rs\<close>; and the kernel's dispatcher,
  \<^verbatim>\<open>src/kernel/loko-kernel/src/syscall.rs\<close>. Rights are 32-bit words; the operations of
  the \<^verbatim>\<open>bitflags\<close> crate on them are the parameter \<open>api\<close>.
\<close>

section \<open>Handles and rights\<close>

type_synonym HandleRights = "32 word"

definition Handle_INVALID :: nat where
  "Handle_INVALID = 0"

definition Handle_is_valid :: "nat \<Rightarrow> bool" where
  "Handle_is_valid h \<longleftrightarrow> h \<noteq> 0"

datatype HandleType =
    Directory | File | Process | Thread | VirtualMemory | Channel | Timer | Interrupt | Device | Grant

definition READ :: HandleRights where
  "READ = push_bit 0 1"

definition WRITE :: HandleRights where
  "WRITE = push_bit 1 1"

definition EXECUTE :: HandleRights where
  "EXECUTE = push_bit 2 1"

definition INSPECT :: HandleRights where
  "INSPECT = push_bit 3 1"

definition ADMINISTER :: HandleRights where
  "ADMINISTER = push_bit 4 1"

definition CREATE :: HandleRights where
  "CREATE = push_bit 5 1"

definition DELETE :: HandleRights where
  "DELETE = push_bit 6 1"

definition WATCH :: HandleRights where
  "WATCH = push_bit 7 1"

definition TRANSFER :: HandleRights where
  "TRANSFER = push_bit 8 1"

definition DERIVE :: HandleRights where
  "DERIVE = push_bit 9 1"

definition RO :: HandleRights where
  "RO = READ OR INSPECT"

definition RW :: HandleRights where
  "RW = RO OR WRITE"

definition DIR_FULL :: HandleRights where
  "DIR_FULL = RW OR EXECUTE OR CREATE OR DELETE OR WATCH OR DERIVE"

definition derive :: "bitflags_api \<Rightarrow> HandleRights \<Rightarrow> HandleRights \<Rightarrow> HandleRights option" where
  "derive api self requested =
     (if \<not> bf_contains api self DERIVE then None
      else if \<not> bf_contains api self requested then None
      else Some requested)"

definition allows :: "bitflags_api \<Rightarrow> HandleRights \<Rightarrow> HandleRights \<Rightarrow> bool" where
  "allows api self required = bf_contains api self required"

definition rights_is_mutating :: "bitflags_api \<Rightarrow> HandleRights \<Rightarrow> bool" where
  "rights_is_mutating api self =
     bf_intersects api self
       (bf_union api (bf_union api (bf_union api WRITE ADMINISTER) CREATE) DELETE)"

definition legal_rights_for :: "bitflags_api \<Rightarrow> HandleType \<Rightarrow> HandleRights" where
  "legal_rights_for api kind =
     (let u = bf_union api; base = u (u INSPECT TRANSFER) DERIVE in
      case kind of
        Directory \<Rightarrow> u base DIR_FULL
      | File \<Rightarrow> u (u (u (u (u base READ) WRITE) EXECUTE) WATCH) ADMINISTER
      | Process \<Rightarrow> u (u (u base READ) WRITE) ADMINISTER
      | Thread \<Rightarrow> u (u (u base READ) WRITE) ADMINISTER
      | VirtualMemory \<Rightarrow> u (u (u base READ) WRITE) EXECUTE
      | Channel \<Rightarrow> u (u base READ) WRITE
      | Timer \<Rightarrow> u (u base READ) WATCH
      | Interrupt \<Rightarrow> u (u base READ) WATCH
      | Device \<Rightarrow> u (u (u base READ) WRITE) ADMINISTER
      | Grant \<Rightarrow> u INSPECT TRANSFER)"

section \<open>System-call numbers\<close>

datatype SyscallNo =
    ThreadExit | ThreadYield | ThreadSleep | ThreadCreate | HandleClose
  | HandleDerive | HandleQuery | FsOpenAt | FsRead | FsWrite
  | FsStat | FsReadDir | FsCreateDir | FsUnlink | FsRename
  | FsSync | VmMap | VmUnmap | VmProtect | ChannelCreate
  | ChannelSend | ChannelRecv | ClockMonotonic | WaitMany | LogWrite

definition SyscallNo_ALL :: "SyscallNo list" where
  "SyscallNo_ALL =
    [ThreadExit, ThreadYield, ThreadSleep, ThreadCreate, HandleClose,
     HandleDerive, HandleQuery, FsOpenAt, FsRead, FsWrite,
     FsStat, FsReadDir, FsCreateDir, FsUnlink, FsRename,
     FsSync, VmMap, VmUnmap, VmProtect, ChannelCreate,
     ChannelSend, ChannelRecv, ClockMonotonic, WaitMany, LogWrite]"

fun number :: "SyscallNo \<Rightarrow> nat" where
  "number ThreadExit = 1"
| "number ThreadYield = 2"
| "number ThreadSleep = 3"
| "number ThreadCreate = 4"
| "number HandleClose = 16"
| "number HandleDerive = 17"
| "number HandleQuery = 18"
| "number FsOpenAt = 32"
| "number FsRead = 33"
| "number FsWrite = 34"
| "number FsStat = 35"
| "number FsReadDir = 36"
| "number FsCreateDir = 37"
| "number FsUnlink = 38"
| "number FsRename = 39"
| "number FsSync = 40"
| "number VmMap = 48"
| "number VmUnmap = 49"
| "number VmProtect = 50"
| "number ChannelCreate = 64"
| "number ChannelSend = 65"
| "number ChannelRecv = 66"
| "number ClockMonotonic = 80"
| "number WaitMany = 81"
| "number LogWrite = 96"

definition from_number :: "nat \<Rightarrow> SyscallNo option" where
  "from_number n = find (\<lambda>s. number s = n) SyscallNo_ALL"

fun required_rights :: "SyscallNo \<Rightarrow> HandleRights option" where
  "required_rights HandleDerive = Some DERIVE"
| "required_rights HandleQuery = Some INSPECT"
| "required_rights FsOpenAt = Some EXECUTE"
| "required_rights FsRead = Some READ"
| "required_rights FsWrite = Some WRITE"
| "required_rights FsStat = Some INSPECT"
| "required_rights FsReadDir = Some READ"
| "required_rights FsCreateDir = Some CREATE"
| "required_rights FsUnlink = Some DELETE"
| "required_rights FsRename = Some DELETE"
| "required_rights FsSync = Some WRITE"
| "required_rights VmUnmap = Some WRITE"
| "required_rights VmProtect = Some WRITE"
| "required_rights ChannelSend = Some WRITE"
| "required_rights ChannelRecv = Some READ"
| "required_rights _ = None"

fun SyscallNo_is_mutating :: "SyscallNo \<Rightarrow> bool" where
  "SyscallNo_is_mutating FsWrite = True"
| "SyscallNo_is_mutating FsCreateDir = True"
| "SyscallNo_is_mutating FsUnlink = True"
| "SyscallNo_is_mutating FsRename = True"
| "SyscallNo_is_mutating FsSync = True"
| "SyscallNo_is_mutating _ = False"

section \<open>The kernel's dispatcher\<close>

record Args =
  a0 :: nat
  a1 :: nat
  a2 :: nat
  a3 :: nat
  a4 :: nat
  a5 :: nat

definition log_write :: "Args \<Rightarrow> Error + nat" where
  "log_write args = Inl NotImplemented"

definition clock_monotonic :: "Error + nat" where
  "clock_monotonic = Inl NotImplemented"

definition dispatch :: "nat \<Rightarrow> Args \<Rightarrow> int run" where
  "dispatch n args =
     (case from_number n of
        None \<Rightarrow> Ret (RawReturn_err NoSuchSyscall)
      | Some call \<Rightarrow>
          RawReturn_from (case call of
              LogWrite \<Rightarrow> log_write args
            | ClockMonotonic \<Rightarrow> clock_monotonic
            | _ \<Rightarrow> Inl NotImplemented))"

section \<open>Properties\<close>

interpretation calls: code_table SyscallNo_ALL number
proof unfold_locales
  fix s show "s \<in> set SyscallNo_ALL" by (cases s) (simp_all add: SyscallNo_ALL_def)
qed (simp add: SyscallNo_ALL_def)

text \<open>
  System-call numbers are a faithful encoding: a number decodes to a call exactly when it is
  that call's number, so every call round-trips, no two calls share a number, and a number no call
  has is rejected.
\<close>

theorem from_number_iff:
  "(from_number n = Some call \<longleftrightarrow> number call = n) \<and>
   (from_number n = None \<longleftrightarrow> n \<notin> range number)"
  using calls.find_code calls.find_code_None by (simp add: from_number_def)

text \<open>
  The dispatcher never panics and never pretends to succeed. For every number and every
  argument registers the value it puts in the return register decodes, in the caller, to
  \<open>NotImplemented\<close> for a known call and to \<open>NoSuchSyscall\<close> for any other number.
\<close>

theorem dispatch_reports:
  "\<exists>raw. dispatch n args = Ret raw \<and>
    decode raw = Ret (Inl (if n \<in> range number then NotImplemented else NoSuchSyscall))"
proof (cases "from_number n")
  case None
  then have "n \<notin> range number" by (simp add: from_number_def calls.find_code_None)
  with None show ?thesis
    using from_raw_to_raw [of NoSuchSyscall]
    by (simp add: dispatch_def RawReturn_err_def decode_def to_raw_def)
next
  case (Some call)
  then have "n \<in> range number" by (auto simp: from_number_def calls.find_code)
  moreover have "dispatch n args = Ret (RawReturn_err NotImplemented)"
    using Some by (cases call)
      (simp_all add: dispatch_def RawReturn_from_def log_write_def clock_monotonic_def)
  ultimately show ?thesis
    using from_raw_to_raw [of NotImplemented] by (simp add: RawReturn_err_def decode_def to_raw_def)
qed

lemmas rights_defs = READ_def WRITE_def EXECUTE_def INSPECT_def ADMINISTER_def CREATE_def DELETE_def
  WATCH_def TRANSFER_def DERIVE_def RO_def RW_def DIR_FULL_def

lemma single_right:
  assumes "bitflags_laws api" "n < 32"
  shows "bf_contains api r (push_bit n 1) \<longleftrightarrow> bit r n"
proof -
  have "r AND push_bit n 1 = push_bit n 1 \<longleftrightarrow> (\<forall>k < 32. k = n \<longrightarrow> bit r k)"
    using assms(2) by (auto simp: bit_eq_iff bit_simps)
  then show ?thesis using assms by (simp add: bitflags_simps)
qed

lemma right_bits:
  assumes "bitflags_laws api"
  shows "bf_contains api r WRITE \<longleftrightarrow> bit r 1" "bf_contains api r CREATE \<longleftrightarrow> bit r 5"
    "bf_contains api r DELETE \<longleftrightarrow> bit r 6" "bf_contains api r DERIVE \<longleftrightarrow> bit r 9"
  unfolding WRITE_def CREATE_def DELETE_def DERIVE_def by (rule single_right [OF assms], simp)+

text \<open>The rights that can be reached from a handle by deriving, any number of times.\<close>

inductive delegated :: "bitflags_api \<Rightarrow> HandleRights \<Rightarrow> HandleRights \<Rightarrow> bool" for api r where
  own: "delegated api r r"
| narrow: "delegated api r s \<Longrightarrow> derive api s requested = Some t \<Longrightarrow> delegated api r t"

lemma derive_SomeD:
  assumes "derive api s requested = Some t"
  shows "t = requested" "bf_contains api s t" "bf_contains api s DERIVE"
  using assms by (auto simp: derive_def split: if_splits)

text \<open>
  C16. Authority only flows downhill. However often a handle is derived from, by however many
  processes, the resulting rights allow nothing the first handle did not allow, and a handle
  without \<open>DERIVE\<close> has no descendants at all.
\<close>

theorem delegation_only_narrows:
  assumes "bitflags_laws api" "delegated api r t" "allows api t required"
  shows "allows api r required \<and> (t = r \<or> allows api r DERIVE)"
proof -
  have "bf_contains api r t \<and> (t = r \<or> bf_contains api r DERIVE)"
    using assms(2)
  proof induction
    case own
    then show ?case using assms(1) by (simp add: bitflags_simps)
  next
    case (narrow s requested t)
    with derive_SomeD [OF narrow.hyps(2)] show ?case
      using contains_trans [OF assms(1)] by blast
  qed
  with assms(3) contains_trans [OF assms(1)] show ?thesis unfolding allows_def by blast
qed

theorem delegation_only_narrows_witness:
  "delegated word_bitflags DIR_FULL (RO OR DERIVE) \<and> allows word_bitflags DIR_FULL READ"
proof -
  have "derive word_bitflags DIR_FULL (RO OR DERIVE) = Some (RO OR DERIVE)"
    "allows word_bitflags (RO OR DERIVE) READ"
    by (simp_all add: derive_def allows_def word_bitflags_def rights_defs)
  moreover from this have "delegated word_bitflags DIR_FULL (RO OR DERIVE)"
    by (blast intro: delegated.intros)
  ultimately show ?thesis using delegation_only_narrows [OF word_bitflags_laws] by blast
qed

lemma mutating_iff:
  assumes "bitflags_laws api"
  shows "rights_is_mutating api r \<longleftrightarrow> bit r 1 \<or> bit r 4 \<or> bit r 5 \<or> bit r 6"
proof -
  have mask: "bit (WRITE OR ADMINISTER OR CREATE OR DELETE) k \<longleftrightarrow> k = 1 \<or> k = 4 \<or> k = 5 \<or> k = 6"
    if "k < 32" for k
    using that unfolding WRITE_def ADMINISTER_def CREATE_def DELETE_def bit_or_iff bit_push_bit_iff bit_1_iff
    by auto
  have "r AND (WRITE OR ADMINISTER OR CREATE OR DELETE) \<noteq> 0 \<longleftrightarrow>
      (\<exists>k < 32. bit r k \<and> (k = 1 \<or> k = 4 \<or> k = 5 \<or> k = 6))"
    (is "?l \<longleftrightarrow> ?r")
  proof
    assume ?l
    then obtain k where "bit (r AND (WRITE OR ADMINISTER OR CREATE OR DELETE)) k"
      by (metis bit_0_eq bit_eqI bot_apply bot_bool_def)
    then have "k < 32" "bit r k" "bit (WRITE OR ADMINISTER OR CREATE OR DELETE) k"
      using bit_imp_le_length [of r k] by (auto simp only: bit_and_iff) auto
    with mask show ?r by blast
  next
    assume ?r
    then obtain k where "k < 32" "bit (r AND (WRITE OR ADMINISTER OR CREATE OR DELETE)) k"
      using mask by (auto simp: bit_and_iff)
    then show ?l by (metis bit_0_eq bot_apply bot_bool_def)
  qed
  moreover have "(\<exists>k < 32. bit r k \<and> (k = 1 \<or> k = 4 \<or> k = 5 \<or> k = 6)) \<longleftrightarrow>
      bit r 1 \<or> bit r 4 \<or> bit r 5 \<or> bit r 6"
    by (rule iffI; elim exE conjE disjE) (auto intro: exI [of _ 1] exI [of _ 4] exI [of _ 5] exI [of _ 6])
  ultimately show ?thesis using assms by (simp add: rights_is_mutating_def bitflags_simps or.assoc)
qed

text \<open>
  A call that can change persistent state cannot be made through a handle that cannot: such
  a call always demands rights, and every handle whose rights allow it is one that
  \<^verbatim>\<open>is_mutating\<close> reports, so a prompt based on the handle covers every such call.
\<close>

theorem mutating_call_needs_mutating_handle:
  assumes "bitflags_laws api" "SyscallNo_is_mutating call"
  shows "\<exists>required. required_rights call = Some required \<and>
    (\<forall>rights. allows api rights required \<longrightarrow> rights_is_mutating api rights)"
  using assms(2)
  by (cases call) (simp_all add: allows_def right_bits [OF assms(1)] mutating_iff [OF assms(1)])

theorem mutating_call_needs_mutating_handle_witness:
  "\<exists>required. required_rights FsUnlink = Some required \<and> \<not> allows word_bitflags RO required"
proof -
  have "\<not> rights_is_mutating word_bitflags RO"
    by (simp add: rights_is_mutating_def word_bitflags_def rights_defs)
  then show ?thesis
    using mutating_call_needs_mutating_handle [OF word_bitflags_laws, of FsUnlink] by fastforce
qed

text \<open>
  The legal rights of a handle type keep two promises: a permission grant can never be
  derived from, whatever legal rights it was given, and only a directory can carry the rights to
  create or delete entries.
\<close>

theorem legal_rights_limits:
  assumes "bitflags_laws api" "allows api (legal_rights_for api kind) rights"
  shows "(kind = Grant \<longrightarrow> derive api rights requested = None) \<and>
    (allows api rights CREATE \<or> allows api rights DELETE \<longrightarrow> kind = Directory)"
proof -
  let ?legal = "legal_rights_for api kind"
  have le: "bit ?legal n" if "bf_contains api rights (push_bit n 1)" "n < 32" for n
    using contains_trans [OF assms(1) assms(2) [unfolded allows_def] that(1)]
      single_right [OF assms(1) that(2)] by blast
  have "\<not> bit ?legal 9" if "kind = Grant"
    using that assms(1) by (simp add: legal_rights_for_def bitflags_simps rights_defs bit_simps)
  moreover have "\<not> bit ?legal 5 \<and> \<not> bit ?legal 6" if "kind \<noteq> Directory"
    using that assms(1)
    by (cases kind) (simp_all add: legal_rights_for_def bitflags_simps rights_defs bit_simps)
  ultimately show ?thesis
    using le [of 9] le [of 5] le [of 6]
    by (auto simp: derive_def allows_def DERIVE_def CREATE_def DELETE_def simp del: push_bit_of_1)
qed

theorem legal_rights_limits_witness:
  "derive word_bitflags TRANSFER TRANSFER = None"
proof -
  have "allows word_bitflags (legal_rights_for word_bitflags Grant) TRANSFER"
    by (simp add: allows_def legal_rights_for_def word_bitflags_def rights_defs)
  from legal_rights_limits [OF word_bitflags_laws this] show ?thesis by simp
qed

end
