(* ===== verification/Lko_Root.thy ===== *)
theory Lko_Root
  imports Rust_Str
begin

text \<open>
  The closed set of LKO roots, \<^verbatim>\<open>src/filesystem/lkofs-core/src/root.rs\<close>: their names,
  how a name is parsed, their protection class and their storage category. The protection classes
  are a linear order, from most to least protected, as the derived \<^verbatim>\<open>PartialOrd\<close> of the
  source has it.
\<close>

section \<open>Roots, protection classes and storage categories\<close>

datatype Root =
    System | Users | Apps | Drivers | Services
  | Runtime | Config | Data | Temp | Cache
  | Logs | Recovery | Boot | Ai | Linder
  | Lowser | Store | Compatibility | Dev

fun Root_discriminant :: "Root \<Rightarrow> nat" where
  "Root_discriminant Root.System = 1"
| "Root_discriminant Root.Users = 2"
| "Root_discriminant Root.Apps = 3"
| "Root_discriminant Root.Drivers = 4"
| "Root_discriminant Root.Services = 5"
| "Root_discriminant Root.Runtime = 6"
| "Root_discriminant Root.Config = 7"
| "Root_discriminant Root.Data = 8"
| "Root_discriminant Root.Temp = 9"
| "Root_discriminant Root.Cache = 10"
| "Root_discriminant Root.Logs = 11"
| "Root_discriminant Root.Recovery = 12"
| "Root_discriminant Root.Boot = 13"
| "Root_discriminant Root.Ai = 14"
| "Root_discriminant Root.Linder = 15"
| "Root_discriminant Root.Lowser = 16"
| "Root_discriminant Root.Store = 17"
| "Root_discriminant Root.Compatibility = 18"
| "Root_discriminant Root.Dev = 19"

datatype Protection = SystemImmutable | SystemManaged | UserOwned | Volatile

fun Protection_rank :: "Protection \<Rightarrow> nat" where
  "Protection_rank SystemImmutable = 0"
| "Protection_rank SystemManaged = 1"
| "Protection_rank UserOwned = 2"
| "Protection_rank Volatile = 3"

instantiation Protection :: linorder
begin

definition less_eq_Protection :: "Protection \<Rightarrow> Protection \<Rightarrow> bool" where
  "a \<le> b \<longleftrightarrow> Protection_rank a \<le> Protection_rank b"

definition less_Protection :: "Protection \<Rightarrow> Protection \<Rightarrow> bool" where
  "a < b \<longleftrightarrow> Protection_rank a < Protection_rank b"

instance
proof
  fix a b :: Protection
  show "a \<le> b \<Longrightarrow> b \<le> a \<Longrightarrow> a = b"
    by (cases a; cases b) (simp_all add: less_eq_Protection_def)
qed (auto simp: less_eq_Protection_def less_Protection_def)

end

fun app_writable :: "Protection \<Rightarrow> bool" where
  "app_writable UserOwned = True"
| "app_writable Volatile = True"
| "app_writable _ = False"

fun safe_to_purge :: "Protection \<Rightarrow> bool" where
  "safe_to_purge Volatile = True"
| "safe_to_purge _ = False"

datatype StorageCategory =
    BaseSystem | Applications | Compatibility | AiModels | Cache | Temporary | UserFiles | Recovery
  | Developer

fun counts_toward_base_os_budget :: "StorageCategory \<Rightarrow> bool" where
  "counts_toward_base_os_budget BaseSystem = True"
| "counts_toward_base_os_budget _ = False"

fun StorageCategory_label :: "StorageCategory \<Rightarrow> rstr" where
  "StorageCategory_label BaseSystem = str ''System''"
| "StorageCategory_label Applications = str ''Applications''"
| "StorageCategory_label StorageCategory.Compatibility = str ''Compatibility''"
| "StorageCategory_label AiModels = str ''AI Models''"
| "StorageCategory_label StorageCategory.Cache = str ''Cache''"
| "StorageCategory_label Temporary = str ''Temporary Files''"
| "StorageCategory_label UserFiles = str ''Your Files''"
| "StorageCategory_label StorageCategory.Recovery = str ''Recovery''"
| "StorageCategory_label Developer = str ''Developer Tools''"

section \<open>Operations on roots\<close>

definition Root_ALL :: "Root list" where
  "Root_ALL =
    [Root.System, Root.Users, Root.Apps, Root.Drivers, Root.Services,
     Root.Runtime, Root.Config, Root.Data, Root.Temp, Root.Cache,
     Root.Logs, Root.Recovery, Root.Boot, Root.Ai, Root.Linder,
     Root.Lowser, Root.Store, Root.Compatibility, Root.Dev]"

fun Root_name :: "Root \<Rightarrow> rstr" where
  "Root_name Root.System = str ''System''"
| "Root_name Root.Users = str ''Users''"
| "Root_name Root.Apps = str ''Apps''"
| "Root_name Root.Drivers = str ''Drivers''"
| "Root_name Root.Services = str ''Services''"
| "Root_name Root.Runtime = str ''Runtime''"
| "Root_name Root.Config = str ''Config''"
| "Root_name Root.Data = str ''Data''"
| "Root_name Root.Temp = str ''Temp''"
| "Root_name Root.Cache = str ''Cache''"
| "Root_name Root.Logs = str ''Logs''"
| "Root_name Root.Recovery = str ''Recovery''"
| "Root_name Root.Boot = str ''Boot''"
| "Root_name Root.Ai = str ''AI''"
| "Root_name Root.Linder = str ''Linder''"
| "Root_name Root.Lowser = str ''Lowser''"
| "Root_name Root.Store = str ''Store''"
| "Root_name Root.Compatibility = str ''Compatibility''"
| "Root_name Root.Dev = str ''Dev''"

definition Root_parse :: "rstr \<Rightarrow> Root option" where
  "Root_parse s =
     (if \<not> is_ascii s then None
      else find (\<lambda>r. eq_ignore_ascii_case (Root_name r) s) Root_ALL)"

fun Root_protection :: "Root \<Rightarrow> Protection" where
  "Root_protection Root.System = SystemImmutable"
| "Root_protection Root.Users = UserOwned"
| "Root_protection Root.Apps = SystemManaged"
| "Root_protection Root.Drivers = SystemImmutable"
| "Root_protection Root.Services = SystemManaged"
| "Root_protection Root.Runtime = SystemManaged"
| "Root_protection Root.Config = SystemManaged"
| "Root_protection Root.Data = SystemManaged"
| "Root_protection Root.Temp = Volatile"
| "Root_protection Root.Cache = Volatile"
| "Root_protection Root.Logs = SystemManaged"
| "Root_protection Root.Recovery = SystemImmutable"
| "Root_protection Root.Boot = SystemImmutable"
| "Root_protection Root.Ai = SystemManaged"
| "Root_protection Root.Linder = SystemManaged"
| "Root_protection Root.Lowser = UserOwned"
| "Root_protection Root.Store = SystemManaged"
| "Root_protection Root.Compatibility = SystemManaged"
| "Root_protection Root.Dev = SystemManaged"

fun Root_storage_category :: "Root \<Rightarrow> StorageCategory" where
  "Root_storage_category Root.System = BaseSystem"
| "Root_storage_category Root.Users = UserFiles"
| "Root_storage_category Root.Apps = Applications"
| "Root_storage_category Root.Drivers = BaseSystem"
| "Root_storage_category Root.Services = BaseSystem"
| "Root_storage_category Root.Runtime = BaseSystem"
| "Root_storage_category Root.Config = BaseSystem"
| "Root_storage_category Root.Data = BaseSystem"
| "Root_storage_category Root.Temp = Temporary"
| "Root_storage_category Root.Cache = StorageCategory.Cache"
| "Root_storage_category Root.Logs = BaseSystem"
| "Root_storage_category Root.Recovery = StorageCategory.Recovery"
| "Root_storage_category Root.Boot = BaseSystem"
| "Root_storage_category Root.Ai = AiModels"
| "Root_storage_category Root.Linder = StorageCategory.Cache"
| "Root_storage_category Root.Lowser = StorageCategory.Cache"
| "Root_storage_category Root.Store = Applications"
| "Root_storage_category Root.Compatibility = StorageCategory.Compatibility"
| "Root_storage_category Root.Dev = Developer"

fun is_persistent :: "Root \<Rightarrow> bool" where
  "is_persistent Root.Temp = False"
| "is_persistent _ = True"

fun indexed_by_default :: "Root \<Rightarrow> bool" where
  "indexed_by_default Root.Users = True"
| "indexed_by_default Root.Apps = True"
| "indexed_by_default Root.Dev = True"
| "indexed_by_default Root.Store = True"
| "indexed_by_default _ = False"

fun Root_description :: "Root \<Rightarrow> rstr" where
  "Root_description Root.System = str ''LokoOS itself. Replaced only by system updates.''"
| "Root_description Root.Users = str ''Your files, and the files of anyone else who uses this device.''"
| "Root_description Root.Apps = str ''Installed applications.''"
| "Root_description Root.Drivers = str ''Software that lets LokoOS talk to your hardware.''"
| "Root_description Root.Services = str ''Background programs that keep the system running.''"
| "Root_description Root.Runtime = str ''Support libraries that applications need in order to run.''"
| "Root_description Root.Config = str ''Settings, for the system and for applications.''"
| "Root_description Root.Data = str ''Databases and indexes LokoOS maintains.''"
| "Root_description Root.Temp = str ''Scratch space. Cleared every time you restart.''"
| "Root_description Root.Cache = str ''Saved copies of things that can be rebuilt if deleted.''"
| "Root_description Root.Logs = str ''Records of what the system has been doing.''"
| "Root_description Root.Recovery = str ''The tools used to repair LokoOS if it won't start.''"
| "Root_description Root.Boot = str ''What LokoOS loads first when you turn the device on.''"
| "Root_description Root.Ai = str ''Loko AI's models, memory and configuration.''"
| "Root_description Root.Linder = str ''Linder's search index.''"
| "Root_description Root.Lowser = str ''Lowser's profiles, extensions and browsing data.''"
| "Root_description Root.Store = str ''Downloaded packages and store information.''"
| "Root_description Root.Compatibility = str ''Optional support for Windows and macOS applications.''"
| "Root_description Root.Dev = str ''Developer tools, SDKs and toolchains.''"

section \<open>Names\<close>

lemma Root_ALL_complete: "r \<in> set Root_ALL"
  by (cases r) (simp_all add: Root_ALL_def)

lemma Root_name_ascii: "is_ascii (Root_name r)"
  by (cases r) (simp_all add: is_ascii_def str_def)

lemma Root_name_inj_ci:
  "distinct (map (\<lambda>r. map to_ascii_lowercase (Root_name r)) Root_ALL)"
  by (simp add: Root_ALL_def to_ascii_lowercase_def str_def)

lemma Root_name_ci_eq: "eq_ignore_ascii_case (Root_name a) (Root_name b) \<longleftrightarrow> a = b"
  using Root_name_inj_ci Root_ALL_complete
  by (auto simp: distinct_map eq_ignore_ascii_case_def dest: inj_onD)

text \<open>A root's name is parsed in any ASCII case, and nothing else is.\<close>

lemma Root_parse_iff: "Root_parse s = Some r \<longleftrightarrow> eq_ignore_ascii_case s (Root_name r)"
proof
  assume "Root_parse s = Some r"
  then show "eq_ignore_ascii_case s (Root_name r)"
    by (auto simp: Root_parse_def find_Some_iff eq_ignore_ascii_case_def split: if_splits)
next
  assume eq: "eq_ignore_ascii_case s (Root_name r)"
  then have "is_ascii s" using is_ascii_cong Root_name_ascii by blast
  moreover have "find (\<lambda>q. eq_ignore_ascii_case (Root_name q) s) Root_ALL \<noteq> None"
    using eq Root_ALL_complete by (auto simp: find_None_iff eq_ignore_ascii_case_def)
  then obtain q where q: "find (\<lambda>q. eq_ignore_ascii_case (Root_name q) s) Root_ALL = Some q" by blast
  then have "eq_ignore_ascii_case (Root_name q) s" by (auto simp: find_Some_iff)
  then have "q = r" using eq Root_name_ci_eq eq_ignore_ascii_case_trans by blast
  ultimately show "Root_parse s = Some r" using q by (simp add: Root_parse_def)
qed

lemma Root_parse_name [simp]: "Root_parse (Root_name r) = Some r"
  by (simp add: Root_parse_iff)

lemma Root_parse_cong: "eq_ignore_ascii_case s t \<Longrightarrow> Root_parse s = Root_parse t"
proof -
  assume "eq_ignore_ascii_case s t"
  then have "Root_parse s = Some r \<longleftrightarrow> Root_parse t = Some r" for r
    by (simp add: Root_parse_iff eq_ignore_ascii_case_def)
  then show ?thesis by (metis option.exhaust)
qed

lemma Root_parse_ascii: "Root_parse s = Some r \<Longrightarrow> is_ascii s"
  by (auto simp: Root_parse_def split: if_splits)

end
