(* ===== verification/Path_Spec.thy ===== *)
theory Path_Spec
  imports Rust_Str
begin

text \<open>
  What the access policy needs of paths, as a locale: containment is decided on the lists of
  components, up to an equivalence of names. The tree laws of containment follow once, and hold for
  the paths of LKOFS by the interpretation in the theory of paths.
\<close>

fun starts_like :: "('c \<Rightarrow> 'c \<Rightarrow> bool) \<Rightarrow> 'c list \<Rightarrow> 'c list \<Rightarrow> bool" where
  "starts_like same cs [] = True"
| "starts_like same [] (d # ds) = False"
| "starts_like same (c # cs) (d # ds) = (same c d \<and> starts_like same cs ds)"

lemma starts_like_iff:
  "starts_like same cs ds \<longleftrightarrow> length ds \<le> length cs \<and> list_all2 same (take (length ds) cs) ds"
  by (induction same cs ds rule: starts_like.induct) auto

locale hierarchy =
  fixes repr :: "'p \<Rightarrow> 'c list \<Rightarrow> bool"
    and same :: "'c \<Rightarrow> 'c \<Rightarrow> bool"
    and within :: "'p \<Rightarrow> 'p \<Rightarrow> bool run"
  assumes within_repr: "repr p cs \<Longrightarrow> repr q ds \<Longrightarrow> within p q = Ret (starts_like same cs ds)"
    and same_refl: "same c c"
    and same_sym: "same c d \<Longrightarrow> same d c"
    and same_trans: "same c d \<Longrightarrow> same d e \<Longrightarrow> same c e"
begin

lemma like_refl: "starts_like same cs cs"
  by (induction cs) (simp_all add: same_refl)

lemma like_trans: "starts_like same cs ds \<Longrightarrow> starts_like same ds es \<Longrightarrow> starts_like same cs es"
proof (induction es arbitrary: cs ds)
  case (Cons e es)
  then obtain d ds' where ds: "ds = d # ds'" "same d e" "starts_like same ds' es" by (cases ds) auto
  with Cons.prems(1) obtain c cs' where "cs = c # cs'" "same c d" "starts_like same cs' ds'"
    by (cases cs) auto
  with ds Cons.IH show ?case by (auto intro: same_trans)
qed simp

lemma like_chain:
  "starts_like same cs ds \<Longrightarrow> starts_like same cs es \<Longrightarrow> starts_like same ds es \<or> starts_like same es ds"
proof (induction cs arbitrary: ds es)
  case Nil
  then show ?case by (cases ds; cases es) auto
next
  case (Cons c cs)
  then show ?case by (cases ds; cases es) (auto intro: same_trans same_sym)
qed

lemma like_antisym:
  "starts_like same cs ds \<Longrightarrow> starts_like same ds cs \<Longrightarrow> list_all2 same cs ds"
  by (auto simp: starts_like_iff)

lemma within_refl: "repr p cs \<Longrightarrow> within p p = Ret True"
  by (simp add: within_repr like_refl)

lemma within_trans:
  assumes "repr p cs" "repr q ds" "repr r es" "within p q = Ret True" "within q r = Ret True"
  shows "within p r = Ret True"
  using assms like_trans by (simp add: within_repr)

lemma within_chain:
  assumes "repr p cs" "repr q ds" "repr r es" "within p q = Ret True" "within p r = Ret True"
  shows "within q r = Ret True \<or> within r q = Ret True"
  using assms like_chain by (simp add: within_repr)

end

end
