(* ===== verification/Lko_Path.thy ===== *)
theory Lko_Path
  imports Lko_Root Abi_Error Path_Spec
begin

text \<open>
  LKO paths, \<^verbatim>\<open>src/filesystem/lkofs-core/src/path.rs\<close>. A borrowed path keeps the
  caller's spelling, an owned path the canonical one; both are records of a string and the root it
  is under. Slicing is the panicking slicing of \<^verbatim>\<open>str\<close>, so every operation that slices
  returns a \<open>run\<close>. The abstract view of a path is its list of components; \<open>path_repr\<close> relates a
  borrowed path to it, and every operation is shown to compute on that list.
\<close>

section \<open>Errors\<close>

definition MAX_COMPONENT_LEN :: nat where
  "MAX_COMPONENT_LEN = 255"

definition MAX_PATH_LEN :: nat where
  "MAX_PATH_LEN = 4096"

definition LKO_PREFIX :: rstr where
  "LKO_PREFIX = str ''LKO''"

abbreviation slash :: rchar where
  "slash \<equiv> 47"

abbreviation backslash :: rchar where
  "backslash \<equiv> 92"

datatype PathError =
    MissingRoot
  | UnknownRoot
  | TooLong
  | ComponentTooLong
  | EmptyComponent
  | RelativeComponent
  | BackslashSeparator
  | SeparatorInName
  | ControlCharacter
  | BidirectionalOverride
  | TrailingSpaceOrDot
  | NonAsciiRoot

fun PathError_explanation :: "PathError \<Rightarrow> rstr" where
  "PathError_explanation MissingRoot =
     str ''That location doesn't start from the top of the drive.''"
| "PathError_explanation UnknownRoot =
     str ''There's no such place on this system.''"
| "PathError_explanation TooLong =
     str ''That location's name is too long.''"
| "PathError_explanation ComponentTooLong =
     str ''One of the folder or file names is too long.''"
| "PathError_explanation EmptyComponent =
     str ''That location has a blank folder name in it.''"
| "PathError_explanation RelativeComponent =
     str ''LokoOS doesn't allow '' @ [34] @ str ''.'' @ [34] @ str '' or '' @ [34] @ str ''..'' @ [34] @ str '' in a location. Use the full location instead.''"
| "PathError_explanation BackslashSeparator =
     str ''LokoOS separates folders with '' @ [34] @ str ''/'' @ [34] @ str '', not '' @ [34] @ [92] @ [34] @ str ''.''"
| "PathError_explanation SeparatorInName =
     str ''A name can't contain '' @ [34] @ str ''/'' @ [34] @ str ''.''"
| "PathError_explanation ControlCharacter =
     str ''That name contains characters LokoOS can't store.''"
| "PathError_explanation BidirectionalOverride =
     str ''That name contains hidden characters that would make it display as something else, so LokoOS won't store it.''"
| "PathError_explanation TrailingSpaceOrDot =
     str ''Names can't end with a space or a dot, because Windows apps wouldn't be able to open them.''"
| "PathError_explanation NonAsciiRoot =
     str ''The top-level folder name isn't one LokoOS recognises.''"

fun PathError_to_Error :: "PathError \<Rightarrow> Error" where
  "PathError_to_Error UnknownRoot = NotFound"
| "PathError_to_Error _ = InvalidArgument"

section \<open>Components\<close>

text \<open>The loop over the characters of a component.\<close>

definition is_line_separator :: "rchar \<Rightarrow> bool" where
  "is_line_separator ch \<longleftrightarrow> ch = 0x2028 \<or> ch = 0x2029"

definition is_bidi_override :: "rchar \<Rightarrow> bool" where
  "is_bidi_override ch \<longleftrightarrow>
     (0x202A \<le> ch \<and> ch \<le> 0x202E) \<or> (0x2066 \<le> ch \<and> ch \<le> 0x2069) \<or> ch = 0x200F \<or> ch = 0x200E"

fun check_chars :: "rstr \<Rightarrow> PathError + unit" where
  "check_chars [] = Inr ()"
| "check_chars (ch # chars) =
     (if is_control ch then Inl ControlCharacter
      else if is_line_separator ch then Inl ControlCharacter
      else if is_bidi_override ch then Inl BidirectionalOverride
      else check_chars chars)"

definition validate_component :: "rstr \<Rightarrow> PathError + unit" where
  "validate_component component =
     (if component = [] then Inl EmptyComponent
      else if str_len component > MAX_COMPONENT_LEN then Inl ComponentTooLong
      else if component = str ''.'' \<or> component = str ''..'' then Inl RelativeComponent
      else if contains_char component backslash then Inl BackslashSeparator
      else if contains_char component slash then Inl SeparatorInName
      else case check_chars component of
             Inl e \<Rightarrow> Inl e
           | Inr _ \<Rightarrow>
               if last component = 32 \<or> last component = 46 then Inl TrailingSpaceOrDot
               else Inr ())"

fun validate_components :: "rstr list \<Rightarrow> PathError + unit" where
  "validate_components [] = Inr ()"
| "validate_components (part # parts) =
     (case validate_component part of
        Inl e \<Rightarrow> Inl e
      | Inr _ \<Rightarrow> validate_components parts)"

section \<open>Helpers on raw spellings\<close>

definition strip_prefix_ci :: "rstr \<Rightarrow> rstr \<Rightarrow> rstr option run" where
  "strip_prefix_ci s pre =
     (if str_len s \<ge> str_len pre \<and> is_char_boundary s (str_len pre)
      then do {
        a \<leftarrow> str_to s (str_len pre);
        if eq_ignore_ascii_case a pre
        then do { rest \<leftarrow> str_from s (str_len pre); Ret (Some rest) }
        else Ret None
      }
      else Ret None)"

definition canonical_body :: "rstr \<Rightarrow> rstr run" where
  "canonical_body raw = do {
     stripped \<leftarrow> strip_prefix_ci raw LKO_PREFIX;
     let rest = (case stripped of Some r \<Rightarrow> r | None \<Rightarrow> raw);
     let rest = (case strip_prefix_char rest slash of Some r \<Rightarrow> r | None \<Rightarrow> rest);
     Ret (case strip_suffix_char rest slash of Some r \<Rightarrow> r | None \<Rightarrow> rest)
   }"

definition raw_offset :: "rstr \<Rightarrow> nat \<Rightarrow> nat run" where
  "raw_offset raw canonical_offset = do {
     stripped \<leftarrow> strip_prefix_ci raw LKO_PREFIX;
     if stripped \<noteq> None then Ret canonical_offset
     else sub64 canonical_offset (str_len LKO_PREFIX)
   }"

section \<open>Borrowed paths\<close>

record LkoPathRef =
  pr_raw :: rstr
  pr_root :: "Root option"

definition LkoPathRef_ROOT :: LkoPathRef where
  "LkoPathRef_ROOT = \<lparr>pr_raw = LKO_PREFIX, pr_root = None\<rparr>"

text \<open>
  The first part of \<^verbatim>\<open>parse\<close>: stripping the volume prefix. \<open>Inr None\<close> is the early
  return of the volume root.
\<close>

definition parse_body :: "rstr \<Rightarrow> (PathError + rstr option) run" where
  "parse_body input = do {
     stripped \<leftarrow> strip_prefix_ci input LKO_PREFIX;
     case stripped of
       Some rest \<Rightarrow>
         (case rest of
            [] \<Rightarrow> Ret (Inr None)
          | c # _ \<Rightarrow>
              if c = slash then do { body \<leftarrow> str_from rest 1; Ret (Inr (Some body)) }
              else Ret (Inl MissingRoot))
     | None \<Rightarrow>
         (case strip_prefix_char input slash of
            Some rest \<Rightarrow> Ret (Inr (Some rest))
          | None \<Rightarrow> Ret (Inl MissingRoot))
   }"

definition parse_parts :: "rstr \<Rightarrow> rstr \<Rightarrow> PathError + LkoPathRef" where
  "parse_parts input body =
     (let parts = split_char slash body; root_name = hd parts in
      case validate_component root_name of
        Inl e \<Rightarrow> Inl e
      | Inr _ \<Rightarrow>
          if \<not> is_ascii root_name then Inl NonAsciiRoot
          else case Root_parse root_name of
                 None \<Rightarrow> Inl UnknownRoot
               | Some root \<Rightarrow>
                   (case validate_components (tl parts) of
                      Inl e \<Rightarrow> Inl e
                    | Inr _ \<Rightarrow> Inr \<lparr>pr_raw = input, pr_root = Some root\<rparr>))"

definition LkoPathRef_parse :: "rstr \<Rightarrow> (PathError + LkoPathRef) run" where
  "LkoPathRef_parse input =
     (if str_len input > MAX_PATH_LEN then Ret (Inl TooLong)
      else if contains_char input backslash then Ret (Inl BackslashSeparator)
      else do {
        parsed \<leftarrow> parse_body input;
        case parsed of
          Inl e \<Rightarrow> Ret (Inl e)
        | Inr None \<Rightarrow> Ret (Inr LkoPathRef_ROOT)
        | Inr (Some body) \<Rightarrow>
            (let body = (case strip_suffix_char body slash of Some b \<Rightarrow> b | None \<Rightarrow> body) in
             if body = [] then Ret (Inr LkoPathRef_ROOT)
             else Ret (parse_parts input body))
      })"

definition tail :: "LkoPathRef \<Rightarrow> rstr list run" where
  "tail p = do {
     body \<leftarrow> canonical_body (pr_raw p);
     Ret (filter (\<lambda>c. c \<noteq> []) (tl (split_char slash body)))
   }"

definition components :: "LkoPathRef \<Rightarrow> rstr list run" where
  "components p = do {
     body \<leftarrow> canonical_body (pr_raw p);
     Ret (filter (\<lambda>c. c \<noteq> []) (split_char slash body))
   }"

definition depth :: "LkoPathRef \<Rightarrow> nat run" where
  "depth p = do { cs \<leftarrow> components p; Ret (length cs) }"

definition file_name :: "LkoPathRef \<Rightarrow> rstr option run" where
  "file_name p = do { cs \<leftarrow> components p; Ret (if cs = [] then None else Some (last cs)) }"

fun matches_from :: "rstr list \<Rightarrow> rstr list \<Rightarrow> bool" where
  "matches_from mine [] = True"
| "matches_from [] (theirs # others) = False"
| "matches_from (m # mine) (theirs # others) =
     (if eq_ignore_ascii_case m theirs then matches_from mine others else False)"

definition is_within :: "LkoPathRef \<Rightarrow> LkoPathRef \<Rightarrow> bool run" where
  "is_within p other = do {
     mine \<leftarrow> components p;
     theirs \<leftarrow> components other;
     Ret (matches_from mine theirs)
   }"

definition parent :: "LkoPathRef \<Rightarrow> LkoPathRef option run" where
  "parent p = do {
     body \<leftarrow> canonical_body (pr_raw p);
     if body = [] then Ret None
     else case rfind_char body slash of
            Some idx \<Rightarrow> do {
              end_offset \<leftarrow> add64 (str_len LKO_PREFIX + 1) idx;
              offset \<leftarrow> raw_offset (pr_raw p) end_offset;
              raw \<leftarrow> str_to (pr_raw p) offset;
              Ret (Some \<lparr>pr_raw = raw, pr_root = pr_root p\<rparr>)
            }
          | None \<Rightarrow> Ret (Some LkoPathRef_ROOT)
   }"

definition LkoPathRef_as_str :: "LkoPathRef \<Rightarrow> rstr" where
  "LkoPathRef_as_str p = pr_raw p"

text \<open>\<^verbatim>\<open>impl Display for LkoPathRef\<close>.\<close>

definition LkoPathRef_display :: "LkoPathRef \<Rightarrow> rstr run" where
  "LkoPathRef_display p = do {
     body \<leftarrow> canonical_body (pr_raw p);
     Ret (if body \<noteq> [] then LKO_PREFIX @ [slash] @ body else LKO_PREFIX)
   }"

section \<open>Owned paths\<close>

record LkoPath =
  lp_inner :: rstr
  lp_root :: "Root option"

definition to_owned_path :: "LkoPathRef \<Rightarrow> LkoPath run" where
  "to_owned_path p = do {
     body \<leftarrow> canonical_body (pr_raw p);
     Ret \<lparr>lp_inner = (if body \<noteq> [] then LKO_PREFIX @ [slash] @ body else LKO_PREFIX),
          lp_root = pr_root p\<rparr>
   }"

definition LkoPath_parse :: "rstr \<Rightarrow> (PathError + LkoPath) run" where
  "LkoPath_parse input = do {
     r \<leftarrow> LkoPathRef_parse input;
     case r of
       Inl e \<Rightarrow> Ret (Inl e)
     | Inr p \<Rightarrow> do { owned \<leftarrow> to_owned_path p; Ret (Inr owned) }
   }"

definition LkoPath_as_ref :: "LkoPath \<Rightarrow> LkoPathRef" where
  "LkoPath_as_ref p = \<lparr>pr_raw = lp_inner p, pr_root = lp_root p\<rparr>"

definition LkoPath_as_str :: "LkoPath \<Rightarrow> rstr" where
  "LkoPath_as_str p = lp_inner p"

definition join :: "LkoPath \<Rightarrow> rstr \<Rightarrow> (PathError + LkoPath) run" where
  "join p component =
     (case validate_component component of
        Inl e \<Rightarrow> Ret (Inl e)
      | Inr _ \<Rightarrow> do {
          len1 \<leftarrow> add64 (str_len (lp_inner p)) 1;
          new_len \<leftarrow> add64 len1 (str_len component);
          if new_len > MAX_PATH_LEN then Ret (Inl TooLong)
          else
            let inner = lp_inner p @ [slash] @ component in
            case lp_root p of
              Some r \<Rightarrow> Ret (Inr \<lparr>lp_inner = inner, lp_root = Some r\<rparr>)
            | None \<Rightarrow>
                (case Root_parse component of
                   None \<Rightarrow> Ret (Inl UnknownRoot)
                 | Some r \<Rightarrow> Ret (Inr \<lparr>lp_inner = inner, lp_root = Some r\<rparr>))
        })"

text \<open>
  The conversions and printed forms of both path types, and of the errors. The two printed forms agree: a borrowed path prints as the
  owned path made from it.
\<close>

definition LkoPathRef_debug :: "LkoPathRef \<Rightarrow> rstr run" where
  "LkoPathRef_debug p = do {
     shown \<leftarrow> LkoPathRef_display p;
     Ret (str ''LkoPath('' @ shown @ str '')'')
   }"

definition LkoPath_root :: "LkoPath \<Rightarrow> Root option" where
  "LkoPath_root p = lp_root p"

definition LkoPath_display :: "LkoPath \<Rightarrow> rstr" where
  "LkoPath_display p = lp_inner p"

definition LkoPath_debug :: "LkoPath \<Rightarrow> rstr" where
  "LkoPath_debug p = str ''LkoPath('' @ lp_inner p @ str '')''"

definition from_str :: "rstr \<Rightarrow> (PathError + LkoPath) run" where
  "from_str s = LkoPath_parse s"

definition LkoPath_from :: "LkoPathRef \<Rightarrow> LkoPath run" where
  "LkoPath_from p = to_owned_path p"

definition into_string :: "LkoPath \<Rightarrow> rstr" where
  "into_string p = lp_inner p"

definition PathError_display :: "PathError \<Rightarrow> rstr" where
  "PathError_display e = PathError_explanation e"

lemma printed_forms_agree:
  "LkoPathRef_display p = do { q \<leftarrow> LkoPath_from p; Ret (LkoPath_display q) }"
  "LkoPathRef_debug p = do { q \<leftarrow> LkoPath_from p; Ret (LkoPath_debug q) }"
  by (simp_all add: LkoPathRef_display_def LkoPathRef_debug_def LkoPath_from_def to_owned_path_def LkoPath_display_def
    LkoPath_debug_def)

section \<open>Well-formed components\<close>

definition component_ok :: "rstr \<Rightarrow> bool" where
  "component_ok c \<longleftrightarrow> c \<noteq> [] \<and> str_len c \<le> 255 \<and> c \<noteq> str ''.'' \<and> c \<noteq> str ''..'' \<and>
     (\<forall>ch \<in> set c. ch \<noteq> slash \<and> ch \<noteq> backslash \<and> \<not> is_control ch \<and> \<not> is_line_separator ch \<and>
        \<not> is_bidi_override ch) \<and> last c \<noteq> 32 \<and> last c \<noteq> 46"

lemma check_chars_iff:
  "check_chars s = Inr () \<longleftrightarrow>
     (\<forall>ch \<in> set s. \<not> is_control ch \<and> \<not> is_line_separator ch \<and> \<not> is_bidi_override ch)"
  by (induction s) auto

lemma validate_component_iff: "validate_component c = Inr () \<longleftrightarrow> component_ok c"
  using check_chars_iff [of c]
  by (cases "check_chars c")
    (auto simp: validate_component_def component_ok_def contains_char_def MAX_COMPONENT_LEN_def)

lemma validate_components_iff: "validate_components cs = Inr () \<longleftrightarrow> list_all component_ok cs"
  by (induction cs) (auto split: sum.splits simp flip: validate_component_iff)

lemma component_okD:
  assumes "component_ok c"
  shows "c \<noteq> []" "slash \<notin> set c" "backslash \<notin> set c"
  using assms by (auto simp: component_ok_def)

text \<open>A list of good components, joined, neither starts nor ends with a separator.\<close>

lemma join_with_ends_aux:
  "cs \<noteq> [] \<Longrightarrow> list_all component_ok cs \<Longrightarrow>
     join_with slash cs \<noteq> [] \<and> hd (join_with slash cs) \<noteq> slash \<and> last (join_with slash cs) \<noteq> slash \<and>
     backslash \<notin> set (join_with slash cs)"
proof (induction cs)
  case (Cons c cs)
  have c: "c \<noteq> []" "slash \<notin> set c" "backslash \<notin> set c" using Cons.prems component_okD by auto
  then have "hd c \<noteq> slash" "last c \<noteq> slash" using hd_in_set last_in_set by fastforce+
  with c Cons show ?case by (cases cs) simp_all
qed simp

lemma join_with_ends:
  assumes "cs \<noteq> []" "list_all component_ok cs"
  shows "join_with slash cs \<noteq> []" "hd (join_with slash cs) \<noteq> slash" "last (join_with slash cs) \<noteq> slash"
    "backslash \<notin> set (join_with slash cs)"
  using join_with_ends_aux [OF assms] by blast+

lemma split_join_components:
  assumes "cs \<noteq> []" "list_all component_ok cs"
  shows "split_char slash (join_with slash cs) = cs"
  using assms component_okD by (intro split_join) (auto simp: list_all_iff)

section \<open>Spellings of a path\<close>

lemma strip_prefix_lko:
  "strip_prefix_ci s LKO_PREFIX =
     Ret (if eq_ignore_ascii_case (take 3 s) LKO_PREFIX then Some (drop 3 s) else None)"
proof -
  have len3: "str_len LKO_PREFIX = 3" by (simp add: LKO_PREFIX_def str_def char_len_def)
  have split3: "str_split_at s 3 = Some (take 3 s, drop 3 s)"
    if "eq_ignore_ascii_case (take 3 s) LKO_PREFIX"
  proof -
    have "is_ascii LKO_PREFIX" by (simp add: LKO_PREFIX_def str_def is_ascii_def)
    then have "is_ascii (take 3 s)" using that is_ascii_cong by blast
    moreover have "length (take 3 s) = length LKO_PREFIX"
      using that unfolding eq_ignore_ascii_case_def by (metis length_map)
    ultimately have "str_len (take 3 s) = 3"
      by (simp add: is_ascii_def str_len_ascii LKO_PREFIX_def str_def)
    then show ?thesis using str_split_at_append [of "take 3 s" "drop 3 s"] by simp
  qed
  have long: "str_len s \<ge> 3" if "eq_ignore_ascii_case (take 3 s) LKO_PREFIX"
    using str_split_at_SomeD [OF split3 [OF that]] str_len_simps(3) [of "take 3 s" "drop 3 s"] by simp
  have cut: "take 3 s = a \<and> drop 3 s = b"
    if "str_split_at s 3 = Some (a, b)" "eq_ignore_ascii_case a LKO_PREFIX" for a b
  proof -
    have "length (map to_ascii_lowercase a) = length (map to_ascii_lowercase LKO_PREFIX)"
      using that(2) by (simp add: eq_ignore_ascii_case_def)
    then have "length a = 3" by (simp add: LKO_PREFIX_def str_def)
    with str_split_at_SomeD [OF that(1)] show ?thesis by auto
  qed
  show ?thesis
  proof (cases "eq_ignore_ascii_case (take 3 s) LKO_PREFIX")
    case True
    with split3 long show ?thesis
      by (simp add: strip_prefix_ci_def len3 is_char_boundary_def str_to_def str_from_def)
  next
    case False
    with cut show ?thesis
      by (auto simp add: strip_prefix_ci_def len3 is_char_boundary_def str_to_def str_from_def)
  qed
qed

definition volume_prefix :: "rstr \<Rightarrow> bool" where
  "volume_prefix pre \<longleftrightarrow> pre = [slash] \<or> (\<exists>v. eq_ignore_ascii_case v LKO_PREFIX \<and> pre = v @ [slash])"

lemma lko_spelling:
  assumes "eq_ignore_ascii_case v LKO_PREFIX"
  shows "length v = 3" "slash \<notin> set v" "backslash \<notin> set v" "str_len v = 3"
proof -
  have l: "map to_ascii_lowercase v = str ''lko''"
    using assms by (simp add: eq_ignore_ascii_case_def LKO_PREFIX_def str_def to_ascii_lowercase_def)
  then have "length (map to_ascii_lowercase v) = 3" by (simp add: str_def)
  then show "length v = 3" by simp
  have low: "to_ascii_lowercase c \<in> set (str ''lko'')" if "c \<in> set v" for c
    using that l by (metis image_eqI list.set_map)
  have bad: "to_ascii_lowercase slash \<notin> set (str ''lko'')" "to_ascii_lowercase backslash \<notin> set (str ''lko'')"
    by (simp_all add: str_def to_ascii_lowercase_def)
  show "slash \<notin> set v" "backslash \<notin> set v" using low bad by blast+
  have "is_ascii v" using is_ascii_cong [OF assms] by (simp add: LKO_PREFIX_def str_def is_ascii_def)
  then show "str_len v = 3" using \<open>length v = 3\<close> by (simp add: is_ascii_def str_len_ascii)
qed

lemma strip_prefix_spelling:
  assumes "eq_ignore_ascii_case v LKO_PREFIX"
  shows "strip_prefix_ci (v @ rest) LKO_PREFIX = Ret (Some rest)"
  using assms lko_spelling(1) [OF assms] by (simp add: strip_prefix_lko)

lemma strip_prefix_slash: "strip_prefix_ci (slash # rest) LKO_PREFIX = Ret None"
proof -
  have "take 3 (slash # rest) = slash # take 2 rest" by (simp add: take_Cons')
  then show ?thesis
    unfolding strip_prefix_lko
    by (simp add: eq_ignore_ascii_case_def LKO_PREFIX_def str_def to_ascii_lowercase_def)
qed

text \<open>
  \<open>path_repr p cs\<close>: the borrowed path \<open>p\<close> names the location with components \<open>cs\<close>. The volume root
  has no components and one spelling; any other location is a volume prefix, the components joined by
  separators, and possibly one more separator.
\<close>

definition path_repr :: "LkoPathRef \<Rightarrow> rstr list \<Rightarrow> bool" where
  "path_repr p cs \<longleftrightarrow>
     (if cs = [] then p = LkoPathRef_ROOT
      else list_all component_ok cs \<and> pr_root p \<noteq> None \<and> pr_root p = Root_parse (hd cs) \<and>
        (\<exists>pre suf. volume_prefix pre \<and> suf \<in> {[], [slash]} \<and>
           pr_raw p = pre @ join_with slash cs @ suf))"

lemma path_reprI:
  assumes "cs \<noteq> []" "list_all component_ok cs" "pr_root p \<noteq> None" "pr_root p = Root_parse (hd cs)"
    "volume_prefix pre" "suf \<in> {[], [slash]}" "pr_raw p = pre @ join_with slash cs @ suf"
  shows "path_repr p cs"
  using assms unfolding path_repr_def by metis

lemma canonical_body_spelling:
  assumes "volume_prefix pre" "cs \<noteq> []" "list_all component_ok cs" "suf \<in> {[], [slash]}"
  shows "canonical_body (pre @ join_with slash cs @ suf) = Ret (join_with slash cs)"
proof -
  let ?b = "join_with slash cs"
  note ends = join_with_ends [OF assms(2,3)]
  have pre: "strip_prefix_char (slash # ?b @ suf) slash = Some (?b @ suf)" by simp
  have suf: "(case strip_suffix_char (?b @ suf) slash of Some r \<Rightarrow> r | None \<Rightarrow> ?b @ suf) = ?b"
    using assms(4) ends by (auto simp: strip_suffix_char_def)
  from assms(1) consider "pre = [slash]"
    | v where "eq_ignore_ascii_case v LKO_PREFIX" "pre = v @ [slash]"
    by (auto simp: volume_prefix_def)
  then show ?thesis
  proof cases
    case 1
    then show ?thesis using suf by (simp add: canonical_body_def strip_prefix_slash)
  next
    case 2
    then show ?thesis
      using suf strip_prefix_spelling [OF 2(1), of "slash # ?b @ suf"] by (simp add: canonical_body_def)
  qed
qed

lemma canonical_body_ROOT: "canonical_body LKO_PREFIX = Ret []"
  using strip_prefix_spelling [of LKO_PREFIX "[]"] by (simp add: canonical_body_def strip_suffix_char_def)

lemma canonical_body_repr:
  assumes "path_repr p cs"
  shows "canonical_body (pr_raw p) = Ret (join_with slash cs)"
proof (cases "cs = []")
  case True
  with assms canonical_body_ROOT show ?thesis by (simp add: path_repr_def LkoPathRef_ROOT_def)
next
  case False
  with assms obtain pre suf where "volume_prefix pre" "list_all component_ok cs" "suf \<in> {[], [slash]}"
      "pr_raw p = pre @ join_with slash cs @ suf"
    by (auto simp only: path_repr_def if_False)
  with False canonical_body_spelling show ?thesis by metis
qed

lemma path_repr_ok: "path_repr p cs \<Longrightarrow> list_all component_ok cs"
  by (auto simp: path_repr_def split: if_splits)

lemma components_repr:
  assumes "path_repr p cs"
  shows "components p = Ret cs"
proof (cases "cs = []")
  case True
  with canonical_body_repr [OF assms] show ?thesis by (simp add: components_def)
next
  case False
  have ok: "list_all component_ok cs" by (rule path_repr_ok [OF assms])
  then have "filter (\<lambda>c. c \<noteq> []) cs = cs" by (auto simp: filter_id_conv list_all_iff component_ok_def)
  with canonical_body_repr [OF assms] split_join_components [OF False ok] show ?thesis
    by (simp add: components_def)
qed

lemma path_repr_unique: "path_repr p cs \<Longrightarrow> path_repr p ds \<Longrightarrow> cs = ds"
  by (metis components_repr option.inject)

section \<open>Parsing computes the components\<close>

text \<open>What \<^verbatim>\<open>parse\<close> accepts: a volume prefix, then nothing or one separator for the
volume root, else the components of a location under a known root.\<close>

definition root_spelling :: "rstr \<Rightarrow> bool" where
  "root_spelling s \<longleftrightarrow> eq_ignore_ascii_case s LKO_PREFIX \<or>
     (\<exists>pre suf. volume_prefix pre \<and> suf \<in> {[], [slash]} \<and> s = pre @ suf)"

lemma parse_body_cases:
  "parse_body s = Ret (Inr None) \<and> eq_ignore_ascii_case s LKO_PREFIX \<or>
   (\<exists>pre body. parse_body s = Ret (Inr (Some body)) \<and> volume_prefix pre \<and> s = pre @ body) \<or>
   parse_body s = Ret (Inl MissingRoot) \<and>
     \<not> eq_ignore_ascii_case s LKO_PREFIX \<and> (\<nexists>pre body. volume_prefix pre \<and> s = pre @ body)"
proof (cases "eq_ignore_ascii_case (take 3 s) LKO_PREFIX")
  case True
  have s: "s = take 3 s @ drop 3 s" by simp
  show ?thesis
  proof (cases "drop 3 s")
    case Nil
    then have "take 3 s = s" by simp
    with True Nil show ?thesis by (simp add: parse_body_def strip_prefix_lko)
  next
    case (Cons c rest)
    have one: "str_from (slash # rest) 1 = Ret rest"
      using str_from_append [of "[slash]" rest] by (simp add: char_len_def)
    show ?thesis
    proof (cases "c = slash")
      case slash: True
      have "parse_body s = Ret (Inr (Some rest))"
        using True Cons slash one by (simp add: parse_body_def strip_prefix_lko)
      moreover have "volume_prefix (take 3 s @ [slash])" using True by (auto simp: volume_prefix_def)
      moreover have "s = (take 3 s @ [slash]) @ rest" using s Cons slash by simp
      ultimately show ?thesis by blast
    next
      case False
      have "parse_body s = Ret (Inl MissingRoot)"
        using True Cons False by (simp add: parse_body_def strip_prefix_lko)
      moreover have "\<not> eq_ignore_ascii_case s LKO_PREFIX"
        using lko_spelling(1) [of s] Cons by auto
      moreover have "\<nexists>pre body. volume_prefix pre \<and> s = pre @ body"
      proof (intro notI, elim exE conjE)
        fix pre body assume pre: "volume_prefix pre" "s = pre @ body"
        then consider "s = slash # body"
          | v where "eq_ignore_ascii_case v LKO_PREFIX" "s = v @ slash # body"
          by (auto simp: volume_prefix_def)
        then show False
        proof cases
          case 1
          with True lko_spelling(2) [OF True] show False by simp
        next
          case 2
          with lko_spelling(1) [OF 2(1)] Cons False show False by simp
        qed
      qed
      ultimately show ?thesis by blast
    qed
  qed
next
  case False
  show ?thesis
  proof (cases s)
    case Nil
    then show ?thesis
      using False by (auto simp: parse_body_def strip_prefix_lko volume_prefix_def)
  next
    case (Cons c rest)
    show ?thesis
    proof (cases "c = slash")
      case True
      then show ?thesis
        using False Cons by (auto simp: parse_body_def strip_prefix_lko volume_prefix_def)
    next
      case ns: False
      have "\<not> eq_ignore_ascii_case s LKO_PREFIX"
        using lko_spelling(1) [of s] False by auto
      moreover have "s \<noteq> v @ slash # body" if "eq_ignore_ascii_case v LKO_PREFIX" for v body
        using that lko_spelling(1) [OF that] False by auto
      then have "\<nexists>pre body. volume_prefix pre \<and> s = pre @ body"
        using Cons ns unfolding volume_prefix_def by (metis append.assoc append_Cons append_Nil list.inject)
      moreover have "parse_body s = Ret (Inl MissingRoot)"
        using False Cons ns by (simp add: parse_body_def strip_prefix_lko)
      ultimately show ?thesis by blast
    qed
  qed
qed

lemma parse_parts_cases:
  assumes "body \<noteq> []"
  shows "(\<exists>cs r. parse_parts s body = Inr \<lparr>pr_raw = s, pr_root = Some r\<rparr> \<and> cs \<noteq> [] \<and>
      list_all component_ok cs \<and> Root_parse (hd cs) = Some r \<and> body = join_with slash cs) \<or>
    ((\<exists>e. parse_parts s body = Inl e) \<and>
      (\<nexists>cs. cs \<noteq> [] \<and> list_all component_ok cs \<and> Root_parse (hd cs) \<noteq> None \<and> body = join_with slash cs))"
proof -
  let ?cs = "split_char slash body"
  have ne: "?cs \<noteq> []" by simp
  have unique: "cs = ?cs" if "cs \<noteq> []" "list_all component_ok cs" "body = join_with slash cs" for cs
    using split_join_components that by simp
  have all: "list_all component_ok ?cs \<longleftrightarrow> component_ok (hd ?cs) \<and> list_all component_ok (tl ?cs)"
    by (cases "split_char slash body") simp_all
  have body: "body = join_with slash ?cs" by simp
  show ?thesis
  proof (cases "list_all component_ok ?cs \<and> Root_parse (hd ?cs) \<noteq> None")
    case True
    then obtain r where r: "Root_parse (hd ?cs) = Some r" by auto
    have "parse_parts s body = Inr \<lparr>pr_raw = s, pr_root = Some r\<rparr>"
      using True r all by (simp add: parse_parts_def Let_def Root_parse_ascii validate_component_iff [THEN iffD2]
        validate_components_iff [THEN iffD2])
    then show ?thesis using True r ne body by blast
  next
    case False
    obtain h t where cs: "?cs = h # t" by (cases ?cs) auto
    consider "validate_component h \<noteq> Inr ()" | "Root_parse h = None" | "validate_components t \<noteq> Inr ()"
      using False unfolding cs by (metis list.sel(1) list.pred_inject(2) validate_component_iff validate_components_iff)
    then have "\<exists>e. parse_parts s body = Inl e"
    proof cases
      case 1
      then obtain e where "validate_component h = Inl e" by (cases "validate_component h") auto
      then show ?thesis by (simp add: parse_parts_def cs)
    next
      case 2
      then show ?thesis by (cases "validate_component h") (simp_all add: parse_parts_def cs)
    next
      case 3
      then obtain e where "validate_components t = Inl e" by (cases "validate_components t") auto
      then show ?thesis
        by (cases "validate_component h"; cases "Root_parse h") (simp_all add: parse_parts_def cs)
    qed
    moreover have "\<nexists>cs. cs \<noteq> [] \<and> list_all component_ok cs \<and> Root_parse (hd cs) \<noteq> None \<and>
        body = join_with slash cs"
    proof (intro notI, elim exE conjE)
      fix cs assume c: "cs \<noteq> []" "list_all component_ok cs" "Root_parse (hd cs) \<noteq> None"
        "body = join_with slash cs"
      then have "cs = ?cs" by (intro unique)
      with c False show False by metis
    qed
    ultimately show ?thesis by blast
  qed
qed

lemma strip_suffix_default:
  fixes body :: rstr
  defines "b \<equiv> (case strip_suffix_char body slash of Some b \<Rightarrow> b | None \<Rightarrow> body)"
  shows "\<exists>suf \<in> {[], [slash]}. body = b @ suf"
proof (cases "strip_suffix_char body slash")
  case (Some t)
  moreover from this have "body = t @ [slash]" by (simp add: strip_suffix_char_eq)
  ultimately show ?thesis by (simp add: b_def)
qed (simp add: b_def)

lemma parse_cases:
  "(\<exists>e. LkoPathRef_parse s = Ret (Inl e)) \<or>
   (LkoPathRef_parse s = Ret (Inr LkoPathRef_ROOT) \<and> root_spelling s) \<or>
   (\<exists>p cs. LkoPathRef_parse s = Ret (Inr p) \<and> pr_raw p = s \<and> cs \<noteq> [] \<and> path_repr p cs)"
proof (cases "str_len s > MAX_PATH_LEN \<or> contains_char s backslash")
  case True
  then show ?thesis by (auto simp: LkoPathRef_parse_def)
next
  case False
  from parse_body_cases [of s] show ?thesis
  proof (elim disjE exE conjE)
    assume "parse_body s = Ret (Inr None)" "eq_ignore_ascii_case s LKO_PREFIX"
    with False show ?thesis by (auto simp: LkoPathRef_parse_def root_spelling_def)
  next
    fix pre body assume b: "parse_body s = Ret (Inr (Some body))" "volume_prefix pre" "s = pre @ body"
    let ?b = "case strip_suffix_char body slash of Some b \<Rightarrow> b | None \<Rightarrow> body"
    obtain suf where suf: "suf \<in> {[], [slash]}" "body = ?b @ suf"
      using strip_suffix_default [of body] by blast
    show ?thesis
    proof (cases "?b = []")
      case True
      then have "LkoPathRef_parse s = Ret (Inr LkoPathRef_ROOT)"
        using False b(1) by (simp add: LkoPathRef_parse_def Let_def)
      moreover have "root_spelling s" using True suf b(2,3) unfolding root_spelling_def by auto
      ultimately show ?thesis by blast
    next
      case ne: False
      then have eq: "LkoPathRef_parse s = Ret (parse_parts s ?b)"
        using False b(1) by (simp add: LkoPathRef_parse_def Let_def)
      from parse_parts_cases [OF ne, of s] show ?thesis
      proof (elim disjE exE conjE)
        fix cs r assume p: "parse_parts s ?b = Inr \<lparr>pr_raw = s, pr_root = Some r\<rparr>" "cs \<noteq> []"
          "list_all component_ok cs" "Root_parse (hd cs) = Some r" "?b = join_with slash cs"
        have "s = pre @ join_with slash cs @ suf" using b(3) suf(2) p(5) by simp
        then have "path_repr \<lparr>pr_raw = s, pr_root = Some r\<rparr> cs"
          using p(2-4) b(2) suf(1) by (auto simp: path_repr_def)
        with eq p(1,2) show ?thesis by (metis LkoPathRef.select_convs(1))
      qed (use eq in simp)
    qed
  next
    assume "parse_body s = Ret (Inl MissingRoot)"
    with False show ?thesis by (simp add: LkoPathRef_parse_def)
  qed
qed

lemma parse_total: "LkoPathRef_parse s \<noteq> Panic"
  using parse_cases [of s] by auto

lemma parse_sound:
  assumes "LkoPathRef_parse s = Ret (Inr p)"
  shows "\<exists>cs. path_repr p cs \<and> (cs = [] \<longrightarrow> root_spelling s) \<and> (cs \<noteq> [] \<longrightarrow> pr_raw p = s)"
proof -
  from parse_cases [of s] assms consider "p = LkoPathRef_ROOT" "root_spelling s"
    | cs where "pr_raw p = s" "cs \<noteq> []" "path_repr p cs"
    by fastforce
  then show ?thesis
  proof cases
    case 1
    then show ?thesis by (intro exI [of _ "[]"]) (simp add: path_repr_def)
  qed blast
qed

lemma parse_complete:
  assumes repr: "path_repr p cs" and len: "str_len (pr_raw p) \<le> MAX_PATH_LEN"
  shows "LkoPathRef_parse (pr_raw p) = Ret (Inr p)"
proof (cases "cs = []")
  case True
  then have "p = LkoPathRef_ROOT" using repr by (simp add: path_repr_def)
  then show ?thesis
    using strip_prefix_spelling [of LKO_PREFIX "[]"]
    by (simp add: LkoPathRef_parse_def LkoPathRef_ROOT_def parse_body_def MAX_PATH_LEN_def contains_char_def
        str_def char_len_def LKO_PREFIX_def)
next
  case False
  then obtain pre suf r where p: "list_all component_ok cs" "pr_root p = Some r" "Root_parse (hd cs) = Some r"
      "volume_prefix pre" "suf \<in> {[], [slash]}" "pr_raw p = pre @ join_with slash cs @ suf"
    using repr unfolding path_repr_def by (metis option.exhaust)
  note ends = join_with_ends [OF False p(1)]
  have "backslash \<notin> set pre" using p(4) lko_spelling(3) by (auto simp: volume_prefix_def)
  then have nb: "\<not> contains_char (pr_raw p) backslash" using ends(4) p(5,6) by (auto simp: contains_char_def)
  let ?body = "join_with slash cs @ suf"
  have "parse_body (pre @ ?body) = Ret (Inr (Some ?body))"
    using p(4) strip_prefix_spelling str_from_append [of "[slash]" ?body]
    by (auto simp: volume_prefix_def parse_body_def strip_prefix_slash char_len_def)
  moreover have "(case strip_suffix_char ?body slash of Some b \<Rightarrow> b | None \<Rightarrow> ?body) = join_with slash cs"
    using p(5) ends by (auto simp: strip_suffix_char_def)
  ultimately have "LkoPathRef_parse (pr_raw p) = Ret (parse_parts (pr_raw p) (join_with slash cs))"
    using len nb ends(1) p(6) by (simp add: LkoPathRef_parse_def Let_def)
  moreover have "parse_parts (pr_raw p) (join_with slash cs) = Inr \<lparr>pr_raw = pr_raw p, pr_root = Some r\<rparr>"
    using parse_parts_cases [OF ends(1), of "pr_raw p"] p(1,3) False split_join_components
    by (metis option.distinct(1) option.inject)
  ultimately show ?thesis using p(2) by simp
qed

section \<open>Operations on the components\<close>

lemma tail_repr: "path_repr p cs \<Longrightarrow> tail p = Ret (tl cs)"
proof -
  assume repr: "path_repr p cs"
  have ok: "list_all component_ok cs" by (rule path_repr_ok [OF repr])
  then have "filter (\<lambda>c. c \<noteq> []) (tl cs) = tl cs"
    by (cases cs) (auto simp: filter_id_conv list_all_iff component_ok_def)
  with canonical_body_repr [OF repr] ok show ?thesis
    by (cases "cs = []") (simp_all add: tail_def split_join_components)
qed

lemma root_repr: "path_repr p cs \<Longrightarrow> pr_root p = (if cs = [] then None else Root_parse (hd cs))"
  by (auto simp: path_repr_def LkoPathRef_ROOT_def split: if_splits)

lemma root_repr_Some: "path_repr p cs \<Longrightarrow> cs \<noteq> [] \<Longrightarrow> \<exists>r. pr_root p = Some r \<and> Root_parse (hd cs) = Some r"
  by (auto simp: path_repr_def)

lemma matches_from_eq: "matches_from mine theirs = starts_like eq_ignore_ascii_case mine theirs"
  by (induction mine theirs rule: matches_from.induct) auto

interpretation tree: hierarchy path_repr eq_ignore_ascii_case is_within
proof unfold_locales
  fix p cs q ds assume "path_repr p cs" "path_repr q ds"
  then show "is_within p q = Ret (starts_like eq_ignore_ascii_case cs ds)"
    by (simp add: is_within_def components_repr matches_from_eq)
qed (auto simp: eq_ignore_ascii_case_def)

lemma rfind_char_last: "d \<notin> set b \<Longrightarrow> rfind_char (a @ d # b) d = Some (str_len a)"
proof -
  assume "d \<notin> set b"
  then have "rfind_char (d # b) d = Some 0" by (simp add: rfind_char_absent)
  then show ?thesis by (induction a) simp_all
qed

lemma join_with_snoc: "ds \<noteq> [] \<Longrightarrow> join_with d (ds @ [c]) = join_with d ds @ d # c"
proof (induction ds)
  case (Cons x ds)
  then show ?case by (cases ds) simp_all
qed simp

lemma raw_offset_spelling:
  assumes "volume_prefix pre"
  shows "raw_offset (pre @ rest) (4 + n) = Ret (str_len pre + n)"
proof -
  have lko3: "str_len LKO_PREFIX = 3" by (simp add: LKO_PREFIX_def str_def char_len_def)
  from assms consider "pre = [slash]"
    | v where "eq_ignore_ascii_case v LKO_PREFIX" "pre = v @ [slash]"
    by (auto simp: volume_prefix_def)
  then show ?thesis
  proof cases
    case 1
    then show ?thesis by (simp add: raw_offset_def strip_prefix_slash lko3 char_len_def)
  next
    case 2
    then show ?thesis
      using strip_prefix_spelling [OF 2(1), of "slash # rest"] lko_spelling(4) [OF 2(1)]
      by (simp add: raw_offset_def char_len_def)
  qed
qed

lemma path_repr_ROOT: "path_repr LkoPathRef_ROOT []"
  by (simp add: path_repr_def)

lemma parent_repr:
  assumes repr: "path_repr p cs" and len: "str_len (pr_raw p) + 4 < 2 ^ 64"
  shows "if cs = [] then parent p = Ret None
    else \<exists>q. parent p = Ret (Some q) \<and> path_repr q (butlast cs)"
proof (cases "cs = []")
  case True
  then show ?thesis using canonical_body_repr [OF repr] by (simp add: parent_def)
next
  case False
  then obtain ds c where cs: "cs = ds @ [c]" by (metis rev_exhaust)
  have ok: "list_all component_ok cs" by (rule path_repr_ok [OF repr])
  then have c: "slash \<notin> set c" "c \<noteq> []" using cs component_okD by auto
  show ?thesis
  proof (cases "ds = []")
    case True
    then have "parent p = Ret (Some LkoPathRef_ROOT)"
      using canonical_body_repr [OF repr] cs c
      by (simp add: parent_def rfind_char_absent)
    then show ?thesis using cs True path_repr_ROOT by simp
  next
    case ds: False
    have body: "join_with slash cs = join_with slash ds @ slash # c"
      using ds cs by (simp add: join_with_snoc)
    obtain pre suf where raw: "volume_prefix pre" "pr_raw p = (pre @ join_with slash ds) @ slash # c @ suf"
      using repr False body by (auto simp: path_repr_def)
    have find: "rfind_char (join_with slash cs) slash = Some (str_len (join_with slash ds))"
      using body c by (simp add: rfind_char_last)
    have lko3: "str_len LKO_PREFIX = 3" by (simp add: LKO_PREFIX_def str_def char_len_def)
    have fits: "4 + str_len (join_with slash ds) < 2 ^ 64" using len raw(2) by simp
    let ?q = "\<lparr>pr_raw = pre @ join_with slash ds, pr_root = pr_root p\<rparr>"
    have "str_to (pr_raw p) (str_len pre + str_len (join_with slash ds)) = Ret (pre @ join_with slash ds)"
      using str_to_append [of "pre @ join_with slash ds" "slash # c @ suf"] raw(2) by simp
    moreover have "raw_offset (pr_raw p) (4 + str_len (join_with slash ds)) =
        Ret (str_len pre + str_len (join_with slash ds))"
      unfolding raw(2) append_assoc by (rule raw_offset_spelling [OF raw(1)])
    ultimately have "parent p = Ret (Some ?q)"
      using canonical_body_repr [OF repr] join_with_ends(1) [OF False ok] find fits
      by (simp add: parent_def lko3 add64_Ret)
    moreover have "path_repr ?q ds"
      using root_repr_Some [OF repr False] ok cs ds raw(1) by (intro path_reprI [of ds ?q pre "[]"]) auto
    ultimately show ?thesis using cs by simp
  qed
qed

lemma parent_raw_short:
  assumes "parent p = Ret (Some q)"
  shows "str_len (pr_raw q) \<le> max 3 (str_len (pr_raw p))"
proof -
  have short: "str_len a \<le> str_len r" if "str_to r n = Ret a" for r n a
    using that str_split_at_SomeD [of r n] by (auto simp: str_to_def)
  show ?thesis
    using assms by (auto simp: parent_def LkoPathRef_ROOT_def LKO_PREFIX_def str_def char_len_def
      le_max_iff_disj dest: short split: Option.bind_splits option.splits if_splits)
qed

section \<open>Canonical spelling\<close>

definition canonical :: "rstr list \<Rightarrow> rstr" where
  "canonical cs = (if cs = [] then LKO_PREFIX else LKO_PREFIX @ [slash] @ join_with slash cs)"

definition owned_repr :: "LkoPath \<Rightarrow> rstr list \<Rightarrow> bool" where
  "owned_repr q cs \<longleftrightarrow> lp_inner q = canonical cs \<and> path_repr (LkoPath_as_ref q) cs"

lemma to_owned_repr:
  assumes "path_repr p cs"
  shows "\<exists>q. to_owned_path p = Ret q \<and> owned_repr q cs \<and> lp_root q = pr_root p"
proof -
  let ?q = "\<lparr>lp_inner = canonical cs, lp_root = pr_root p\<rparr>"
  have "to_owned_path p = Ret ?q"
    using canonical_body_repr [OF assms] join_with_ends(1) [of cs] path_repr_ok [OF assms]
    by (cases "cs = []") (simp_all add: to_owned_path_def canonical_def)
  moreover have "owned_repr ?q cs"
  proof (cases "cs = []")
    case True
    with assms show ?thesis
      by (simp add: owned_repr_def LkoPath_as_ref_def path_repr_def LkoPathRef_ROOT_def canonical_def)
  next
    case False
    have "volume_prefix (LKO_PREFIX @ [slash])" by (auto simp: volume_prefix_def)
    moreover have "list_all component_ok cs" "pr_root p \<noteq> None" "pr_root p = Root_parse (hd cs)"
      using root_repr_Some [OF assms False] path_repr_ok [OF assms] by auto
    ultimately have "path_repr (LkoPath_as_ref ?q) cs"
      using path_reprI [of cs "LkoPath_as_ref ?q" "LKO_PREFIX @ [slash]" "[]"] False
      by (simp add: LkoPath_as_ref_def canonical_def)
    then show ?thesis by (simp add: owned_repr_def)
  qed
  ultimately show ?thesis by simp
qed

lemma owned_repr_eqI: "owned_repr q cs \<Longrightarrow> owned_repr q' cs \<Longrightarrow> q = q'"
  by (auto simp: owned_repr_def LkoPath_as_ref_def dest!: root_repr intro!: LkoPath.equality)

lemma to_owned_canonical:
  assumes "owned_repr q cs"
  shows "to_owned_path (LkoPath_as_ref q) = Ret q"
  using to_owned_repr [of "LkoPath_as_ref q" cs] assms owned_repr_eqI unfolding owned_repr_def by blast

lemma LkoPath_parse_via:
  assumes "LkoPath_parse s = Ret (Inr q)"
  obtains p where "LkoPathRef_parse s = Ret (Inr p)" "to_owned_path p = Ret q"
  using assms unfolding LkoPath_parse_def by (auto split: Option.bind_splits sum.splits)

lemma LkoPath_parse_sound:
  assumes "LkoPath_parse s = Ret (Inr q)"
  shows "\<exists>p cs. LkoPathRef_parse s = Ret (Inr p) \<and> path_repr p cs \<and> owned_repr q cs"
proof -
  from assms obtain p where p: "LkoPathRef_parse s = Ret (Inr p)" "to_owned_path p = Ret q"
    by (rule LkoPath_parse_via)
  from parse_sound [OF p(1)] obtain cs where "path_repr p cs" by blast
  with p to_owned_repr [OF this] show ?thesis by auto
qed

lemma LkoPath_parse_canonical:
  assumes "owned_repr q cs"
  shows "LkoPath_parse (lp_inner q) =
    (if str_len (lp_inner q) \<le> MAX_PATH_LEN then Ret (Inr q) else Ret (Inl TooLong))"
proof (cases "str_len (lp_inner q) \<le> MAX_PATH_LEN")
  case True
  have "LkoPathRef_parse (lp_inner q) = Ret (Inr (LkoPath_as_ref q))"
  proof -
    have "pr_raw (LkoPath_as_ref q) = lp_inner q" by (simp add: LkoPath_as_ref_def)
    moreover have "path_repr (LkoPath_as_ref q) cs" using assms by (simp add: owned_repr_def)
    ultimately show ?thesis using parse_complete True by metis
  qed
  with True to_owned_canonical [OF assms] show ?thesis by (simp add: LkoPath_parse_def)
next
  case False
  then show ?thesis by (simp add: LkoPath_parse_def LkoPathRef_parse_def)
qed

lemma canonical_snoc: "canonical (cs @ [c]) = canonical cs @ [slash] @ c"
  by (cases "cs = []") (simp_all add: canonical_def join_with_snoc)

lemma join_repr:
  assumes q: "owned_repr q cs" and len: "str_len (lp_inner q) + str_len c + 1 < 2 ^ 64"
  shows "if component_ok c \<and> str_len (canonical (cs @ [c])) \<le> MAX_PATH_LEN \<and> (cs = [] \<longrightarrow> Root_parse c \<noteq> None)
    then \<exists>q'. join q c = Ret (Inr q') \<and> owned_repr q' (cs @ [c])
    else \<exists>e. join q c = Ret (Inl e)"
proof -
  have inner: "lp_inner q = canonical cs" using q by (simp add: owned_repr_def)
  have repr: "path_repr (LkoPath_as_ref q) cs" using q by (simp add: owned_repr_def)
  have root: "lp_root q = (if cs = [] then None else Root_parse (hd cs))"
    using root_repr [OF repr] by (simp add: LkoPath_as_ref_def)
  have new: "str_len (canonical (cs @ [c])) = str_len (lp_inner q) + 1 + str_len c"
    by (simp add: canonical_snoc inner char_len_def)
  show ?thesis
  proof (cases "component_ok c")
    case False
    then obtain e where "validate_component c = Inl e"
      using validate_component_iff [of c] by (cases "validate_component c") auto
    with False show ?thesis by (simp add: join_def)
  next
    case ok: True
    then have v: "validate_component c = Inr ()" by (simp only: validate_component_iff)
    let ?ok = "str_len (canonical (cs @ [c])) \<le> MAX_PATH_LEN"
    have eq: "join q c = (if \<not> ?ok then Ret (Inl TooLong)
        else case lp_root q of
               Some r \<Rightarrow> Ret (Inr \<lparr>lp_inner = canonical (cs @ [c]), lp_root = Some r\<rparr>)
             | None \<Rightarrow> (case Root_parse c of None \<Rightarrow> Ret (Inl UnknownRoot)
                 | Some r \<Rightarrow> Ret (Inr \<lparr>lp_inner = canonical (cs @ [c]), lp_root = Some r\<rparr>)))"
      using len v new by (simp add: join_def add64_Ret inner canonical_snoc Let_def split: option.split)
    have fresh: "owned_repr \<lparr>lp_inner = canonical (cs @ [c]), lp_root = Some r\<rparr> (cs @ [c])"
      if "Root_parse (hd (cs @ [c])) = Some r" for r
    proof -
      let ?p = "\<lparr>pr_raw = canonical (cs @ [c]), pr_root = Some r\<rparr>"
      have "list_all component_ok (cs @ [c])" using ok path_repr_ok [OF repr] by simp
      moreover have "volume_prefix (LKO_PREFIX @ [slash])" by (auto simp: volume_prefix_def)
      ultimately have "path_repr ?p (cs @ [c])"
        using that by (intro path_reprI [of "cs @ [c]" ?p "LKO_PREFIX @ [slash]" "[]"]) (auto simp: canonical_def)
      then show ?thesis by (simp add: owned_repr_def LkoPath_as_ref_def)
    qed
    show ?thesis
    proof (cases "cs = []")
      case True
      then show ?thesis using eq ok root fresh by (cases "Root_parse c") auto
    next
      case False
      then obtain r where "lp_root q = Some r" "Root_parse (hd cs) = Some r"
        using root_repr_Some [OF repr] by (auto simp: LkoPath_as_ref_def)
      then show ?thesis using eq ok False fresh by auto
    qed
  qed
qed

lemma parsed_repr:
  assumes "LkoPathRef_parse s = Ret (Inr p)" "components p = Ret cs"
  shows "path_repr p cs"
  using parse_sound [OF assms(1)] assms(2) components_repr by fastforce

text \<open>The path of a root in its short spelling.\<close>

definition root_path :: "Root \<Rightarrow> LkoPathRef" where
  "root_path r = \<lparr>pr_raw = slash # Root_name r, pr_root = Some r\<rparr>"

lemma Root_name_ok: "component_ok (Root_name r)"
  by (cases r) (simp_all add: component_ok_def str_def is_control_def is_line_separator_def
    is_bidi_override_def char_len_def)

lemma root_path_repr: "path_repr (root_path r) [Root_name r]"
  by (rule path_reprI [where pre = "[slash]" and suf = "[]"])
    (simp_all add: root_path_def volume_prefix_def Root_name_ok)

lemma root_path_parse: "LkoPathRef_parse (slash # Root_name r) = Ret (Inr (root_path r))"
proof -
  have "str_len (pr_raw (root_path r)) \<le> MAX_PATH_LEN"
    using Root_name_ok [of r] by (simp add: root_path_def component_ok_def MAX_PATH_LEN_def char_len_def)
  from parse_complete [OF root_path_repr this] show ?thesis by (simp add: root_path_def)
qed

section \<open>Properties\<close>

lemma root_spelling_short:
  assumes "root_spelling s"
  shows "str_len s \<le> MAX_PATH_LEN" "\<not> contains_char s backslash"
  using assms lko_spelling
  by (auto simp: root_spelling_def volume_prefix_def MAX_PATH_LEN_def contains_char_def char_len_def)

lemma parse_root_spelling:
  assumes "root_spelling s"
  shows "LkoPathRef_parse s = Ret (Inr LkoPathRef_ROOT)"
proof -
  note short = root_spelling_short [OF assms]
  from assms consider "eq_ignore_ascii_case s LKO_PREFIX"
    | pre suf where "volume_prefix pre" "suf \<in> {[], [slash]}" "s = pre @ suf"
    by (auto simp: root_spelling_def)
  then show ?thesis
  proof cases
    case 1
    with strip_prefix_spelling [OF 1, of "[]"] short show ?thesis
      by (simp add: LkoPathRef_parse_def parse_body_def)
  next
    case 2
    have "parse_body (pre @ suf) = Ret (Inr (Some suf))"
      using 2(1) strip_prefix_spelling str_from_append [of "[slash]" suf]
      by (auto simp: volume_prefix_def parse_body_def strip_prefix_slash char_len_def)
    with short 2(2,3) show ?thesis by (auto simp: LkoPathRef_parse_def strip_suffix_char_def)
  qed
qed

text \<open>
  C7. Parsing is total and accepts exactly the well-formed spellings. It never panics, whatever
  the bytes of the input, although it slices at byte offsets. It yields the volume root for exactly
  the spellings of the volume root, and otherwise the path that keeps the input when, and only when,
  the input is at most 4096 bytes, a volume prefix in either accepted form and any case, and a list of
  well-formed components under a known root, with at most one trailing separator.
\<close>

theorem parse_exact:
  "\<exists>r. LkoPathRef_parse s = Ret r \<and>
    (r = Inr p \<longleftrightarrow>
       (p = LkoPathRef_ROOT \<and> root_spelling s) \<or>
       (pr_raw p = s \<and> str_len s \<le> 4096 \<and> (\<exists>cs. cs \<noteq> [] \<and> path_repr p cs)))"
proof -
  obtain r where r: "LkoPathRef_parse s = Ret r" using parse_total [of s] by blast
  have "r = Inr p" if "p = LkoPathRef_ROOT" "root_spelling s"
    using that parse_root_spelling r by simp
  moreover have "r = Inr p" if "pr_raw p = s" "str_len s \<le> 4096" "path_repr p cs" for cs
    using that parse_complete [of p cs] r by (simp add: MAX_PATH_LEN_def)
  moreover have "(p = LkoPathRef_ROOT \<and> root_spelling s) \<or>
      (pr_raw p = s \<and> str_len s \<le> 4096 \<and> (\<exists>cs. cs \<noteq> [] \<and> path_repr p cs))" if ok: "r = Inr p"
  proof -
    have "str_len s \<le> 4096"
      using ok r by (auto simp: LkoPathRef_parse_def MAX_PATH_LEN_def split: if_splits)
    moreover obtain cs where cs: "path_repr p cs" "cs = [] \<longrightarrow> root_spelling s" "cs \<noteq> [] \<longrightarrow> pr_raw p = s"
      using parse_sound [of s p] r ok by blast
    moreover have "p = LkoPathRef_ROOT" if "cs = []" using cs(1) that by (simp add: path_repr_def)
    ultimately show ?thesis by blast
  qed
  ultimately show ?thesis using r by blast
qed

text \<open>
  C23. A parsed path cannot traverse. Its components are well-formed names: none is empty, \<open>.\<close> or
  \<open>..\<close>, none contains a separator, a backslash, a control character, a line separator or a
  bidirectional override, none ends in a space or a dot; and the root it reports is the one its first
  component names, with no root exactly for the volume root.
\<close>

theorem parsed_path_wellformed:
  assumes "LkoPathRef_parse s = Ret (Inr p)"
  shows "\<exists>cs. components p = Ret cs \<and> tail p = Ret (tl cs) \<and>
    (\<forall>c \<in> set cs. c \<noteq> [] \<and> c \<noteq> str ''.'' \<and> c \<noteq> str ''..'' \<and>
       (\<forall>ch \<in> set c. ch \<noteq> slash \<and> ch \<noteq> backslash \<and> \<not> is_control ch \<and> \<not> is_line_separator ch \<and>
          \<not> is_bidi_override ch) \<and> last c \<noteq> 32 \<and> last c \<noteq> 46 \<and> str_len c \<le> 255) \<and>
    (case cs of [] \<Rightarrow> pr_root p = None
     | c # _ \<Rightarrow> \<exists>r. pr_root p = Some r \<and> eq_ignore_ascii_case c (Root_name r))"
proof -
  obtain cs where cs: "path_repr p cs" using parse_sound [OF assms] by blast
  have "case cs of [] \<Rightarrow> pr_root p = None
      | c # _ \<Rightarrow> \<exists>r. pr_root p = Some r \<and> eq_ignore_ascii_case c (Root_name r)"
    using root_repr [OF cs] root_repr_Some [OF cs] by (cases cs) (auto simp: Root_parse_iff)
  with path_repr_ok [OF cs] components_repr [OF cs] tail_repr [OF cs] show ?thesis
    by (auto simp: list_all_iff component_ok_def)
qed

text \<open>The parsed form of \<open>lko/users/Adam/\<close>, for the witnesses.\<close>

definition adam :: LkoPathRef where
  "adam = \<lparr>pr_raw = str ''lko/users/Adam/'', pr_root = Some Root.Users\<rparr>"

lemma adam_repr: "path_repr adam [str ''users'', str ''Adam'']"
proof (rule path_reprI)
  show "list_all component_ok [str ''users'', str ''Adam'']"
    by (simp add: component_ok_def str_def is_control_def is_line_separator_def is_bidi_override_def
      char_len_def)
  show "pr_root adam = Root_parse (hd [str ''users'', str ''Adam''])"
    by (simp add: adam_def Root_parse_def Root_ALL_def is_ascii_def eq_ignore_ascii_case_def str_def
      to_ascii_lowercase_def)
  show "volume_prefix (str ''lko/'')"
    by (auto simp: volume_prefix_def eq_ignore_ascii_case_def LKO_PREFIX_def str_def to_ascii_lowercase_def
      intro!: exI [of _ "str ''lko''"])
qed (simp_all add: adam_def str_def)

lemma adam_parse: "LkoPathRef_parse (str ''lko/users/Adam/'') = Ret (Inr adam)"
  using parse_complete [OF adam_repr] by (simp add: adam_def MAX_PATH_LEN_def str_def char_len_def)

theorem parsed_path_wellformed_witness:
  "\<exists>cs. components adam = Ret cs \<and> (\<forall>c \<in> set cs. c \<noteq> str ''..'')"
  using parsed_path_wellformed [OF adam_parse] by blast

text \<open>
  C38. The owned form is canonical. Printing an owned path and parsing the text gives the same
  owned path back, and the borrowed path it came from prints as the same text, so there is one string per location. The only exception is length: the short spelling
  of a path of almost 4096 bytes is accepted, and its owned string, three bytes longer, is then rejected
  as \<open>TooLong\<close>.
\<close>

theorem canonical_roundtrip:
  assumes "from_str s = Ret (Inr q)"
  shows "from_str (LkoPath_display q) = (if str_len (LkoPath_display q) \<le> 4096 then Ret (Inr q) else Ret (Inl TooLong)) \<and>
    (\<exists>p. LkoPathRef_parse s = Ret (Inr p) \<and> LkoPath_from p = Ret q \<and> LkoPathRef_display p = Ret (LkoPath_display q) \<and>
      LkoPathRef_display (LkoPath_as_ref q) = Ret (LkoPath_as_str q))"
proof -
  have s: "LkoPath_parse s = Ret (Inr q)" using assms by (simp add: from_str_def)
  obtain cs where cs: "owned_repr q cs" using LkoPath_parse_sound [OF s] by blast
  obtain p where p: "LkoPathRef_parse s = Ret (Inr p)" "to_owned_path p = Ret q"
    using s by (rule LkoPath_parse_via)
  have "LkoPathRef_display p = Ret (LkoPath_display q)" "LkoPathRef_display (LkoPath_as_ref q) = Ret (LkoPath_as_str q)"
    using p(2) to_owned_canonical [OF cs]
    by (simp_all add: printed_forms_agree(1) LkoPath_from_def LkoPath_display_def LkoPath_as_str_def)
  with p LkoPath_parse_canonical [OF cs] show ?thesis
    by (simp add: from_str_def LkoPath_from_def LkoPath_display_def MAX_PATH_LEN_def)
qed

lemma adam_owned:
  "LkoPath_parse (str ''lko/users/Adam/'') = Ret (Inr \<lparr>lp_inner = str ''LKO/users/Adam'', lp_root = Some Root.Users\<rparr>)"
proof -
  have "canonical_body (pr_raw adam) = Ret (join_with slash [str ''users'', str ''Adam''])"
    by (rule canonical_body_repr [OF adam_repr])
  moreover have "pr_root adam = Some Root.Users" by (simp add: adam_def)
  ultimately have "to_owned_path adam = Ret \<lparr>lp_inner = str ''LKO/users/Adam'', lp_root = Some Root.Users\<rparr>"
    by (simp add: to_owned_path_def LKO_PREFIX_def str_def)
  then show ?thesis by (simp add: LkoPath_parse_def adam_parse)
qed

theorem canonical_roundtrip_witness:
  "LkoPath_parse (str ''LKO/users/Adam'') = Ret (Inr \<lparr>lp_inner = str ''LKO/users/Adam'', lp_root = Some Root.Users\<rparr>)"
  using canonical_roundtrip [unfolded from_str_def, OF adam_owned] by (simp add: LkoPath_display_def str_def char_len_def)

text \<open>
  Two accepted spellings have the same owned form exactly when they have the same components:
  the volume prefix, its case and a trailing separator make no difference, everything else does.
\<close>

theorem owned_equal_iff:
  assumes "LkoPathRef_parse s = Ret (Inr p)" "LkoPathRef_parse s' = Ret (Inr p')"
  shows "to_owned_path p = to_owned_path p' \<longleftrightarrow> components p = components p'"
proof -
  obtain cs where cs: "path_repr p cs" using parse_sound [OF assms(1)] by blast
  obtain cs' where cs': "path_repr p' cs'" using parse_sound [OF assms(2)] by blast
  obtain q where q: "to_owned_path p = Ret q" "owned_repr q cs" using to_owned_repr [OF cs] by blast
  obtain q' where q': "to_owned_path p' = Ret q'" "owned_repr q' cs'" using to_owned_repr [OF cs'] by blast
  have "q = q' \<longleftrightarrow> cs = cs'"
    using q(2) q'(2) owned_repr_eqI path_repr_unique unfolding owned_repr_def by metis
  then show ?thesis using q(1) q'(1) components_repr [OF cs] components_repr [OF cs'] by simp
qed

lemma adam_short_repr: "path_repr (adam\<lparr>pr_raw := str ''/users/Adam''\<rparr>) [str ''users'', str ''Adam'']"
  using root_repr_Some [OF adam_repr] path_repr_ok [OF adam_repr]
  by (intro path_reprI [where pre = "[slash]" and suf = "[]"]) (auto simp: volume_prefix_def str_def)

lemma adam_short_parse:
  "LkoPathRef_parse (str ''/users/Adam'') = Ret (Inr (adam\<lparr>pr_raw := str ''/users/Adam''\<rparr>))"
  using parse_complete [OF adam_short_repr] by (simp add: MAX_PATH_LEN_def str_def char_len_def)

theorem owned_equal_iff_witness:
  "to_owned_path adam = to_owned_path (adam\<lparr>pr_raw := str ''/users/Adam''\<rparr>)"
  using owned_equal_iff [OF adam_parse adam_short_parse] components_repr [OF adam_repr]
    components_repr [OF adam_short_repr] by simp

text \<open>
  Walking up cannot escape and cannot panic. The volume root has no parent; the parent of any
  other parsed path is a path with the last component removed, that parses again from its own
  spelling, and the path is within it.
\<close>

theorem parent_removes_last:
  assumes "LkoPathRef_parse s = Ret (Inr p)" "components p = Ret cs"
  shows "if cs = [] then parent p = Ret None
    else \<exists>q. parent p = Ret (Some q) \<and> components q = Ret (butlast cs) \<and>
      is_within p q = Ret True \<and> LkoPathRef_parse (pr_raw q) = Ret (Inr q)"
proof (cases "cs = []")
  case True
  obtain ds where ds: "path_repr p ds" using parse_sound [OF assms(1)] by blast
  with assms(2) True components_repr have "ds = []" by fastforce
  with ds True show ?thesis using canonical_body_repr [OF ds] by (simp add: parent_def)
next
  case False
  obtain ds where ds: "path_repr p ds" "ds \<noteq> [] \<longrightarrow> pr_raw p = s" using parse_sound [OF assms(1)] by blast
  then have cs: "path_repr p cs" "pr_raw p = s" using components_repr [OF ds(1)] assms(2) False by auto
  have "str_len s \<le> 4096"
    using assms(1) by (auto simp: LkoPathRef_parse_def MAX_PATH_LEN_def split: if_splits)
  then have len: "str_len (pr_raw p) + 4 < 2 ^ 64" using cs(2) by simp
  obtain q where q: "parent p = Ret (Some q)" "path_repr q (butlast cs)"
    using parent_repr [OF cs(1) len] False by auto
  have "starts_like eq_ignore_ascii_case cs (butlast cs)"
    using tree.like_refl [of "butlast cs"] by (auto simp: starts_like_iff take_butlast butlast_conv_take
      intro: list_all2_refl)
  moreover have "str_len (pr_raw q) \<le> MAX_PATH_LEN"
    using parent_raw_short [OF q(1)] \<open>str_len s \<le> 4096\<close> cs(2) by (simp add: MAX_PATH_LEN_def)
  ultimately show ?thesis
    using False q components_repr [OF q(2)] tree.within_repr [OF cs(1) q(2)] parse_complete [OF q(2)] by auto
qed

theorem parent_removes_last_witness:
  "\<exists>q. parent adam = Ret (Some q) \<and> components q = Ret [str ''users''] \<and> is_within adam q = Ret True"
  using parent_removes_last [OF adam_parse components_repr [OF adam_repr]] by auto

text \<open>
  Joining adds exactly one level. Joining a name onto an owned path, parsed or itself the result
  of joins, yields the path with that one component appended, in canonical form, that its own string parses
  back to, precisely when the name is a well-formed component, the result fits the length limit and, on the
  volume root, the name is a root's; in every other case it is an error, and it never panics.
\<close>

theorem join_appends:
  assumes "LkoPath_parse s = Ret (Inr q)" "components (LkoPath_as_ref q) = Ret cs"
    "str_len (lp_inner q) + str_len c + 1 < 2 ^ 64"
  shows "if validate_component c = Inr () \<and> str_len (lp_inner q) + 1 + str_len c \<le> 4096 \<and>
      (cs = [] \<longrightarrow> Root_parse c \<noteq> None)
    then \<exists>q'. join q c = Ret (Inr q') \<and> components (LkoPath_as_ref q') = Ret (cs @ [c]) \<and>
      LkoPath_parse (lp_inner q') = Ret (Inr q')
    else \<exists>e. join q c = Ret (Inl e)"
proof -
  obtain ds where ds: "owned_repr q ds" using LkoPath_parse_sound [OF assms(1)] by blast
  then have "ds = cs" using components_repr assms(2) by (fastforce simp: owned_repr_def)
  with ds have q: "owned_repr q cs" by simp
  then have new: "str_len (canonical (cs @ [c])) = str_len (lp_inner q) + 1 + str_len c"
    by (simp add: owned_repr_def canonical_snoc char_len_def)
  have "components (LkoPath_as_ref q') = Ret (cs @ [c]) \<and> LkoPath_parse (lp_inner q') = Ret (Inr q')"
    if "owned_repr q' (cs @ [c])" "str_len (lp_inner q) + 1 + str_len c \<le> 4096" for q'
    using that LkoPath_parse_canonical [OF that(1)] new components_repr
    by (auto simp: owned_repr_def MAX_PATH_LEN_def)
  with join_repr [OF q assms(3)] show ?thesis
    unfolding new validate_component_iff MAX_PATH_LEN_def by (auto split: if_splits)
qed

theorem join_appends_witness:
  "\<exists>e. join \<lparr>lp_inner = str ''LKO/users/Adam'', lp_root = Some Root.Users\<rparr> (str ''..'') = Ret (Inl e)"
proof -
  let ?q = "\<lparr>lp_inner = str ''LKO/users/Adam'', lp_root = Some Root.Users\<rparr>"
  obtain cs where "owned_repr ?q cs" using LkoPath_parse_sound [OF adam_owned] by blast
  then have "components (LkoPath_as_ref ?q) = Ret cs"
    using components_repr unfolding owned_repr_def by blast
  moreover have "validate_component (str ''..'') \<noteq> Inr ()"
    by (simp add: validate_component_iff component_ok_def)
  moreover have "str_len (lp_inner ?q) + str_len (str ''..'') + 1 < 2 ^ 64" by (simp add: str_def char_len_def)
  ultimately show ?thesis using join_appends [OF adam_owned, of cs "str ''..''"] by simp
qed

text \<open>
  C24. Containment is component-wise and case-insensitive, never a string prefix: for parsed paths
  \<^verbatim>\<open>is_within\<close> is true exactly when the components of the second are, up to ASCII case, the
  first components of the first. It is reflexive and transitive, and two locations that contain a common
  location are themselves nested.
\<close>

theorem is_within_correct:
  assumes "LkoPathRef_parse s1 = Ret (Inr p)" "LkoPathRef_parse s2 = Ret (Inr q)" "LkoPathRef_parse s3 = Ret (Inr r)"
    "components p = Ret cs" "components q = Ret ds"
  shows "is_within p q = Ret (length ds \<le> length cs \<and>
      (\<forall>i < length ds. eq_ignore_ascii_case (cs ! i) (ds ! i))) \<and>
    is_within p p = Ret True \<and>
    (is_within p q = Ret True \<and> is_within q r = Ret True \<longrightarrow> is_within p r = Ret True) \<and>
    (is_within p q = Ret True \<and> is_within p r = Ret True \<longrightarrow>
       is_within q r = Ret True \<or> is_within r q = Ret True)"
proof -
  obtain cs' where p: "path_repr p cs'" using parse_sound [OF assms(1)] by blast
  obtain ds' where q: "path_repr q ds'" using parse_sound [OF assms(2)] by blast
  obtain es where r: "path_repr r es" using parse_sound [OF assms(3)] by blast
  have "cs' = cs" "ds' = ds" using assms(4,5) components_repr [OF p] components_repr [OF q] by simp_all
  then have "is_within p q = Ret (length ds \<le> length cs \<and>
      (\<forall>i < length ds. eq_ignore_ascii_case (cs ! i) (ds ! i)))"
    using tree.within_repr [OF p q] by (auto simp: starts_like_iff list_all2_conv_all_nth)
  with tree.within_refl [OF p] tree.within_trans [OF p q r] tree.within_chain [OF p q r] show ?thesis
    by blast
qed

theorem is_within_correct_witness:
  "is_within adam (adam\<lparr>pr_raw := str ''/users/Adam''\<rparr>) = Ret True"
  using is_within_correct [OF adam_parse adam_short_parse adam_parse components_repr [OF adam_repr]
    components_repr [OF adam_short_repr]] by simp

section \<open>The length limit and the two spellings\<close>

text \<open>
  The exception of the round trip is real: a short spelling of 4094 bytes is accepted, and the owned path
  it yields has a string that is rejected.
\<close>

definition long_components :: "rstr list" where
  "long_components = str ''Users'' # replicate 16 (replicate 254 97) @ [replicate 7 97]"

definition long_path :: LkoPathRef where
  "long_path = \<lparr>pr_raw = slash # join_with slash long_components, pr_root = Some Root.Users\<rparr>"

lemma str_len_join: "cs \<noteq> [] \<Longrightarrow> str_len (join_with slash cs) + 1 = sum_list (map (\<lambda>c. str_len c + 1) cs)"
proof (induction cs)
  case (Cons c cs)
  then show ?case by (cases cs) (simp_all add: char_len_def)
qed simp

lemma str_len_replicate: "str_len (replicate n 97) = n"
  by (induction n) (simp_all add: char_len_def)

lemma component_ok_letters: "0 < n \<Longrightarrow> n \<le> 255 \<Longrightarrow> component_ok (replicate n 97)"
  by (cases n) (auto simp: component_ok_def str_len_replicate str_def is_control_def is_line_separator_def
    is_bidi_override_def char_len_def)

lemma long_path_repr: "path_repr long_path long_components"
proof (rule path_reprI)
  have "component_ok (str ''Users'')"
    by (simp add: component_ok_def str_def is_control_def is_line_separator_def is_bidi_override_def char_len_def)
  then show "list_all component_ok long_components"
    by (simp add: long_components_def list_all_iff component_ok_letters)
  show "pr_root long_path = Root_parse (hd long_components)"
    using Root_parse_name [of Root.Users] by (simp add: long_path_def long_components_def)
  show "volume_prefix [slash]" by (simp add: volume_prefix_def)
  show "[] \<in> {[], [slash]}" by simp
qed (simp_all add: long_path_def long_components_def)

lemma long_join_len: "str_len (join_with slash long_components) = 4093"
proof -
  have "sum_list (map (\<lambda>c. str_len c + 1) long_components) = 4094"
    by (simp add: long_components_def str_len_replicate sum_list_replicate str_def char_len_def)
  then show ?thesis using str_len_join [of long_components] by (simp add: long_components_def)
qed

lemma owned_string_rejected:
  "\<exists>s q. LkoPath_parse s = Ret (Inr q) \<and> LkoPath_parse (LkoPath_as_str q) = Ret (Inl TooLong)"
proof -
  have "str_len (pr_raw long_path) \<le> MAX_PATH_LEN"
    by (simp add: long_path_def long_join_len char_len_def MAX_PATH_LEN_def)
  from parse_complete [OF long_path_repr this] obtain q where
    q: "LkoPath_parse (pr_raw long_path) = Ret (Inr q)" "owned_repr q long_components"
    using to_owned_repr [OF long_path_repr] by (auto simp: LkoPath_parse_def)
  have "\<not> str_len (lp_inner q) \<le> MAX_PATH_LEN"
    using q(2) by (simp add: owned_repr_def canonical_def long_join_len MAX_PATH_LEN_def LKO_PREFIX_def str_def
      char_len_def) (simp add: long_components_def)
  with LkoPath_parse_canonical [OF q(2)] q(1) show ?thesis by (auto simp: LkoPath_as_str_def)
qed

text \<open>
  The documentation of \<^verbatim>\<open>as_str\<close> promises a string that begins with \<^verbatim>\<open>LKO\<close>; a parsed
  path returns the caller's spelling, and two spellings of one location are different values.
\<close>

lemma as_str_keeps_spelling:
  "LkoPathRef_parse (str ''/users/Adam'') = Ret (Inr (adam\<lparr>pr_raw := str ''/users/Adam''\<rparr>)) \<and>
   LkoPathRef_as_str (adam\<lparr>pr_raw := str ''/users/Adam''\<rparr>) = str ''/users/Adam'' \<and>
   adam \<noteq> adam\<lparr>pr_raw := str ''/users/Adam''\<rparr>"
  using adam_short_parse by (simp add: LkoPathRef_as_str_def adam_def str_def)

text \<open>Two separators in a row are accepted when nothing else follows.\<close>

lemma double_separator_is_root: "LkoPathRef_parse (str ''//'') = Ret (Inr LkoPathRef_ROOT)"
  by (rule parse_root_spelling) (auto simp: root_spelling_def volume_prefix_def str_def)

end
