(* ===== verification/Lko_Policy.thy ===== *)
theory Lko_Policy
  imports Lko_Path
begin

text \<open>
  The LKOFS access policy, \<^verbatim>\<open>src/filesystem/lkofs-core/src/policy.rs\<close>: who asks, for what,
  and the ordered rules of \<^verbatim>\<open>evaluate\<close>. The rules read a path only through its root, its
  tail and containment, so their outcome is a function of the path's components. Rules 4 and 6, whose
  conditions are longer, are definitions of their own.
\<close>

section \<open>Subjects, operations and verdicts\<close>

datatype SubjectClass =
    Kernel | SystemUpdater | SystemService | Driver | UserShell | UserApp | SandboxedApp | AiAgent
  | CompatibilityRuntime

datatype Operation =
    Inspect | Read | Execute | Write | Create | Delete | Rename | ChangePermissions

fun Operation_is_mutating :: "Operation \<Rightarrow> bool" where
  "Operation_is_mutating Write = True"
| "Operation_is_mutating Create = True"
| "Operation_is_mutating Delete = True"
| "Operation_is_mutating Rename = True"
| "Operation_is_mutating ChangePermissions = True"
| "Operation_is_mutating _ = False"

fun is_destructive :: "Operation \<Rightarrow> bool" where
  "is_destructive Delete = True"
| "is_destructive Write = True"
| "is_destructive Rename = True"
| "is_destructive _ = False"

datatype DenyReason = ProtectedLocation | OutsideSandbox | CrossUser | NoGrant | RoleForbidden

fun DenyReason_as_error :: "DenyReason \<Rightarrow> Error" where
  "DenyReason_as_error DenyReason.ProtectedLocation = Error.ProtectedLocation"
| "DenyReason_as_error _ = PermissionDenied"

fun DenyReason_explanation :: "DenyReason \<Rightarrow> rstr" where
  "DenyReason_explanation DenyReason.ProtectedLocation =
     str ''This is part of LokoOS itself. Only a system update can change it.''"
| "DenyReason_explanation OutsideSandbox =
     str ''This app can only reach its own files. You can give it wider access in Settings.''"
| "DenyReason_explanation CrossUser = str ''This belongs to someone else who uses this device.''"
| "DenyReason_explanation NoGrant = str ''This app hasn't been given access to this location yet.''"
| "DenyReason_explanation RoleForbidden = str ''This part of LokoOS isn't allowed to do that.''"

datatype Confirmation = AiInitiatedChange | ForeignApplicationWrite | PermissionChange

datatype Decision = Allow | Confirm Confirmation | Deny DenyReason

fun is_allowed :: "Decision \<Rightarrow> bool" where
  "is_allowed Allow = True"
| "is_allowed _ = False"

fun Decision_as_error :: "Decision \<Rightarrow> Error option" where
  "Decision_as_error Allow = None"
| "Decision_as_error (Decision.Confirm _) = Some ConfirmationRequired"
| "Decision_as_error (Deny reason) = Some (DenyReason_as_error reason)"

record Subject =
  sj_class :: SubjectClass
  sj_app_id :: "rstr option"
  sj_user :: "rstr option"
  sj_grants :: "LkoPathRef list"
  sj_update_transaction_open :: bool

definition Subject_new :: "SubjectClass \<Rightarrow> Subject" where
  "Subject_new class =
     \<lparr>sj_class = class, sj_app_id = None, sj_user = None, sj_grants = [],
      sj_update_transaction_open = False\<rparr>"

definition has_grant_covering :: "Subject \<Rightarrow> LkoPathRef \<Rightarrow> bool run" where
  "has_grant_covering s path = do {
     found \<leftarrow> run_find (\<lambda>g. is_within path g) (sj_grants s);
     Ret (found \<noteq> None)
   }"

section \<open>Protection and storage of a path\<close>

text \<open>\<^verbatim>\<open>matches!(iter.next(), Some(c) if c.eq_ignore_ascii_case(name))\<close>.\<close>

fun next_is :: "rstr list \<Rightarrow> rstr \<Rightarrow> bool" where
  "next_is [] name = False"
| "next_is (c # _) name = eq_ignore_ascii_case c name"

definition effective_protection :: "LkoPathRef \<Rightarrow> Protection run" where
  "effective_protection path =
     (case pr_root path of
        None \<Rightarrow> Ret SystemImmutable
      | Some root \<Rightarrow> do {
          t \<leftarrow> tail path;
          if root = Root.Config \<and> next_is t (str ''Security'') then Ret SystemImmutable
          else if root = Root.Services \<and> next_is t (str ''Security'') then Ret SystemImmutable
          else if root = Root.Ai \<and> next_is t (str ''Memory'') then Ret UserOwned
          else Ret (Root_protection root)
        })"

definition storage_category_of :: "LkoPathRef \<Rightarrow> StorageCategory run" where
  "storage_category_of path =
     (case pr_root path of
        None \<Rightarrow> Ret BaseSystem
      | Some root \<Rightarrow>
          if root = Root.Runtime
          then do {
            t \<leftarrow> tail path;
            Ret (if next_is t (str ''Windows'') \<or> next_is t (str ''Mac'')
                 then StorageCategory.Compatibility else BaseSystem)
          }
          else Ret (Root_storage_category root))"

section \<open>The rules\<close>

text \<open>Rule 3.\<close>

definition driver_rule :: "Root option \<Rightarrow> bool \<Rightarrow> Decision" where
  "driver_rule root mutating =
     (if root = Some Root.Drivers \<and> \<not> mutating then Allow
      else if root = Some Root.Logs then Allow
      else if root = Some Root.Temp then Allow
      else Deny RoleForbidden)"

text \<open>Rule 4: whether the path is in the home of a user the subject does not act for.\<close>

definition crosses_user :: "Subject \<Rightarrow> LkoPathRef \<Rightarrow> bool run" where
  "crosses_user s path =
     (if pr_root path = Some Root.Users
      then do {
        t \<leftarrow> tail path;
        case t of
          [] \<Rightarrow> Ret False
        | owner # _ \<Rightarrow>
            (let acting_for_owner =
                   (case sj_user s of None \<Rightarrow> False | Some u \<Rightarrow> eq_ignore_ascii_case u owner);
                 system_role = sj_class s \<in> {SystemService, SystemUpdater}
             in Ret (\<not> acting_for_owner \<and> \<not> system_role))
      }
      else Ret False)"

text \<open>Rule 6: what a sandboxed application is permitted.\<close>

definition sandbox_permits :: "Subject \<Rightarrow> LkoPathRef \<Rightarrow> Operation \<Rightarrow> bool run" where
  "sandbox_permits s path operation = do {
     in_own_appdata \<leftarrow>
       (case (pr_root path, sj_user s, sj_app_id s) of
          (Some Root.Users, Some u, Some app) \<Rightarrow> do {
            t \<leftarrow> tail path;
            Ret (next_is t u \<and> next_is (drop 1 t) (str ''AppData'') \<and> next_is (drop 2 t) app)
          }
        | _ \<Rightarrow> Ret False);
     in_own_install_dir \<leftarrow>
       (case (pr_root path, sj_app_id s) of
          (Some Root.Apps, Some app) \<Rightarrow> do { t \<leftarrow> tail path; Ret (next_is t app) }
        | _ \<Rightarrow> Ret False);
     Ret (in_own_appdata \<or> (in_own_install_dir \<and> \<not> Operation_is_mutating operation))
   }"

definition evaluate :: "Subject \<Rightarrow> LkoPathRef \<Rightarrow> Operation \<Rightarrow> Decision run" where
  "evaluate s path operation =
     (if sj_class s = Kernel then Ret Allow
      else do {
        protection \<leftarrow> effective_protection path;
        if protection = SystemImmutable \<and> Operation_is_mutating operation
        then Ret (if sj_class s = SystemUpdater \<and> sj_update_transaction_open s
                  then Allow else Deny DenyReason.ProtectedLocation)
        else if sj_class s = CompatibilityRuntime \<and>
          pr_root path \<in> Some ` {Root.System, Root.Drivers, Root.Boot, Root.Recovery, Root.Services}
        then Ret (Deny RoleForbidden)
        else if sj_class s = Driver
        then Ret (driver_rule (pr_root path) (Operation_is_mutating operation))
        else do {
          cross \<leftarrow> crosses_user s path;
          if cross then Ret (Deny CrossUser)
          else if pr_root path \<in> Some ` {Root.Temp, Root.Cache} then Ret Allow
          else if sj_class s = SandboxedApp
          then do {
            permitted \<leftarrow> sandbox_permits s path operation;
            Ret (if permitted then Allow else Deny OutsideSandbox)
          }
          else if protection = SystemManaged \<and> Operation_is_mutating operation \<and>
            sj_class s \<notin> {SystemService, SystemUpdater, UserShell}
          then Ret (Deny NoGrant)
          else do {
            ungranted \<leftarrow>
              (if protection = UserOwned \<and> sj_class s \<noteq> UserShell
               then do { covered \<leftarrow> has_grant_covering s path; Ret (\<not> covered) }
               else Ret False);
            if ungranted then Ret (Deny NoGrant)
            else if operation = ChangePermissions then Ret (Decision.Confirm PermissionChange)
            else if sj_class s = AiAgent \<and> is_destructive operation
            then Ret (Decision.Confirm AiInitiatedChange)
            else if sj_class s = CompatibilityRuntime \<and> Operation_is_mutating operation
            then Ret (Decision.Confirm ForeignApplicationWrite)
            else Ret Allow
          }
        }
      })"

section \<open>The policy on components\<close>

text \<open>
  A subject as the kernel builds it: every grant is a parsed path. On such a subject and a parsed path the
  rules depend on components only; \<open>policy_on\<close> collects what each part evaluates to.
\<close>

definition subject_ok :: "Subject \<Rightarrow> bool" where
  "subject_ok s \<longleftrightarrow> (\<forall>g \<in> set (sj_grants s). \<exists>t. LkoPathRef_parse t = Ret (Inr g))"

fun protection_at :: "Root option \<Rightarrow> rstr list \<Rightarrow> Protection" where
  "protection_at None t = SystemImmutable"
| "protection_at (Some root) t =
     (if root \<in> {Root.Config, Root.Services} \<and> next_is t (str ''Security'') then SystemImmutable
      else if root = Root.Ai \<and> next_is t (str ''Memory'') then UserOwned
      else Root_protection root)"

fun covers :: "rstr list \<Rightarrow> LkoPathRef \<Rightarrow> bool" where
  "covers cs g \<longleftrightarrow> (\<exists>ds. path_repr g ds \<and> starts_like eq_ignore_ascii_case cs ds)"

lemma effective_protection_on:
  assumes "path_repr p cs"
  shows "effective_protection p = Ret (protection_at (pr_root p) (tl cs))"
  using tail_repr [OF assms] by (cases "pr_root p") (auto simp: effective_protection_def)

lemma has_grant_covering_on:
  assumes "path_repr p cs" "subject_ok s"
  shows "has_grant_covering s p = Ret (\<exists>g \<in> set (sj_grants s). covers cs g)"
proof -
  have "is_within p g = Ret (covers cs g)" if g: "g \<in> set (sj_grants s)" for g
  proof -
    obtain t where "LkoPathRef_parse t = Ret (Inr g)" using assms(2) g by (auto simp: subject_ok_def)
    then obtain ds where ds: "path_repr g ds" using parse_sound by blast
    have "covers cs g = starts_like eq_ignore_ascii_case cs ds"
      using ds path_repr_unique by auto
    then show ?thesis using tree.within_repr [OF assms(1) ds] by simp
  qed
  then have "run_find (\<lambda>g. is_within p g) (sj_grants s) = Ret (find (covers cs) (sj_grants s))"
    by (rule run_find_total)
  moreover have "(find (covers cs) (sj_grants s) \<noteq> None) = (\<exists>g \<in> set (sj_grants s). covers cs g)"
    by (auto simp only: find_None_iff)
  ultimately show ?thesis by (simp only: has_grant_covering_def bind.bind_lunit)
qed

definition foreign_home :: "Subject \<Rightarrow> Root option \<Rightarrow> rstr list \<Rightarrow> bool" where
  "foreign_home s root t \<longleftrightarrow> root = Some Root.Users \<and> t \<noteq> [] \<and>
     (\<forall>u. sj_user s = Some u \<longrightarrow> \<not> eq_ignore_ascii_case u (hd t)) \<and>
     sj_class s \<notin> {SystemService, SystemUpdater}"

lemma crosses_user_on:
  assumes "path_repr p cs"
  shows "crosses_user s p = Ret (foreign_home s (pr_root p) (tl cs))"
  using tail_repr [OF assms]
  by (cases "tl cs"; cases "sj_user s") (auto simp: crosses_user_def foreign_home_def)

definition own_container :: "Subject \<Rightarrow> Root option \<Rightarrow> rstr list \<Rightarrow> bool" where
  "own_container s root t \<longleftrightarrow> root = Some Root.Users \<and>
     (\<exists>u app. sj_user s = Some u \<and> sj_app_id s = Some app \<and>
        next_is t u \<and> next_is (drop 1 t) (str ''AppData'') \<and> next_is (drop 2 t) app)"

definition own_install_dir :: "Subject \<Rightarrow> Root option \<Rightarrow> rstr list \<Rightarrow> bool" where
  "own_install_dir s root t \<longleftrightarrow> root = Some Root.Apps \<and>
     (\<exists>app. sj_app_id s = Some app \<and> next_is t app)"

lemma sandbox_permits_on:
  assumes "path_repr p cs"
  shows "sandbox_permits s p operation = Ret (own_container s (pr_root p) (tl cs) \<or>
    own_install_dir s (pr_root p) (tl cs) \<and> \<not> Operation_is_mutating operation)"
  using tail_repr [OF assms]
  by (cases "sj_user s"; cases "sj_app_id s")
    (auto simp: sandbox_permits_def own_container_def own_install_dir_def split: option.splits Root.splits)

lemmas policy_on = effective_protection_on has_grant_covering_on crosses_user_on sandbox_permits_on

section \<open>Properties\<close>

text \<open>The locations of the protected class, by their components.\<close>

definition protected_components :: "rstr list \<Rightarrow> bool" where
  "protected_components cs \<longleftrightarrow> cs = [] \<or>
     Root_parse (hd cs) \<in> Some ` {Root.System, Root.Drivers, Root.Boot, Root.Recovery} \<or>
     Root_parse (hd cs) \<in> Some ` {Root.Config, Root.Services} \<and> next_is (tl cs) (str ''Security'')"

lemma protection_immutable_iff:
  assumes "path_repr p cs"
  shows "protection_at (pr_root p) (tl cs) = SystemImmutable \<longleftrightarrow> protected_components cs"
proof (cases "cs = []")
  case True
  then show ?thesis using root_repr [OF assms] by (simp add: protected_components_def)
next
  case False
  then obtain r where r: "pr_root p = Some r" "Root_parse (hd cs) = Some r"
    using root_repr_Some [OF assms] by blast
  with False show ?thesis by (cases r) (auto simp: protected_components_def)
qed

text \<open>
  C3. The system cannot be changed while it runs. On the volume root, on anything under \<open>System\<close>,
  \<open>Drivers\<close>, \<open>Boot\<close> or \<open>Recovery\<close>, and under the \<open>Security\<close> directories of \<open>Config\<close> and
  \<open>Services\<close>, every operation that changes something is denied as a protected location to every subject
  except the kernel and an updater inside an open transaction, whatever it was granted.
\<close>

theorem protected_locations_immutable:
  assumes "LkoPathRef_parse t = Ret (Inr p)" "components p = Ret cs"
    and "protected_components cs" "Operation_is_mutating operation"
  shows "evaluate s p operation =
    Ret (if sj_class s = Kernel \<or> sj_class s = SystemUpdater \<and> sj_update_transaction_open s
         then Allow else Deny DenyReason.ProtectedLocation)"
proof -
  have repr: "path_repr p cs" by (rule parsed_repr [OF assms(1,2)])
  then have "effective_protection p = Ret SystemImmutable"
    using assms(3) by (simp add: effective_protection_on protection_immutable_iff)
  with assms(4) show ?thesis by (simp add: evaluate_def)
qed

theorem protected_locations_immutable_witness:
  "evaluate (Subject_new UserShell) (root_path Root.System) Delete = Ret (Deny DenyReason.ProtectedLocation)"
  using protected_locations_immutable [OF root_path_parse components_repr [OF root_path_repr],
    of Root.System Delete "Subject_new UserShell"] Root_parse_name [of Root.System]
  by (simp add: protected_components_def Subject_new_def)

text \<open>
  C4. A sandboxed application is confined, exactly. It is allowed an operation if and only if the
  location is in the scratch roots, in its own container under its user's \<open>AppData\<close>, or, for an operation
  that changes nothing, in its own installation directory; everything else is denied, and grants do
  not matter.
\<close>

theorem sandbox_confinement:
  assumes "LkoPathRef_parse t = Ret (Inr p)" "components p = Ret cs" "sj_class s = SandboxedApp"
  shows "\<exists>d. evaluate s p operation = Ret d \<and>
    (d = Allow \<longleftrightarrow> pr_root p \<in> Some ` {Root.Temp, Root.Cache} \<or> own_container s (pr_root p) (tl cs) \<or>
       own_install_dir s (pr_root p) (tl cs) \<and> \<not> Operation_is_mutating operation) \<and>
    (d = Allow \<or> (\<exists>reason. d = Deny reason))"
proof -
  have repr: "path_repr p cs" by (rule parsed_repr [OF assms(1,2)])
  note parts = effective_protection_on [OF repr] crosses_user_on [OF repr] sandbox_permits_on [OF repr]
  have open_roots: "\<not> (protection_at (pr_root p) (tl cs) = SystemImmutable)"
    if "pr_root p \<in> Some ` {Root.Temp, Root.Cache, Root.Users, Root.Apps}"
    using that by auto
  have own_home: "\<not> foreign_home s (pr_root p) (tl cs)" if "own_container s (pr_root p) (tl cs)"
    using that eq_ignore_ascii_case_sym
    by (cases "tl cs") (auto simp: own_container_def foreign_home_def)
  have "\<not> foreign_home s (pr_root p) (tl cs)" if "pr_root p \<noteq> Some Root.Users"
    using that by (simp add: foreign_home_def)
  with open_roots own_home show ?thesis
    using assms(3) by (auto simp: evaluate_def parts own_container_def own_install_dir_def)
qed

text \<open>An editor in its sandbox, acting for Adam.\<close>

definition editor :: Subject where
  "editor = (Subject_new SandboxedApp)\<lparr>sj_app_id := Some (str ''com.example.editor''), sj_user := Some (str ''adam'')\<rparr>"

theorem sandbox_confinement_witness:
  "\<exists>reason. evaluate editor adam Read = Ret (Deny reason)"
proof -
  have "sj_class editor = SandboxedApp" by (simp add: editor_def Subject_new_def)
  moreover have "\<not> own_container editor (pr_root adam) (tl [str ''users'', str ''Adam''])"
    "\<not> own_install_dir editor (pr_root adam) (tl [str ''users'', str ''Adam''])"
    "pr_root adam \<notin> Some ` {Root.Temp, Root.Cache}"
    by (simp_all add: own_container_def own_install_dir_def adam_def image_def)
  ultimately show ?thesis
    using sandbox_confinement [OF adam_parse components_repr [OF adam_repr], of editor Read] by auto
qed

text \<open>
  C13. Users are isolated from each other. A subject that does not act for the owner of a home directory,
  and is neither the kernel nor a system service or updater, is denied every operation on everything in
  that home, whatever it was granted.
\<close>

theorem cross_user_isolation:
  assumes "LkoPathRef_parse t = Ret (Inr p)" "components p = Ret (users # owner # rest)"
    and "pr_root p = Some Root.Users"
    and "\<forall>u. sj_user s = Some u \<longrightarrow> \<not> eq_ignore_ascii_case u owner"
    and "sj_class s \<notin> {Kernel, SystemService, SystemUpdater}"
  shows "\<exists>reason. evaluate s p operation = Ret (Deny reason)"
proof -
  have repr: "path_repr p (users # owner # rest)" by (rule parsed_repr [OF assms(1,2)])
  have "crosses_user s p = Ret True"
    using assms(3-5) by (simp add: crosses_user_on [OF repr] foreign_home_def)
  then show ?thesis
    using assms(3,5) effective_protection_on [OF repr] by (auto simp: evaluate_def driver_rule_def)
qed

theorem cross_user_isolation_witness:
  "\<exists>reason. evaluate ((Subject_new UserShell)\<lparr>sj_user := Some (str ''eve'')\<rparr>) adam Read = Ret (Deny reason)"
proof -
  have "pr_root adam = Some Root.Users" by (simp add: adam_def)
  then show ?thesis
    using cross_user_isolation [OF adam_parse components_repr [OF adam_repr],
      of "(Subject_new UserShell)\<lparr>sj_user := Some (str ''eve'')\<rparr>" Read]
    by (simp add: Subject_new_def eq_ignore_ascii_case_def str_def to_ascii_lowercase_def)
qed

text \<open>
  C34. Loko AI never overwrites, renames or deletes on its own initiative outside the scratch roots: a
  destructive operation of the AI is allowed outright only under \<open>Temp\<close> and \<open>Cache\<close>; anywhere else
  it is either denied or needs the user's confirmation of an AI-initiated change.
\<close>

theorem ai_destruction_needs_user:
  assumes "LkoPathRef_parse t = Ret (Inr p)" "subject_ok s" "sj_class s = AiAgent" "is_destructive operation"
  shows "\<exists>d. evaluate s p operation = Ret d \<and>
    (if pr_root p \<in> Some ` {Root.Temp, Root.Cache} then d = Allow
     else d = Decision.Confirm AiInitiatedChange \<or> (\<exists>reason. d = Deny reason))"
proof -
  obtain cs where repr: "path_repr p cs" using parse_sound [OF assms(1)] by blast
  note parts = effective_protection_on [OF repr] crosses_user_on [OF repr]
    has_grant_covering_on [OF repr assms(2)]
  have "operation \<noteq> ChangePermissions" "Operation_is_mutating operation"
    using assms(4) by (cases operation; simp)+
  then show ?thesis
    using assms(3,4) by (auto simp: evaluate_def parts foreign_home_def)
qed

lemma subject_ok_new [simp]: "subject_ok (Subject_new c)"
  by (simp add: subject_ok_def Subject_new_def)

theorem ai_destruction_needs_user_witness:
  "evaluate (Subject_new AiAgent) (root_path Root.Cache) Delete = Ret Allow \<and>
   evaluate (Subject_new AiAgent) (root_path Root.Store) Delete \<noteq> Ret Allow"
proof -
  have "sj_class (Subject_new AiAgent) = AiAgent" by (simp add: Subject_new_def)
  then show ?thesis
    using ai_destruction_needs_user [OF root_path_parse, of "Subject_new AiAgent" Delete Root.Cache]
      ai_destruction_needs_user [OF root_path_parse, of "Subject_new AiAgent" Delete Root.Store]
    by (auto simp: root_path_def)
qed

text \<open>
  Foreign applications are kept away from the system and from silent changes. A compatibility
  runtime is denied every operation, reading included, under \<open>System\<close>, \<open>Drivers\<close>, \<open>Boot\<close>,
  \<open>Recovery\<close> and \<open>Services\<close>; and an operation that changes something is allowed outright only in the
  scratch roots.
\<close>

theorem foreign_applications_contained:
  assumes "LkoPathRef_parse t = Ret (Inr p)" "subject_ok s" "sj_class s = CompatibilityRuntime"
  shows "\<exists>d. evaluate s p operation = Ret d \<and>
    (pr_root p \<in> Some ` {Root.System, Root.Drivers, Root.Boot, Root.Recovery, Root.Services} \<longrightarrow>
       (\<exists>reason. d = Deny reason)) \<and>
    (Operation_is_mutating operation \<and> d = Allow \<longrightarrow> pr_root p \<in> Some ` {Root.Temp, Root.Cache})"
proof -
  obtain cs where repr: "path_repr p cs" using parse_sound [OF assms(1)] by blast
  note parts = effective_protection_on [OF repr] crosses_user_on [OF repr]
    has_grant_covering_on [OF repr assms(2)]
  show ?thesis using assms(3) by (auto simp: evaluate_def parts)
qed

theorem foreign_applications_contained_witness:
  "\<exists>reason. evaluate (Subject_new CompatibilityRuntime) (root_path Root.System) Inspect = Ret (Deny reason)"
  using foreign_applications_contained [OF root_path_parse, of "Subject_new CompatibilityRuntime" Root.System Inspect]
  by (auto simp: Subject_new_def root_path_def subject_ok_def)

text \<open>
  A user's own files need the user's grant. Where the location is user-owned, any subject other than
  the kernel, the user's shell and a sandboxed application (which has its own rule) that no grant covers
  is denied every operation.
\<close>

theorem user_files_need_grant:
  assumes "LkoPathRef_parse t = Ret (Inr p)" "subject_ok s" "effective_protection p = Ret UserOwned"
    and "sj_class s \<notin> {Kernel, UserShell, SandboxedApp}"
    and "\<forall>g \<in> set (sj_grants s). is_within p g \<noteq> Ret True"
  shows "\<exists>reason. evaluate s p operation = Ret (Deny reason)"
proof -
  obtain cs where repr: "path_repr p cs" using parse_sound [OF assms(1)] by blast
  have "run_find (\<lambda>g. is_within p g) (sj_grants s) \<noteq> Ret (Some g)" for g
    using assms(5) run_find_Some_in [of "is_within p" "sj_grants s" g]
      run_find_Some_holds [of "is_within p" "sj_grants s" g] by blast
  then have "has_grant_covering s p = Ret False"
    using has_grant_covering_on [OF repr assms(2)]
    by (auto simp: has_grant_covering_def split: Option.bind_splits)
  moreover have "pr_root p \<notin> Some ` {Root.Temp, Root.Cache, Root.Logs, Root.Drivers}"
    using assms(3) effective_protection_on [OF repr] by auto
  ultimately show ?thesis
    using assms(3,4) crosses_user_on [OF repr]
    by (auto simp: evaluate_def driver_rule_def)
qed

theorem user_files_need_grant_witness:
  "\<exists>reason. evaluate (Subject_new UserApp) (root_path Root.Lowser) Read = Ret (Deny reason)"
proof -
  have "effective_protection (root_path Root.Lowser) = Ret UserOwned"
    using effective_protection_on [OF root_path_repr [of Root.Lowser]] by (simp add: root_path_def)
  then show ?thesis
    using user_files_need_grant [OF root_path_parse subject_ok_new, of Root.Lowser UserApp Read]
    by (simp add: Subject_new_def)
qed

text \<open>
  More grants never take anything away. Adding a grant leaves every verdict other than \<open>NoGrant\<close> as it
  was, and changes a verdict only for a user-owned location inside the granted subtree.
\<close>

theorem grants_monotone:
  assumes "LkoPathRef_parse t = Ret (Inr p)" "subject_ok s" "LkoPathRef_parse u = Ret (Inr g)"
  shows "\<exists>d d'. evaluate s p operation = Ret d \<and>
    evaluate (s\<lparr>sj_grants := g # sj_grants s\<rparr>) p operation = Ret d' \<and>
    (d \<noteq> Deny NoGrant \<longrightarrow> d' = d) \<and>
    (d' \<noteq> d \<longrightarrow> is_within p g = Ret True \<and> effective_protection p = Ret UserOwned)"
proof -
  obtain cs where repr: "path_repr p cs" using parse_sound [OF assms(1)] by blast
  obtain ds where ds: "path_repr g ds" using parse_sound [OF assms(3)] by blast
  let ?s = "s\<lparr>sj_grants := g # sj_grants s\<rparr>"
  have ok: "subject_ok ?s" using assms(2,3) by (auto simp: subject_ok_def)
  have "covers cs g = starts_like eq_ignore_ascii_case cs ds" using ds path_repr_unique by auto
  then have within: "is_within p g = Ret (covers cs g)" using tree.within_repr [OF repr ds] by simp
  have same: "foreign_home ?s = foreign_home s" "own_container ?s = own_container s"
      "own_install_dir ?s = own_install_dir s"
    by (simp_all add: fun_eq_iff foreign_home_def own_container_def own_install_dir_def)
  note parts = effective_protection_on [OF repr] crosses_user_on [OF repr] sandbox_permits_on [OF repr]
    has_grant_covering_on [OF repr assms(2)] has_grant_covering_on [OF repr ok]
  show ?thesis
    using within by (auto simp: evaluate_def same parts simp del: covers.simps)
qed

theorem grants_monotone_witness:
  "\<exists>d d'. evaluate (Subject_new UserApp) (root_path Root.Lowser) Read = Ret d \<and>
    evaluate (Subject_new UserApp\<lparr>sj_grants := [root_path Root.Lowser]\<rparr>) (root_path Root.Lowser) Read = Ret d' \<and>
    (d \<noteq> Deny NoGrant \<longrightarrow> d' = d)"
  using grants_monotone [OF root_path_parse subject_ok_new root_path_parse, of UserApp Root.Lowser Read Root.Lowser]
  by (auto simp: Subject_new_def)

section \<open>One location, one verdict\<close>

lemma next_is_cong: "list_all2 eq_ignore_ascii_case t t' \<Longrightarrow> next_is t name = next_is t' name"
  by (cases t; cases t') (auto simp: eq_ignore_ascii_case_def)

lemma hd_cong:
  "list_all2 eq_ignore_ascii_case t t' \<Longrightarrow> t \<noteq> [] \<Longrightarrow> eq_ignore_ascii_case (hd t) (hd t') \<and> t' \<noteq> []"
  by (cases t; cases t') auto

lemma tl_cong: "list_all2 eq_ignore_ascii_case t t' \<Longrightarrow> list_all2 eq_ignore_ascii_case (tl t) (tl t')"
  by (cases t; cases t') auto

lemma covers_cong:
  assumes "list_all2 eq_ignore_ascii_case cs cs'"
  shows "covers cs g = covers cs' g"
proof -
  have "starts_like eq_ignore_ascii_case cs cs'" "starts_like eq_ignore_ascii_case cs' cs"
    using assms list_all2_lengthD [OF assms]
    by (auto simp: starts_like_iff list_all2_conv_all_nth eq_ignore_ascii_case_def)
  then show ?thesis using tree.like_trans by (metis covers.simps)
qed

lemma parts_cong:
  assumes "list_all2 eq_ignore_ascii_case t t'"
  shows "protection_at root t = protection_at root t'" "foreign_home s root t = foreign_home s root t'"
    "own_container s root t = own_container s root t'" "own_install_dir s root t = own_install_dir s root t'"
proof -
  have nx: "next_is t name = next_is t' name" "next_is (drop n t) name = next_is (drop n t') name" for n name
    using next_is_cong [OF assms] next_is_cong [OF list_all2_dropI [OF assms]] by auto
  show "protection_at root t = protection_at root t'" by (cases root) (simp_all add: nx)
  show "own_container s root t = own_container s root t'" "own_install_dir s root t = own_install_dir s root t'"
    by (simp_all add: own_container_def own_install_dir_def nx)
  show "foreign_home s root t = foreign_home s root t'"
    using assms by (cases t; cases t') (auto simp: foreign_home_def eq_ignore_ascii_case_def)
qed

text \<open>
  C21. One location, one verdict. Two accepted spellings whose components agree up to ASCII case get the
  same verdict for every subject and operation: neither the case of a name, nor the volume prefix, nor a
  trailing separator can be used to get around a rule.
\<close>

theorem verdict_ignores_spelling:
  assumes "LkoPathRef_parse t = Ret (Inr p)" "LkoPathRef_parse t' = Ret (Inr p')"
    and "components p = Ret cs" "components p' = Ret cs'" "list_all2 eq_ignore_ascii_case cs cs'"
    and "subject_ok s"
  shows "evaluate s p operation = evaluate s p' operation"
proof -
  have repr: "path_repr p cs" "path_repr p' cs'" using parsed_repr assms(1-4) by blast+
  have root: "pr_root p' = pr_root p"
    using root_repr [OF repr(1)] root_repr [OF repr(2)] assms(5) hd_cong [OF assms(5)] Root_parse_cong
    by (cases "cs = []") auto
  note parts = policy_on(1,3,4) [OF repr(1)] policy_on(1,3,4) [OF repr(2)]
    has_grant_covering_on [OF repr(1) assms(6)] has_grant_covering_on [OF repr(2) assms(6)]
  show ?thesis
    unfolding evaluate_def parts root parts_cong [OF tl_cong [OF assms(5)]] covers_cong [OF assms(5)]
    by (rule refl)
qed

theorem verdict_ignores_spelling_witness:
  "evaluate editor adam Write = evaluate editor (adam\<lparr>pr_raw := str ''/users/Adam''\<rparr>) Write"
  using verdict_ignores_spelling [OF adam_parse adam_short_parse components_repr [OF adam_repr]
    components_repr [OF adam_short_repr], of editor Write]
  by (simp add: editor_def subject_ok_def Subject_new_def)

text \<open>
  Every question has an answer that can be reported. For a parsed path and a subject whose grants
  are parsed paths the policy never panics; the operation may go ahead exactly when there is no error to
  return; a denial surfaces as an error that belongs in the security log and is not retried.
\<close>

theorem verdict_total:
  assumes "LkoPathRef_parse t = Ret (Inr p)" "subject_ok s"
  shows "\<exists>d. evaluate s p operation = Ret d \<and> (is_allowed d \<longleftrightarrow> Decision_as_error d = None) \<and>
    (case d of Deny reason \<Rightarrow>
        \<exists>e. Decision_as_error d = Some e \<and> is_security_relevant e \<and> \<not> is_retryable e
     | Decision.Confirm _ \<Rightarrow> Decision_as_error d = Some ConfirmationRequired
     | Allow \<Rightarrow> True)"
proof -
  obtain cs where repr: "path_repr p cs" using parse_sound [OF assms(1)] by blast
  have "\<exists>d. evaluate s p operation = Ret d"
    by (simp add: evaluate_def policy_on(1,3,4) [OF repr] has_grant_covering_on [OF repr assms(2)])
  then obtain d where d: "evaluate s p operation = Ret d" by blast
  have "is_security_relevant (DenyReason_as_error reason) \<and> \<not> is_retryable (DenyReason_as_error reason)" for reason
    by (cases reason) simp_all
  with d show ?thesis by (cases d) auto
qed

theorem verdict_total_witness:
  "\<exists>d. evaluate editor adam Write = Ret d"
  using verdict_total [OF adam_parse, of editor Write]
  by (auto simp: editor_def subject_ok_def Subject_new_def)

section \<open>Where the rules are wider than their descriptions\<close>

text \<open>
  Rule 4 protects what is inside a home, not the directory of homes: a user's shell may delete
  \<open>LKO/Users\<close>.
\<close>

lemma shell_may_remove_all_homes:
  "evaluate ((Subject_new UserShell)\<lparr>sj_user := Some (str ''eve'')\<rparr>) (root_path Root.Users) Delete = Ret Allow"
  using policy_on(1,3) [OF root_path_repr [of Root.Users]]
  by (simp add: evaluate_def root_path_def foreign_home_def Subject_new_def)

text \<open>
  Rule 9, \<^emph>\<open>changing permissions is always a decision the user makes\<close>, comes after the scratch roots: there,
  permissions are changed without a confirmation.
\<close>

lemma scratch_permission_change_unasked:
  "evaluate (Subject_new UserApp) (root_path Root.Temp) ChangePermissions = Ret Allow"
  using policy_on(1,3) [OF root_path_repr [of Root.Temp]]
  by (simp add: evaluate_def root_path_def foreign_home_def Subject_new_def)

end
