(* ===== verification/Lko_Layout.thy ===== *)
theory Lko_Layout
  imports Lko_Path
begin

text \<open>
  The directories LokoOS creates, \<^verbatim>\<open>src/filesystem/lkofs-core/src/lib.rs\<close>: those of a fresh volume, in
  creation order, and those of a new home. What the installer relies on is proved against the parser of paths.
\<close>

section \<open>The two lists\<close>

definition INITIAL_LAYOUT :: "rstr list" where
  "INITIAL_LAYOUT = map str [
     ''LKO/System'', ''LKO/System/Kernel'', ''LKO/System/Core'', ''LKO/System/Desktop'',
     ''LKO/System/WindowManager'', ''LKO/System/Security'', ''LKO/System/Networking'', ''LKO/System/Graphics'',
     ''LKO/System/SystemServices'', ''LKO/Users'', ''LKO/Apps'', ''LKO/Drivers'', ''LKO/Drivers/Graphics'',
     ''LKO/Drivers/Network'', ''LKO/Drivers/Audio'', ''LKO/Drivers/Storage'', ''LKO/Drivers/USB'',
     ''LKO/Drivers/Input'', ''LKO/Services'', ''LKO/Services/Network'', ''LKO/Services/Update'',
     ''LKO/Services/Security'', ''LKO/Services/Audio'', ''LKO/Services/Bluetooth'', ''LKO/Services/AI'',
     ''LKO/Runtime'', ''LKO/Runtime/Loko'', ''LKO/Config'', ''LKO/Config/System'', ''LKO/Config/Users'',
     ''LKO/Config/Network'', ''LKO/Config/Security'', ''LKO/Config/Appearance'', ''LKO/Config/Applications'',
     ''LKO/Data'', ''LKO/Data/Applications'', ''LKO/Data/Packages'', ''LKO/Data/Index'', ''LKO/Data/Database'',
     ''LKO/Temp'', ''LKO/Cache'', ''LKO/Logs'', ''LKO/Recovery'', ''LKO/Boot'', ''LKO/AI'', ''LKO/AI/Models'',
     ''LKO/AI/Runtime'', ''LKO/AI/Plugins'', ''LKO/AI/Memory'', ''LKO/AI/Config'', ''LKO/Linder'',
     ''LKO/Linder/Index'', ''LKO/Linder/Database'', ''LKO/Linder/Search'', ''LKO/Linder/AI'',
     ''LKO/Linder/Config'', ''LKO/Lowser'', ''LKO/Lowser/Profiles'', ''LKO/Lowser/Extensions'',
     ''LKO/Lowser/Cache'', ''LKO/Lowser/Downloads'', ''LKO/Lowser/Data'', ''LKO/Lowser/Config'', ''LKO/Store'',
     ''LKO/Store/Packages'', ''LKO/Store/Downloads'', ''LKO/Store/Metadata'', ''LKO/Store/Cache'',
     ''LKO/Compatibility'', ''LKO/Compatibility/Shared'', ''LKO/Dev'']"

definition USER_HOME_LAYOUT :: "rstr list" where
  "USER_HOME_LAYOUT = map str [
     ''Desktop'', ''Documents'', ''Downloads'', ''Pictures'', ''Videos'', ''Music'', ''Projects'', ''AppData'']"

section \<open>The tree they describe\<close>

text \<open>Each entry as a root and the names below it.\<close>

definition layout_tree :: "(Root \<times> string list) list" where
  "layout_tree = [
     (Root.System, []), (Root.System, [''Kernel'']), (Root.System, [''Core'']), (Root.System, [''Desktop'']),
     (Root.System, [''WindowManager'']), (Root.System, [''Security'']), (Root.System, [''Networking'']),
     (Root.System, [''Graphics'']), (Root.System, [''SystemServices'']), (Root.Users, []), (Root.Apps, []),
     (Root.Drivers, []), (Root.Drivers, [''Graphics'']), (Root.Drivers, [''Network'']),
     (Root.Drivers, [''Audio'']), (Root.Drivers, [''Storage'']), (Root.Drivers, [''USB'']),
     (Root.Drivers, [''Input'']), (Root.Services, []), (Root.Services, [''Network'']),
     (Root.Services, [''Update'']), (Root.Services, [''Security'']), (Root.Services, [''Audio'']),
     (Root.Services, [''Bluetooth'']), (Root.Services, [''AI'']), (Root.Runtime, []),
     (Root.Runtime, [''Loko'']), (Root.Config, []), (Root.Config, [''System'']), (Root.Config, [''Users'']),
     (Root.Config, [''Network'']), (Root.Config, [''Security'']), (Root.Config, [''Appearance'']),
     (Root.Config, [''Applications'']), (Root.Data, []), (Root.Data, [''Applications'']),
     (Root.Data, [''Packages'']), (Root.Data, [''Index'']), (Root.Data, [''Database'']), (Root.Temp, []),
     (Root.Cache, []), (Root.Logs, []), (Root.Recovery, []), (Root.Boot, []), (Root.Ai, []),
     (Root.Ai, [''Models'']), (Root.Ai, [''Runtime'']), (Root.Ai, [''Plugins'']), (Root.Ai, [''Memory'']),
     (Root.Ai, [''Config'']), (Root.Linder, []), (Root.Linder, [''Index'']), (Root.Linder, [''Database'']),
     (Root.Linder, [''Search'']), (Root.Linder, [''AI'']), (Root.Linder, [''Config'']), (Root.Lowser, []),
     (Root.Lowser, [''Profiles'']), (Root.Lowser, [''Extensions'']), (Root.Lowser, [''Cache'']),
     (Root.Lowser, [''Downloads'']), (Root.Lowser, [''Data'']), (Root.Lowser, [''Config'']), (Root.Store, []),
     (Root.Store, [''Packages'']), (Root.Store, [''Downloads'']), (Root.Store, [''Metadata'']),
     (Root.Store, [''Cache'']), (Root.Compatibility, []), (Root.Compatibility, [''Shared'']), (Root.Dev, [])]"

definition entry_components :: "Root \<times> string list \<Rightarrow> rstr list" where
  "entry_components e = Root_name (fst e) # map str (snd e)"

definition entry_string :: "Root \<times> string list \<Rightarrow> rstr" where
  "entry_string e = LKO_PREFIX @ slash # join_with slash (entry_components e)"

lemma str_inject [simp]: "str a = str b \<longleftrightarrow> a = b"
proof -
  have "inj (of_char :: char \<Rightarrow> nat)" by (rule inj_of_char)
  then show ?thesis by (simp add: str_def inj_map_eq_map)
qed

lemma layout_entries: "INITIAL_LAYOUT = map entry_string layout_tree"
  by (simp add: INITIAL_LAYOUT_def layout_tree_def entry_string_def entry_components_def LKO_PREFIX_def str_def)

lemma layout_names: "\<forall>e \<in> set layout_tree. \<forall>n \<in> set (snd e). component_ok (str n)"
  by (simp add: layout_tree_def component_ok_def str_def is_control_def is_line_separator_def is_bidi_override_def
    char_len_def)

lemma layout_lengths: "\<forall>e \<in> set layout_tree. str_len (entry_string e) \<le> MAX_PATH_LEN"
  by (simp add: layout_tree_def entry_string_def entry_components_def LKO_PREFIX_def str_def char_len_def MAX_PATH_LEN_def)

lemma entry_ok: "e \<in> set layout_tree \<Longrightarrow> list_all component_ok (entry_components e)"
  using layout_names Root_name_ok by (auto simp: entry_components_def list_all_iff)

definition entry_path :: "Root \<times> string list \<Rightarrow> LkoPathRef" where
  "entry_path e = \<lparr>pr_raw = entry_string e, pr_root = Some (fst e)\<rparr>"

lemma entry_repr: "e \<in> set layout_tree \<Longrightarrow> path_repr (entry_path e) (entry_components e)"
proof (rule path_reprI)
  show "volume_prefix (LKO_PREFIX @ [slash])" by (auto simp: volume_prefix_def eq_ignore_ascii_case_def)
qed (auto simp: entry_ok, auto simp: entry_components_def entry_path_def entry_string_def)

lemma entry_parse: "e \<in> set layout_tree \<Longrightarrow> LkoPathRef_parse (entry_string e) = Ret (Inr (entry_path e))"
  using parse_complete [OF entry_repr] layout_lengths by (simp add: entry_path_def)

text \<open>Every directory comes after the one that contains it; \<open>seen\<close> are those already created.\<close>

fun parents_first :: "(Root \<times> string list) list \<Rightarrow> (Root \<times> string list) list \<Rightarrow> bool" where
  "parents_first seen [] = True"
| "parents_first seen (e # es) =
     ((snd e = [] \<or> (fst e, butlast (snd e)) \<in> set seen) \<and> parents_first (e # seen) es)"

lemma layout_parents_first: "parents_first [] layout_tree"
  by (simp add: layout_tree_def)

lemma layout_distinct: "distinct layout_tree"
  by (simp add: layout_tree_def)

lemma layout_roots: "(r, []) \<in> set layout_tree"
  by (cases r) (simp_all add: layout_tree_def)

lemma parents_first_nth:
  "parents_first seen es \<Longrightarrow> i < length es \<Longrightarrow>
     snd (es ! i) = [] \<or> (fst (es ! i), butlast (snd (es ! i))) \<in> set seen \<union> set (take i es)"
proof (induction es arbitrary: seen i)
  case (Cons e es)
  show ?case
  proof (cases i)
    case 0
    with Cons.prems show ?thesis by simp
  next
    case (Suc j)
    with Cons.IH [of "e # seen" j] Cons.prems show ?thesis by auto
  qed
qed simp

section \<open>What the installer relies on\<close>

text \<open>
  A fresh volume can be laid out from the list in its order. Every entry is a valid path in canonical spelling;
  its parent is the volume root or one of the entries before it; no entry occurs twice; every root has its directory,
  and the optional runtimes have none.
\<close>

theorem initial_layout_ready:
  "(\<forall>i < length INITIAL_LAYOUT. \<exists>p q. LkoPathRef_parse (INITIAL_LAYOUT ! i) = Ret (Inr p) \<and>
      LkoPathRef_as_str p = INITIAL_LAYOUT ! i \<and> parent p = Ret (Some q) \<and>
      (components q = Ret [] \<or>
       (\<exists>j < i. \<exists>p'. LkoPathRef_parse (INITIAL_LAYOUT ! j) = Ret (Inr p') \<and> components p' = components q))) \<and>
   distinct INITIAL_LAYOUT \<and>
   (\<forall>r. LKO_PREFIX @ slash # Root_name r \<in> set INITIAL_LAYOUT) \<and>
   str ''LKO/Runtime/Windows'' \<notin> set INITIAL_LAYOUT \<and> str ''LKO/Runtime/Mac'' \<notin> set INITIAL_LAYOUT \<and>
   str ''LKO/Compatibility/Windows'' \<notin> set INITIAL_LAYOUT"
proof (intro conjI allI impI)
  fix i assume i: "i < length INITIAL_LAYOUT"
  let ?e = "layout_tree ! i"
  have e: "?e \<in> set layout_tree" "INITIAL_LAYOUT ! i = entry_string ?e" "i < length layout_tree"
    using i by (simp_all add: layout_entries)
  have "str_len (pr_raw (entry_path ?e)) + 4 < 2 ^ 64"
    using layout_lengths e(1) by (fastforce simp: entry_path_def MAX_PATH_LEN_def)
  from parent_repr [OF entry_repr [OF e(1)] this] obtain q where
    q: "parent (entry_path ?e) = Ret (Some q)" "path_repr q (butlast (entry_components ?e))"
    by (auto simp: entry_components_def)
  note up = components_repr [OF q(2)]
  have "components q = Ret [] \<or> (\<exists>j < i. \<exists>p'. LkoPathRef_parse (INITIAL_LAYOUT ! j) = Ret (Inr p') \<and> components p' = components q)"
  proof (cases "snd ?e = []")
    case True
    then show ?thesis using up by (simp add: entry_components_def)
  next
    case False
    let ?d = "(fst ?e, butlast (snd ?e))"
    have "?d \<in> set (take i layout_tree)" using parents_first_nth [OF layout_parents_first e(3)] False by simp
    then obtain j where j: "j < i" "layout_tree ! j = ?d" using e(3) by (auto simp: in_set_conv_nth)
    then have d: "?d \<in> set layout_tree" "INITIAL_LAYOUT ! j = entry_string ?d"
      using e(3) nth_mem [of j layout_tree] by (simp_all add: layout_entries)
    have "entry_components ?d = butlast (entry_components ?e)"
      using False by (simp add: entry_components_def map_butlast)
    then show ?thesis
      using j(1) d(2) entry_parse [OF d(1)] components_repr [OF entry_repr [OF d(1)]] up by auto
  qed
  then show "\<exists>p q. LkoPathRef_parse (INITIAL_LAYOUT ! i) = Ret (Inr p) \<and>
      LkoPathRef_as_str p = INITIAL_LAYOUT ! i \<and> parent p = Ret (Some q) \<and>
      (components q = Ret [] \<or>
       (\<exists>j < i. \<exists>p'. LkoPathRef_parse (INITIAL_LAYOUT ! j) = Ret (Inr p') \<and> components p' = components q))"
    using entry_parse [OF e(1)] e(2) q(1) by (auto simp: LkoPathRef_as_str_def entry_path_def)
next
  have "x = y" if "x \<in> set layout_tree" "y \<in> set layout_tree" "entry_string x = entry_string y" for x y
  proof -
    have p: "path_repr (entry_path x) (entry_components x)" "path_repr (entry_path y) (entry_components y)"
      using entry_repr that(1,2) by blast+
    have "entry_path x = entry_path y"
      using entry_parse [OF that(1)] entry_parse [OF that(2)] that(3) by simp
    then have "entry_components x = entry_components y" "fst x = fst y"
      using components_repr [OF p(1)] components_repr [OF p(2)] by (simp_all add: entry_path_def)
    then show ?thesis by (auto simp: entry_components_def prod_eq_iff inj_map_eq_map [of str] inj_def)
  qed
  then show "distinct INITIAL_LAYOUT" by (simp add: layout_entries distinct_map layout_distinct inj_on_def)
next
  fix r
  have "entry_string (r, []) \<in> set INITIAL_LAYOUT" using layout_roots by (simp only: layout_entries set_map imageI)
  then show "LKO_PREFIX @ slash # Root_name r \<in> set INITIAL_LAYOUT" by (simp add: entry_string_def entry_components_def)
qed (simp_all add: INITIAL_LAYOUT_def)

text \<open>
  A new home can be filled. For any user's home, each of its directories can be joined onto it and lies within it; the names
  are distinct, and the one sandboxed applications write below is among them.
\<close>

theorem new_home_ready:
  assumes "LkoPath_parse s = Ret (Inr home)" "components (LkoPath_as_ref home) = Ret [users, name]"
    and "str_len (lp_inner home) + 10 \<le> 4096"
  shows "(\<forall>dir \<in> set USER_HOME_LAYOUT. \<exists>q. join home dir = Ret (Inr q) \<and>
      components (LkoPath_as_ref q) = Ret [users, name, dir] \<and>
      is_within (LkoPath_as_ref q) (LkoPath_as_ref home) = Ret True) \<and>
    distinct USER_HOME_LAYOUT \<and> str ''AppData'' \<in> set USER_HOME_LAYOUT"
proof (intro conjI ballI)
  fix dir assume dir: "dir \<in> set USER_HOME_LAYOUT"
  have ok: "component_ok dir" "str_len dir \<le> 9"
    using dir by (auto simp: USER_HOME_LAYOUT_def component_ok_def str_def is_control_def is_line_separator_def
      is_bidi_override_def char_len_def str_len_def)
  obtain cs where "owned_repr home cs" using LkoPath_parse_sound [OF assms(1)] by blast
  with assms(2) have home: "owned_repr home [users, name]"
    using components_repr [of "LkoPath_as_ref home" cs] by (simp add: owned_repr_def)
  have "str_len (canonical [users, name, dir]) = str_len (lp_inner home) + 1 + str_len dir"
    using home canonical_snoc [of "[users, name]" dir] by (simp add: owned_repr_def char_len_def)
  then obtain q where q: "join home dir = Ret (Inr q)" "owned_repr q [users, name, dir]"
    using join_repr [OF home, of dir] ok assms(3) by (auto simp: MAX_PATH_LEN_def)
  then have "path_repr (LkoPath_as_ref q) [users, name, dir]" "path_repr (LkoPath_as_ref home) [users, name]"
    using home by (simp_all add: owned_repr_def)
  then show "\<exists>q. join home dir = Ret (Inr q) \<and> components (LkoPath_as_ref q) = Ret [users, name, dir] \<and>
      is_within (LkoPath_as_ref q) (LkoPath_as_ref home) = Ret True"
    using q(1) components_repr tree.within_repr tree.same_refl by fastforce
qed (simp_all add: USER_HOME_LAYOUT_def)

theorem new_home_ready_witness:
  "\<exists>q. join \<lparr>lp_inner = str ''LKO/users/Adam'', lp_root = Some Root.Users\<rparr> (str ''AppData'') = Ret (Inr q)"
proof -
  let ?q = "\<lparr>lp_inner = str ''LKO/users/Adam'', lp_root = Some Root.Users\<rparr>"
  obtain p cs where p: "LkoPathRef_parse (str ''lko/users/Adam/'') = Ret (Inr p)" "path_repr p cs" "owned_repr ?q cs"
    using LkoPath_parse_sound [OF adam_owned] by blast
  have "p = adam" using p(1) adam_parse by simp
  then have "cs = [str ''users'', str ''Adam'']" using components_repr [OF p(2)] components_repr [OF adam_repr] by simp
  with p(3) have "owned_repr ?q [str ''users'', str ''Adam'']" by simp
  then have "components (LkoPath_as_ref ?q) = Ret [str ''users'', str ''Adam'']"
    using components_repr unfolding owned_repr_def by blast
  moreover have "str_len (lp_inner ?q) + 10 \<le> 4096" by (simp add: str_def char_len_def str_len_def)
  ultimately show ?thesis using new_home_ready [OF adam_owned] by blast
qed

end
