(* ===== verification/Permissions.thy ===== *)
theory Permissions
  imports Abi_Error
begin

text \<open>
  Application permissions, \<^verbatim>\<open>src/security/loko-security/src/permission.rs\<close>. An application's
  record is two arrays of twelve entries, one per permission. The record evolves by the operations the
  system calls on it; \<open>event\<close> and \<open>run_events\<close> put any sequence of them in one place, and the
  promises of the module are stated over all such sequences.
\<close>

section \<open>Permissions and grants\<close>

datatype Permission =
    Files | Camera | Microphone | Network
  | Notifications | Clipboard | Location | Ai
  | SystemSettings | Bluetooth | ScreenCapture | RunAtLogin

fun discriminant :: "Permission \<Rightarrow> nat" where
  "discriminant Permission.Files = 1"
| "discriminant Permission.Camera = 2"
| "discriminant Permission.Microphone = 3"
| "discriminant Permission.Network = 4"
| "discriminant Permission.Notifications = 5"
| "discriminant Permission.Clipboard = 6"
| "discriminant Permission.Location = 7"
| "discriminant Permission.Ai = 8"
| "discriminant Permission.SystemSettings = 9"
| "discriminant Permission.Bluetooth = 10"
| "discriminant Permission.ScreenCapture = 11"
| "discriminant Permission.RunAtLogin = 12"

definition Permission_ALL :: "Permission list" where
  "Permission_ALL =
    [Permission.Files, Permission.Camera, Permission.Microphone,
     Permission.Network, Permission.Notifications, Permission.Clipboard,
     Permission.Location, Permission.Ai, Permission.SystemSettings,
     Permission.Bluetooth, Permission.ScreenCapture, Permission.RunAtLogin]"

fun Permission_id :: "Permission \<Rightarrow> rstr" where
  "Permission_id Permission.Files = str ''files''"
| "Permission_id Permission.Camera = str ''camera''"
| "Permission_id Permission.Microphone = str ''microphone''"
| "Permission_id Permission.Network = str ''network''"
| "Permission_id Permission.Notifications = str ''notifications''"
| "Permission_id Permission.Clipboard = str ''clipboard''"
| "Permission_id Permission.Location = str ''location''"
| "Permission_id Permission.Ai = str ''ai''"
| "Permission_id Permission.SystemSettings = str ''system-settings''"
| "Permission_id Permission.Bluetooth = str ''bluetooth''"
| "Permission_id Permission.ScreenCapture = str ''screen-capture''"
| "Permission_id Permission.RunAtLogin = str ''run-at-login''"

definition Permission_parse :: "rstr \<Rightarrow> Permission option" where
  "Permission_parse ident = find (\<lambda>p. Permission_id p = ident) Permission_ALL"

fun Permission_prompt :: "Permission \<Rightarrow> rstr" where
  "Permission_prompt Permission.Files = str ''Let this app open your files?''"
| "Permission_prompt Permission.Camera = str ''Let this app use your camera?''"
| "Permission_prompt Permission.Microphone = str ''Let this app use your microphone?''"
| "Permission_prompt Permission.Network = str ''Let this app connect to the internet?''"
| "Permission_prompt Permission.Notifications = str ''Let this app send you notifications?''"
| "Permission_prompt Permission.Clipboard = str ''Let this app read what you've copied?''"
| "Permission_prompt Permission.Location = str ''Let this app know where you are?''"
| "Permission_prompt Permission.Ai = str ''Let this app ask Loko AI on your behalf?''"
| "Permission_prompt Permission.SystemSettings = str ''Let this app change your settings?''"
| "Permission_prompt Permission.Bluetooth = str ''Let this app use Bluetooth?''"
| "Permission_prompt Permission.ScreenCapture = str ''Let this app see what's on your screen?''"
| "Permission_prompt Permission.RunAtLogin = str ''Let this app start when you sign in?''"

fun Permission_consequence :: "Permission \<Rightarrow> rstr" where
  "Permission_consequence Permission.Files = str ''It will be able to read and change files you choose to open with it.''"
| "Permission_consequence Permission.Camera = str ''It will be able to take photos and video while you're using it.''"
| "Permission_consequence Permission.Microphone = str ''It will be able to record sound while you're using it.''"
| "Permission_consequence Permission.Network = str ''It will be able to send and receive data, including anything you put into it.''"
| "Permission_consequence Permission.Notifications = str ''It will be able to show you messages and alerts.''"
| "Permission_consequence Permission.Clipboard = str ''It will be able to read anything you copy, including passwords.''"
| "Permission_consequence Permission.Location = str ''It will be able to see roughly where this device is.''"
| "Permission_consequence Permission.Ai = str ''It will be able to send text to Loko AI. Where that text goes depends on your AI settings.''"
| "Permission_consequence Permission.SystemSettings = str ''It will be able to change how this device is set up.''"
| "Permission_consequence Permission.Bluetooth = str ''It will be able to find and connect to nearby devices.''"
| "Permission_consequence Permission.ScreenCapture = str ''It will be able to see everything on your screen, including other apps.''"
| "Permission_consequence Permission.RunAtLogin = str ''It will start on its own every time you sign in.''"

definition is_covert_capable :: "Permission \<Rightarrow> bool" where
  "is_covert_capable p \<longleftrightarrow>
     p \<in> {Permission.Camera, Permission.Microphone, Permission.Location, Permission.ScreenCapture,
          Permission.Clipboard}"

definition shows_indicator_while_active :: "Permission \<Rightarrow> bool" where
  "shows_indicator_while_active p \<longleftrightarrow>
     p \<in> {Permission.Camera, Permission.Microphone, Permission.ScreenCapture}"

text \<open>The order of the variants is the derived \<^verbatim>\<open>Ord\<close>: from refusal to the widest grant.\<close>

datatype Grant = Denied | Once | WhileInUse | Always

fun Grant_rank :: "Grant \<Rightarrow> nat" where
  "Grant_rank Denied = 0"
| "Grant_rank Once = 1"
| "Grant_rank WhileInUse = 2"
| "Grant_rank Always = 3"

instantiation Grant :: linorder
begin

definition less_eq_Grant :: "Grant \<Rightarrow> Grant \<Rightarrow> bool" where
  "a \<le> b \<longleftrightarrow> Grant_rank a \<le> Grant_rank b"

definition less_Grant :: "Grant \<Rightarrow> Grant \<Rightarrow> bool" where
  "a < b \<longleftrightarrow> Grant_rank a < Grant_rank b"

instance
proof
  fix a b :: Grant
  show "a \<le> b \<Longrightarrow> b \<le> a \<Longrightarrow> a = b"
    by (cases a; cases b) (simp_all add: less_eq_Grant_def)
qed (auto simp: less_eq_Grant_def less_Grant_def)

end

definition strongest_prompt_grant :: "Permission \<Rightarrow> Grant" where
  "strongest_prompt_grant p = (if is_covert_capable p then WhileInUse else Always)"

fun permits :: "Grant \<Rightarrow> bool \<Rightarrow> bool" where
  "permits Denied in_foreground = False"
| "permits Once in_foreground = in_foreground"
| "permits WhileInUse in_foreground = in_foreground"
| "permits Always in_foreground = True"

fun Grant_label :: "Grant \<Rightarrow> rstr" where
  "Grant_label Denied = str ''Don't Allow''"
| "Grant_label Once = str ''Allow Once''"
| "Grant_label WhileInUse = str ''While Using the App''"
| "Grant_label Always = str ''Allow''"

datatype State = NotAsked | Decided Grant

datatype PermissionDenyReason = NotDeclared | UserRefused | NotInForeground | DisabledSystemWide

datatype Outcome = Allow | Prompt | Deny PermissionDenyReason

fun PermissionDenyReason_as_error :: "PermissionDenyReason \<Rightarrow> Error" where
  "PermissionDenyReason_as_error _ = PermissionDenied"

fun PermissionDenyReason_explanation :: "PermissionDenyReason \<Rightarrow> rstr" where
  "PermissionDenyReason_explanation NotDeclared =
     str ''This app didn't say it would need this, so LokoOS won't let it. The app needs to be updated.''"
| "PermissionDenyReason_explanation UserRefused =
     str ''You've turned this off for this app. You can change it in Settings.''"
| "PermissionDenyReason_explanation NotInForeground =
     str ''This app can only do this while you're using it.''"
| "PermissionDenyReason_explanation DisabledSystemWide =
     str ''This is turned off for every app on this device. You can change it in Settings.''"

section \<open>An application's record\<close>

record Record =
  rc_declared :: "bool list"
  rc_state :: "State list"

definition index :: "Permission \<Rightarrow> nat" where
  "index p = discriminant p - 1"

definition Record_new :: "Permission list \<Rightarrow> Record" where
  "Record_new declared =
     foldl (\<lambda>r p. r\<lparr>rc_declared := (rc_declared r)[index p := True]\<rparr>)
       \<lparr>rc_declared = replicate (length Permission_ALL) False,
        rc_state = replicate (length Permission_ALL) NotAsked\<rparr> declared"

definition Record_default :: Record where
  "Record_default = Record_new []"

definition declares :: "Record \<Rightarrow> Permission \<Rightarrow> bool" where
  "declares r p = rc_declared r ! index p"

definition state :: "Record \<Rightarrow> Permission \<Rightarrow> State" where
  "state r p = rc_state r ! index p"

definition decide :: "Record \<Rightarrow> Permission \<Rightarrow> Grant \<Rightarrow> Record" where
  "decide r p grant =
     (if \<not> declares r p then r
      else r\<lparr>rc_state := (rc_state r)[index p := Decided (min grant (strongest_prompt_grant p))]\<rparr>)"

definition set_from_settings :: "Record \<Rightarrow> Permission \<Rightarrow> Grant \<Rightarrow> Record" where
  "set_from_settings r p grant =
     (if \<not> declares r p then r
      else r\<lparr>rc_state := (rc_state r)[index p := Decided grant]\<rparr>)"

definition revoke :: "Record \<Rightarrow> Permission \<Rightarrow> Record" where
  "revoke r p = r\<lparr>rc_state := (rc_state r)[index p := Decided Denied]\<rparr>"

definition end_session :: "Record \<Rightarrow> Record" where
  "end_session r =
     r\<lparr>rc_state := map (\<lambda>s. if s = Decided Once then NotAsked else s) (rc_state r)\<rparr>"

definition check :: "Record \<Rightarrow> Permission \<Rightarrow> bool \<Rightarrow> bool \<Rightarrow> Outcome" where
  "check r p in_foreground enabled_system_wide =
     (if \<not> declares r p then Deny NotDeclared
      else if \<not> enabled_system_wide then Deny DisabledSystemWide
      else case state r p of
             NotAsked \<Rightarrow> Prompt
           | Decided Denied \<Rightarrow> Deny UserRefused
           | Decided grant \<Rightarrow>
               if permits grant in_foreground then Allow else Deny NotInForeground)"

text \<open>What Loko AI itself declares.\<close>

definition LOKO_AI_PERMISSIONS :: "Permission list" where
  "LOKO_AI_PERMISSIONS =
    [Permission.Files, Permission.Network, Permission.Notifications, Permission.Clipboard,
     Permission.SystemSettings, Permission.Microphone, Permission.Camera]"

section \<open>Records over time\<close>

datatype event =
    PromptAnswered Permission Grant
  | SetInSettings Permission Grant
  | Revoked Permission
  | SessionEnded

fun apply_event :: "event \<Rightarrow> Record \<Rightarrow> Record" where
  "apply_event (PromptAnswered p g) r = decide r p g"
| "apply_event (SetInSettings p g) r = set_from_settings r p g"
| "apply_event (Revoked p) r = revoke r p"
| "apply_event SessionEnded r = end_session r"

definition run_events :: "event list \<Rightarrow> Record \<Rightarrow> Record" where
  "run_events es r = fold apply_event es r"

definition record_ok :: "Record \<Rightarrow> bool" where
  "record_ok r \<longleftrightarrow> length (rc_declared r) = 12 \<and> length (rc_state r) = 12"

interpretation permission_ids: code_table Permission_ALL Permission_id
proof unfold_locales
  fix p show "p \<in> set Permission_ALL" by (cases p) (simp_all add: Permission_ALL_def)
qed (simp add: Permission_ALL_def str_def)

interpretation permission_numbers: code_table Permission_ALL discriminant
proof unfold_locales
  fix p show "p \<in> set Permission_ALL" by (cases p) (simp_all add: Permission_ALL_def)
qed (simp add: Permission_ALL_def)

lemma index_less: "index p < 12"
  by (cases p) (simp_all add: index_def)

lemma index_eq_iff: "index p = index q \<longleftrightarrow> p = q"
  using permission_numbers.code_inj [of p q]
  by (cases p; cases q) (simp_all add: index_def)

lemma Record_new_ok: "record_ok (Record_new ds) \<and> (declares (Record_new ds) p \<longleftrightarrow> p \<in> set ds) \<and>
  state (Record_new ds) p = NotAsked"
proof -
  define start where "start = \<lparr>rc_declared = replicate (length Permission_ALL) False,
        rc_state = replicate (length Permission_ALL) NotAsked\<rparr>"
  have len: "length Permission_ALL = 12" by (simp add: Permission_ALL_def)
  let ?f = "\<lambda>r p. r\<lparr>rc_declared := (rc_declared r)[index p := True]\<rparr>"
  have gen: "record_ok r \<Longrightarrow> record_ok (foldl ?f r ds) \<and>
      (declares (foldl ?f r ds) p \<longleftrightarrow> p \<in> set ds \<or> declares r p) \<and>
      rc_state (foldl ?f r ds) = rc_state r" for r :: Record
    by (induction ds arbitrary: r)
      (auto simp: record_ok_def declares_def nth_list_update index_less index_eq_iff)
  have "record_ok start" "\<not> declares start p"
    using index_less [of p] by (simp_all add: start_def record_ok_def len declares_def)
  with gen [of start] show ?thesis
    using index_less [of p] by (simp add: Record_new_def start_def [symmetric] state_def)
      (simp add: start_def len)
qed

text \<open>Each operation, seen through the two accessors.\<close>

lemma apply_event_ok:
  assumes "record_ok r"
  shows "record_ok (apply_event e r)" "declares (apply_event e r) p = declares r p"
  using assms by (cases e; simp add: record_ok_def declares_def decide_def set_from_settings_def revoke_def
    end_session_def)+

lemma state_after:
  assumes "record_ok r"
  shows "state (decide r p g) q =
      (if p = q \<and> declares r p then Decided (min g (strongest_prompt_grant p)) else state r q)"
    "state (set_from_settings r p g) q = (if p = q \<and> declares r p then Decided g else state r q)"
    "state (revoke r p) q = (if p = q then Decided Denied else state r q)"
    "state (end_session r) q = (if state r q = Decided Once then NotAsked else state r q)"
  using assms index_less index_eq_iff
  by (auto simp: state_def decide_def set_from_settings_def revoke_def end_session_def record_ok_def
    nth_list_update)

lemma run_events_ok:
  assumes "record_ok r"
  shows "record_ok (run_events es r) \<and> (declares (run_events es r) p \<longleftrightarrow> declares r p)"
  using assms unfolding run_events_def
  by (induction es arbitrary: r) (auto simp: apply_event_ok)

section \<open>Properties\<close>

text \<open>Running events from an invariant keeps it, when every event that occurs does.\<close>

lemma run_events_invariant:
  assumes "record_ok r" "I r"
    and "\<And>e r. e \<in> set es \<Longrightarrow> record_ok r \<Longrightarrow> I r \<Longrightarrow> I (apply_event e r)"
  shows "I (run_events es r)"
  using assms unfolding run_events_def
  by (induction es arbitrary: r) (auto simp: apply_event_ok)

text \<open>
  A permission the manifest does not declare can never be used, and the user is never asked for it,
  whatever answers, settings, revocations and restarts have happened since installation.
\<close>

theorem undeclared_never_granted:
  assumes "p \<notin> set declared"
  shows "check (run_events es (Record_new declared)) p in_foreground enabled = Deny NotDeclared"
  using assms run_events_ok [of "Record_new declared" es p] Record_new_ok [of declared p]
  by (simp add: check_def)

theorem undeclared_never_granted_witness:
  "check (run_events [SetInSettings Permission.Camera Always] (Record_new [Permission.Files]))
     Permission.Camera True True = Deny NotDeclared"
  by (rule undeclared_never_granted) simp

text \<open>
  C17. A permission that can be used invisibly is never usable in the background unless the user chose
  \<open>Always\<close> for it in Settings: no sequence of answers to prompts, however strong the answer the prompt
  sent, gets an application there.
\<close>

theorem covert_background_needs_settings:
  assumes "is_covert_capable p" "SetInSettings p Always \<notin> set es"
  shows "check (run_events es (Record_new declared)) p False enabled \<noteq> Allow"
proof -
  let ?r = "run_events es (Record_new declared)"
  have "state ?r p \<noteq> Decided Always"
  proof (rule run_events_invariant [of _ "\<lambda>r. state r p \<noteq> Decided Always"])
    fix e r assume e: "e \<in> set es" "record_ok r" "state r p \<noteq> Decided Always"
    have "min g WhileInUse \<noteq> Always" for g
      by (cases g) (simp_all add: min_def less_eq_Grant_def)
    with e assms show "state (apply_event e r) p \<noteq> Decided Always"
      by (cases e rule: event.exhaust) (auto simp: state_after strongest_prompt_grant_def)
  qed (use Record_new_ok [of declared p] in auto)
  then show ?thesis
    by (auto simp: check_def split: State.splits Grant.splits)
qed

theorem covert_background_needs_settings_witness:
  "check (run_events [PromptAnswered Permission.Microphone Always] (Record_new [Permission.Microphone]))
     Permission.Microphone False True \<noteq> Allow"
  by (rule covert_background_needs_settings) (simp_all add: is_covert_capable_def)

text \<open>
  Revocation is immediate and lasts. From the moment a permission is revoked the application is
  refused it, in the foreground or not, and is not allowed to prompt again, until the user answers or sets
  that same permission.
\<close>

theorem revocation_lasts:
  assumes "\<forall>g. PromptAnswered p g \<notin> set later \<and> SetInSettings p g \<notin> set later"
  shows "\<exists>reason. check (run_events (earlier @ Revoked p # later) (Record_new declared)) p in_foreground enabled =
    Deny reason"
proof -
  let ?r = "run_events earlier (Record_new declared)"
  have ok: "record_ok ?r" using run_events_ok Record_new_ok by blast
  have "state (run_events later (revoke ?r p)) p = Decided Denied"
  proof (rule run_events_invariant [of _ "\<lambda>r. state r p = Decided Denied"])
    show "record_ok (revoke ?r p)" using apply_event_ok(1) [OF ok, of "Revoked p"] by simp
    show "state (revoke ?r p) p = Decided Denied" using ok by (simp add: state_after)
  next
    fix e r assume "e \<in> set later" "record_ok r" "state r p = Decided Denied"
    with assms show "state (apply_event e r) p = Decided Denied"
      by (cases e rule: event.exhaust) (auto simp: state_after)
  qed
  moreover have "run_events (earlier @ Revoked p # later) (Record_new declared) =
      run_events later (revoke ?r p)"
    by (simp add: run_events_def)
  ultimately show ?thesis by (auto simp: check_def)
qed

theorem revocation_lasts_witness:
  "\<exists>reason. check (run_events ([SetInSettings Permission.Camera Always] @ Revoked Permission.Camera # [SessionEnded])
     (Record_new [Permission.Camera])) Permission.Camera True True = Deny reason"
  by (rule revocation_lasts) simp

text \<open>The life of one permission, on its own.\<close>

fun permission_step :: "Permission \<Rightarrow> event \<Rightarrow> State \<Rightarrow> State" where
  "permission_step p (PromptAnswered q g) st =
     (if p = q then Decided (min g (strongest_prompt_grant p)) else st)"
| "permission_step p (SetInSettings q g) st = (if p = q then Decided g else st)"
| "permission_step p (Revoked q) st = (if p = q then Decided Denied else st)"
| "permission_step p SessionEnded st = (if st = Decided Once then NotAsked else st)"

text \<open>
  C35. Permissions are independent. The arrays implement, for every declared permission, its own small
  state machine, that moves only on the events about that permission and on the end of a session, which
  withdraws one-time grants and nothing else; an event about one permission never affects another.
\<close>

theorem record_refines_permissions:
  assumes "p \<in> set declared"
  shows "state (run_events es (Record_new declared)) p = fold (permission_step p) es NotAsked"
proof -
  have "record_ok r \<Longrightarrow> declares r p \<Longrightarrow>
      state (fold apply_event es r) p = fold (permission_step p) es (state r p)" for r
  proof (induction es arbitrary: r)
    case (Cons e es)
    have "state (apply_event e r) p = permission_step p e (state r p)"
      using Cons.prems by (cases e) (auto simp: state_after)
    with Cons show ?case by (simp add: apply_event_ok)
  qed simp
  with Record_new_ok [of declared p] assms show ?thesis by (simp add: run_events_def)
qed

theorem record_refines_permissions_witness:
  "state (run_events [PromptAnswered Permission.Camera Once, Revoked Permission.Files, SessionEnded]
     (Record_new [Permission.Camera, Permission.Files])) Permission.Camera = NotAsked"
proof -
  have "Permission.Camera \<in> set [Permission.Camera, Permission.Files]" by simp
  from record_refines_permissions [OF this] show ?thesis
    by (simp add: strongest_prompt_grant_def is_covert_capable_def min_def less_eq_Grant_def)
qed

text \<open>
  C36. A permission record keeps its shape. Whatever happens to it, both arrays keep one entry for each of the twelve
  permissions, so no index is ever out of bounds and no two permissions share an entry; what was declared at installation stays
  declared, and nothing else becomes so; and the most that is stored for a
  permission that was not declared is that the user revoked it.
\<close>

theorem record_well_typed:
  "let r = run_events es (Record_new declared) in
     length (rc_declared r) = 12 \<and> length (rc_state r) = 12 \<and> index p < 12 \<and> (index p = index q \<longleftrightarrow> p = q) \<and>
     (declares r p \<longleftrightarrow> p \<in> set declared) \<and> (p \<in> set declared \<or> state r p = NotAsked \<or> state r p = Decided Denied)"
proof -
  let ?r = "run_events es (Record_new declared)"
  have new: "record_ok (Record_new declared)" "state (Record_new declared) p = NotAsked"
    using Record_new_ok by blast+
  have "p \<notin> set declared \<Longrightarrow> (state ?r p = NotAsked \<or> state ?r p = Decided Denied) \<and> \<not> declares ?r p"
  proof (rule run_events_invariant)
    assume "p \<notin> set declared"
    with new show "(state (Record_new declared) p = NotAsked \<or> state (Record_new declared) p = Decided Denied) \<and> \<not> declares (Record_new declared) p"
      using Record_new_ok by blast
  next
    fix e r assume r: "record_ok r" and still: "(state r p = NotAsked \<or> state r p = Decided Denied) \<and> \<not> declares r p"
    have "state (apply_event e r) p = NotAsked \<or> state (apply_event e r) p = Decided Denied"
      using r still by (cases e) (auto simp: state_after)
    with still show "(state (apply_event e r) p = NotAsked \<or> state (apply_event e r) p = Decided Denied) \<and>
        \<not> declares (apply_event e r) p"
      using apply_event_ok(2) [OF r] by simp
  qed (rule new)
  then show ?thesis
    using run_events_ok [OF new(1), of es p] Record_new_ok [of declared p]
    by (auto simp: Let_def index_less index_eq_iff record_ok_def)
qed

theorem record_well_typed_witness:
  "let r = run_events [PromptAnswered Permission.Camera Always, SessionEnded] (Record_new [Permission.Files]) in
     state r Permission.Camera \<noteq> Decided Always \<and> declares r Permission.Files"
proof -
  have no: "Permission.Camera \<notin> set [Permission.Files]" and yes: "Permission.Files \<in> set [Permission.Files]" by simp_all
  note ok = record_well_typed [where es = "[PromptAnswered Permission.Camera Always, SessionEnded]" and declared = "[Permission.Files]",
    unfolded Let_def]
  show ?thesis
    unfolding Let_def using ok [of Permission.Camera Permission.Files] ok [of Permission.Files Permission.Files] no yes by auto
qed

end
