(* ===== verification/Package_Trust.thy ===== *)
theory Package_Trust
  imports Abi_Error
begin

text \<open>
  Package trust, \<^verbatim>\<open>src/security/loko-security/src/trust.rs\<close>: the ordered rules of
  \<^verbatim>\<open>evaluate_install\<close>. \<open>install_step\<close> and \<open>install_run\<close> put the decision in its use: a
  sequence of offered packages for one identifier, each installed when the decision and the user agree.
\<close>

section \<open>Packages\<close>

datatype Signature =
    LokoOfficial | VerifiedPublisher | KnownPublisher | UnknownPublisher | Unsigned | Invalid

definition proves_integrity :: "Signature \<Rightarrow> bool" where
  "proves_integrity sig \<longleftrightarrow>
     sig \<in> {LokoOfficial, VerifiedPublisher, KnownPublisher, Signature.UnknownPublisher}"

definition proves_identity :: "Signature \<Rightarrow> bool" where
  "proves_identity sig \<longleftrightarrow> sig \<in> {LokoOfficial, VerifiedPublisher, KnownPublisher}"

datatype Source = LokoStore | SystemUpdate | LocalFile | Download

text \<open>Versions are compared by major, then minor, then patch, the derived \<^verbatim>\<open>Ord\<close>.\<close>

datatype Version = Version (major: nat) (minor: nat) (patch: nat)

instantiation Version :: linorder
begin

definition less_Version :: "Version \<Rightarrow> Version \<Rightarrow> bool" where
  "a < b \<longleftrightarrow> major a < major b \<or> major a = major b \<and>
     (minor a < minor b \<or> minor a = minor b \<and> patch a < patch b)"

definition less_eq_Version :: "Version \<Rightarrow> Version \<Rightarrow> bool" where
  "a \<le> b \<longleftrightarrow> a = b \<or> (a :: Version) < b"

instance
  by standard (auto simp: less_Version_def less_eq_Version_def intro: Version.expand)

end

record Package =
  pk_id :: rstr
  pk_version :: Version
  pk_signature :: Signature
  pk_source :: Source
  pk_claims_system_component :: bool

datatype Intent = FreshInstall | Update Version

datatype Warning = UnknownPublisher | Unsigned | FromOutsideTheStore

datatype Refusal =
    IntegrityFailure | ForgedSystemComponent | SystemComponentFromWrongSource | Downgrade
  | AlreadyInstalled

datatype InstallDecision = Install | WarnThenInstall Warning | Refuse Refusal

fun is_silent :: "InstallDecision \<Rightarrow> bool" where
  "is_silent Install = True"
| "is_silent _ = False"

fun can_proceed :: "InstallDecision \<Rightarrow> bool" where
  "can_proceed (Refuse _) = False"
| "can_proceed _ = True"

fun heading :: "Warning \<Rightarrow> rstr" where
  "heading Warning.UnknownPublisher = str ''LokoOS doesn't know who made this.''"
| "heading Warning.Unsigned = str ''This app isn't signed.''"
| "heading Warning.FromOutsideTheStore = str ''This app didn't come from the Loko Store.''"

fun detail :: "Warning \<Rightarrow> rstr" where
  "detail Warning.UnknownPublisher =
     str ''The app hasn't been changed since it was made, but nobody has confirmed who made it. Only install it if you trust where you got it from.''"
| "detail Warning.Unsigned =
     str ''There's no way to tell who made this app or whether it has been changed since. Only install it if you trust where you got it from.''"
| "detail Warning.FromOutsideTheStore =
     str ''Apps from the Loko Store are checked before they're listed. This one hasn't been. Only install it if you trust where you got it from.''"

fun Refusal_as_error :: "Refusal \<Rightarrow> Error" where
  "Refusal_as_error Refusal.IntegrityFailure = Error.IntegrityFailure"
| "Refusal_as_error ForgedSystemComponent = Error.IntegrityFailure"
| "Refusal_as_error SystemComponentFromWrongSource = Error.IntegrityFailure"
| "Refusal_as_error Downgrade = PermissionDenied"
| "Refusal_as_error AlreadyInstalled = AlreadyExists"

fun Refusal_explanation :: "Refusal \<Rightarrow> rstr" where
  "Refusal_explanation Refusal.IntegrityFailure =
     str ''This file has been changed since it was signed, so LokoOS won't install it. Try downloading it again.''"
| "Refusal_explanation Refusal.ForgedSystemComponent =
     str ''This claims to be part of LokoOS, but it isn't. LokoOS won't install it.''"
| "Refusal_explanation Refusal.SystemComponentFromWrongSource =
     str ''Parts of LokoOS can only be installed through system updates.''"
| "Refusal_explanation Refusal.Downgrade =
     str ''This is an older version than the one you have. Uninstall the current version first if you really want to go back.''"
| "Refusal_explanation Refusal.AlreadyInstalled =
     str ''You already have this version.''"

section \<open>The decision\<close>

definition evaluate_install :: "Package \<Rightarrow> Intent \<Rightarrow> bool \<Rightarrow> InstallDecision" where
  "evaluate_install package intent developer_mode =
     (if pk_signature package = Invalid then Refuse Refusal.IntegrityFailure
      else if pk_claims_system_component package \<and> pk_signature package \<noteq> LokoOfficial
      then Refuse ForgedSystemComponent
      else if pk_claims_system_component package \<and> pk_source package \<noteq> SystemUpdate
      then Refuse SystemComponentFromWrongSource
      else
        let rest =
          (if pk_signature package = Signature.Unsigned
           then if \<not> developer_mode then Refuse Refusal.IntegrityFailure
                else WarnThenInstall Warning.Unsigned
           else if \<not> proves_identity (pk_signature package)
           then WarnThenInstall Warning.UnknownPublisher
           else if pk_source package \<in> {Download, LocalFile}
           then WarnThenInstall FromOutsideTheStore
           else Install)
        in case intent of
             FreshInstall \<Rightarrow> rest
           | Update installed \<Rightarrow>
               if pk_version package < installed then Refuse Downgrade
               else if pk_version package = installed then Refuse AlreadyInstalled
               else rest)"

section \<open>Properties\<close>

definition newer_than :: "Intent \<Rightarrow> Version \<Rightarrow> bool" where
  "newer_than intent v \<longleftrightarrow> (case intent of FreshInstall \<Rightarrow> True | Update installed \<Rightarrow> installed < v)"

lemma newer_than_simps [simp]:
  "newer_than FreshInstall v" "newer_than (Update i) v \<longleftrightarrow> i < v"
  by (simp_all add: newer_than_def)

text \<open>
  Which packages may be installed, exactly. Installation can proceed if and only if the signature is not
  broken, a claim to be part of LokoOS is backed by LokoOS's signature and comes through a system update, an
  update is strictly newer than what is installed, and an unsigned package is offered in developer mode. Of
  those, exactly the ones from an identified publisher through the Store or a system update are installed
  without a word.
\<close>

theorem install_decision_exact:
  "(can_proceed (evaluate_install package intent developer_mode) \<longleftrightarrow>
      pk_signature package \<noteq> Invalid \<and>
      (pk_claims_system_component package \<longrightarrow>
         pk_signature package = LokoOfficial \<and> pk_source package = SystemUpdate) \<and>
      newer_than intent (pk_version package) \<and>
      (pk_signature package = Signature.Unsigned \<longrightarrow> developer_mode)) \<and>
   (is_silent (evaluate_install package intent developer_mode) \<longleftrightarrow>
      can_proceed (evaluate_install package intent developer_mode) \<and>
      proves_identity (pk_signature package) \<and> pk_source package \<in> {LokoStore, SystemUpdate})"
proof -
  have src: "pk_source package \<in> {LokoStore, SystemUpdate} \<longleftrightarrow> pk_source package \<notin> {Download, LocalFile}"
    by (cases "pk_source package") simp_all
  show ?thesis
    unfolding src by (cases intent)
      (auto simp: evaluate_install_def Let_def proves_identity_def)
qed

theorem install_decision_exact_witness:
  "is_silent (evaluate_install
     \<lparr>pk_id = str ''com.example.editor'', pk_version = Version 1 1 0, pk_signature = VerifiedPublisher,
      pk_source = LokoStore, pk_claims_system_component = False\<rparr> (Update (Version 1 0 9)) False)"
  unfolding install_decision_exact [THEN conjunct2] install_decision_exact [THEN conjunct1]
  by (simp add: proves_identity_def less_Version_def)

text \<open>
  What is installed under one identifier, after a package is offered: an accepted package replaces the
  installed version. The user's answer to a warning is the last argument.
\<close>

definition install_step :: "bool \<Rightarrow> Package \<times> bool \<Rightarrow> Version option \<Rightarrow> Version option" where
  "install_step developer_mode offer installed =
     (case offer of (package, user_accepts) \<Rightarrow>
        let intent = (case installed of None \<Rightarrow> FreshInstall | Some v \<Rightarrow> Update v);
            d = evaluate_install package intent developer_mode
        in if is_silent d \<or> can_proceed d \<and> user_accepts then Some (pk_version package) else installed)"

definition install_run :: "bool \<Rightarrow> (Package \<times> bool) list \<Rightarrow> Version option \<Rightarrow> Version option" where
  "install_run developer_mode offers installed = fold (install_step developer_mode) offers installed"

lemma is_silent_can_proceed: "is_silent d \<Longrightarrow> can_proceed d"
  by (cases d) simp_all

lemma can_proceed_newer:
  "can_proceed (evaluate_install package (Update v) developer_mode) \<Longrightarrow> v < pk_version package"
  by (auto simp: evaluate_install_def Let_def not_less_iff_gr_or_eq split: if_splits)

text \<open>
  C22. An attacker cannot roll a package back. Whatever packages are offered, in whatever order, and whatever
  the user accepts, the installed version never gets older, with or without developer mode.
\<close>

theorem no_rollback:
  "\<exists>v'. install_run developer_mode offers (Some v) = Some v' \<and> v \<le> v'"
proof -
  have step: "\<exists>w'. install_step developer_mode offer (Some w) = Some w' \<and> w \<le> w'" for offer w
    using can_proceed_newer [of "fst offer" w developer_mode] is_silent_can_proceed
    by (auto simp: install_step_def Let_def split: prod.splits)
  show ?thesis
    unfolding install_run_def
  proof (induction offers arbitrary: v)
    case (Cons offer offers)
    obtain w where w: "install_step developer_mode offer (Some v) = Some w" "v \<le> w"
      using step by blast
    with Cons.IH [of w] show ?case by (auto intro: order_trans)
  qed simp
qed

text \<open>
  A refusal that protects the system is reported as one. Every decision that stops an installation for a
  broken or missing signature, or for a forged or misplaced system component, surfaces as an integrity
  failure, that is logged as security relevant and never retried.
\<close>

theorem refusals_surface:
  assumes "evaluate_install package intent developer_mode = Refuse why"
    and "pk_signature package = Invalid \<or> pk_claims_system_component package \<and>
      (pk_signature package \<noteq> LokoOfficial \<or> pk_source package \<noteq> SystemUpdate)"
  shows "Refusal_as_error why = Error.IntegrityFailure \<and> is_security_relevant (Refusal_as_error why) \<and>
    \<not> is_retryable (Refusal_as_error why)"
  using assms by (auto simp: evaluate_install_def split: if_splits)

theorem refusals_surface_witness:
  "Refusal_as_error ForgedSystemComponent = Error.IntegrityFailure"
proof -
  let ?p = "\<lparr>pk_id = [], pk_version = Version 1 0 0, pk_signature = VerifiedPublisher,
      pk_source = LokoStore, pk_claims_system_component = True\<rparr>"
  have "evaluate_install ?p FreshInstall True = Refuse ForgedSystemComponent"
    by (simp add: evaluate_install_def)
  from refusals_surface [OF this] show ?thesis by simp
qed

text \<open>
  The table of the security architecture document says that an official package installs without a warning; the code warns when it comes
  from a file or a download. A package without a signature is refused, outside developer mode, with the
  message that it was changed since it was signed.
\<close>

lemma official_local_file_warns:
  "evaluate_install \<lparr>pk_id = [], pk_version = Version 1 0 0, pk_signature = LokoOfficial,
      pk_source = LocalFile, pk_claims_system_component = False\<rparr> FreshInstall False =
    WarnThenInstall FromOutsideTheStore"
  by (simp add: evaluate_install_def proves_identity_def)

lemma unsigned_reported_as_changed:
  "evaluate_install \<lparr>pk_id = [], pk_version = Version 1 0 0, pk_signature = Signature.Unsigned,
      pk_source = LokoStore, pk_claims_system_component = False\<rparr> FreshInstall False =
    Refuse Refusal.IntegrityFailure"
  by (simp add: evaluate_install_def)

end
