(* ===== verification/Kernel_Descriptors.thy ===== *)
theory Kernel_Descriptors
  imports Kernel_Console
begin

text \<open>
  The descriptor tables of the kernel, \<^verbatim>\<open>src/kernel/loko-kernel/src/arch\<close>: which selectors, emergency stacks and
  handlers \<^verbatim>\<open>gdt.rs\<close> and \<^verbatim>\<open>idt.rs\<close> set up. The tables themselves belong to the
  \<^verbatim>\<open>x86_64\<close> crate; what is used of it is a parameter.
\<close>

section \<open>Segments\<close>

datatype Descriptor = KernelCodeSegment | KernelDataSegment | UserDataSegment | UserCodeSegment | TssSegment

text \<open>An empty table, and appending a descriptor, which returns its selector.\<close>

record 'g gdt_api =
  gdt_new :: 'g
  gdt_append :: "'g \<Rightarrow> Descriptor \<Rightarrow> 'g \<times> nat"

record Selectors =
  sel_kernel_code :: nat
  sel_kernel_data :: nat
  sel_user_code :: nat
  sel_user_data :: nat
  sel_tss :: nat

definition GDT :: "'g gdt_api \<Rightarrow> 'g \<times> Selectors" where
  "GDT api =
     (let gdt = gdt_new api;
          (gdt, kernel_code) = gdt_append api gdt KernelCodeSegment;
          (gdt, kernel_data) = gdt_append api gdt KernelDataSegment;
          (gdt, user_data) = gdt_append api gdt UserDataSegment;
          (gdt, user_code) = gdt_append api gdt UserCodeSegment;
          (gdt, tss) = gdt_append api gdt TssSegment in
      (gdt, \<lparr>sel_kernel_code = kernel_code, sel_kernel_data = kernel_data, sel_user_code = user_code,
         sel_user_data = user_data, sel_tss = tss\<rparr>))"

text \<open>The segment registers after \<^verbatim>\<open>gdt::init\<close>.\<close>

record Segments =
  seg_cs :: nat
  seg_ds :: nat
  seg_es :: nat
  seg_ss :: nat
  seg_tr :: nat

definition gdt_init :: "'g gdt_api \<Rightarrow> Segments" where
  "gdt_init api =
     (let selectors = snd (GDT api) in
      \<lparr>seg_cs = sel_kernel_code selectors, seg_ds = sel_kernel_data selectors, seg_es = sel_kernel_data selectors,
       seg_ss = sel_kernel_data selectors, seg_tr = sel_tss selectors\<rparr>)"

definition selectors :: "'g gdt_api \<Rightarrow> Selectors" where
  "selectors api = snd (GDT api)"

section \<open>Emergency stacks\<close>

definition DOUBLE_FAULT_IST_INDEX :: nat where
  "DOUBLE_FAULT_IST_INDEX = 0"

definition PAGE_FAULT_IST_INDEX :: nat where
  "PAGE_FAULT_IST_INDEX = 1"

definition NMI_IST_INDEX :: nat where
  "NMI_IST_INDEX = 2"

definition EMERGENCY_STACK_SIZE :: nat where
  "EMERGENCY_STACK_SIZE = 4096 * 5"

text \<open>The addresses of the three stacks. \<open>virt\<close> is \<^verbatim>\<open>VirtAddr::new\<close>.\<close>

record Stacks =
  st_double_fault :: nat
  st_page_fault :: nat
  st_nmi :: nat

definition stack_top :: "(nat \<Rightarrow> nat run) \<Rightarrow> nat \<Rightarrow> nat run" where
  "stack_top virt base = do { top \<leftarrow> add64 base EMERGENCY_STACK_SIZE; virt top }"

text \<open>The seven entries of the interrupt stack table.\<close>

definition TSS :: "(nat \<Rightarrow> nat run) \<Rightarrow> Stacks \<Rightarrow> nat list run" where
  "TSS virt stacks = do {
     let ist = replicate 7 0;
     double \<leftarrow> stack_top virt (st_double_fault stacks);
     let ist = ist[DOUBLE_FAULT_IST_INDEX := double];
     page \<leftarrow> stack_top virt (st_page_fault stacks);
     let ist = ist[PAGE_FAULT_IST_INDEX := page];
     nmi \<leftarrow> stack_top virt (st_nmi stacks);
     Ret (ist[NMI_IST_INDEX := nmi])
   }"

section \<open>Handlers\<close>

datatype Vector =
    VectorDivideError | VectorDebug | VectorNonMaskableInterrupt | VectorInvalidOpcode | VectorDoubleFault
  | VectorGeneralProtection | VectorPageFault | VectorOther nat

text \<open>The handler of a vector, as the exception it handles for what the processor reports, and the index of its stack.\<close>

definition IDT :: "bool \<Rightarrow> rstr \<Rightarrow> rstr \<Rightarrow> nat \<Rightarrow> Vector \<Rightarrow> (Exception \<times> nat option) option" where
  "IDT user address cause error_code vector = (case vector of
     VectorDivideError \<Rightarrow> Some (DivideError, None)
   | VectorDebug \<Rightarrow> Some (DebugException, None)
   | VectorInvalidOpcode \<Rightarrow> Some (InvalidOpcode, None)
   | VectorGeneralProtection \<Rightarrow> Some (GeneralProtection error_code, None)
   | VectorNonMaskableInterrupt \<Rightarrow> Some (NonMaskableInterrupt, Some NMI_IST_INDEX)
   | VectorDoubleFault \<Rightarrow> Some (DoubleFault, Some DOUBLE_FAULT_IST_INDEX)
   | VectorPageFault \<Rightarrow> Some (PageFault user address cause, Some PAGE_FAULT_IST_INDEX)
   | VectorOther _ \<Rightarrow> None)"

section \<open>Correctness\<close>

text \<open>
  What the crate documents of \<^verbatim>\<open>append\<close>: slot 0 is the null descriptor, a segment takes one slot of eight bytes, a task
  state segment two; a selector is the slot's offset with the descriptor's privilege level.
\<close>

definition slots_of :: "Descriptor \<Rightarrow> nat" where
  "slots_of d = (if d = TssSegment then 2 else 1)"

definition privilege_of :: "Descriptor \<Rightarrow> nat" where
  "privilege_of d = (if d \<in> {UserDataSegment, UserCodeSegment} then 3 else 0)"

definition appends :: "'g gdt_api \<Rightarrow> ('g \<Rightarrow> nat) \<Rightarrow> bool" where
  "appends api used \<longleftrightarrow> used (gdt_new api) = 1 \<and>
     (\<forall>g d. snd (gdt_append api g d) = used g * 8 + privilege_of d \<and> used (fst (gdt_append api g d)) = used g + slots_of d)"

text \<open>
  The selectors are in the order that returning to user mode needs. \<^verbatim>\<open>sysret\<close> takes one number from a register
  and uses the selectors 8 and 16 above it, for data and for code: they are the user data and user code selectors, both with
  privilege level 3, directly above the kernel's; the kernel runs with its own code and data selectors at level 0.
\<close>

theorem sysret_selectors:
  assumes "appends api used"
  shows "let s = selectors api; base = sel_kernel_data s in
    sel_user_data s = base + 8 + 3 \<and> sel_user_code s = base + 16 + 3 \<and> sel_kernel_data s = sel_kernel_code s + 8 \<and>
    sel_kernel_code s mod 4 = 0 \<and> gdt_init api = \<lparr>seg_cs = sel_kernel_code s, seg_ds = base, seg_es = base, seg_ss = base,
      seg_tr = sel_tss s\<rparr> \<and> sel_tss s = sel_kernel_code s + 32"
  using assms
  by (simp add: appends_def GDT_def selectors_def gdt_init_def Let_def split_beta slots_of_def privilege_of_def)

definition list_gdt :: "Descriptor list gdt_api" where
  "list_gdt = \<lparr>gdt_new = [], gdt_append = (\<lambda>g d. (g @ [d], (1 + sum_list (map slots_of g)) * 8 + privilege_of d))\<rparr>"

theorem sysret_selectors_witness:
  "sel_user_data (selectors list_gdt) = 0x1B \<and> sel_user_code (selectors list_gdt) = 0x23 \<and>
   appends list_gdt (\<lambda>g. 1 + sum_list (map slots_of g))"
proof -
  have a: "appends list_gdt (\<lambda>g. 1 + sum_list (map slots_of g))" by (simp add: appends_def list_gdt_def)
  have "sel_kernel_data (selectors list_gdt) = 16"
    by (simp add: GDT_def selectors_def list_gdt_def slots_of_def privilege_of_def Let_def)
  with sysret_selectors [OF a] a show ?thesis by (simp add: Let_def)
qed

text \<open>The bytes of an emergency stack.\<close>

definition stack_bytes :: "nat \<Rightarrow> nat set" where
  "stack_bytes base = {base..<base + EMERGENCY_STACK_SIZE}"

text \<open>The vectors that have a stack of their own, and where it starts.\<close>

definition own_stack :: "Stacks \<Rightarrow> Vector \<Rightarrow> nat option" where
  "own_stack s v = (case v of
     VectorDoubleFault \<Rightarrow> Some (st_double_fault s)
   | VectorPageFault \<Rightarrow> Some (st_page_fault s)
   | VectorNonMaskableInterrupt \<Rightarrow> Some (st_nmi s)
   | _ \<Rightarrow> None)"

definition placed :: "(nat \<Rightarrow> nat run) \<Rightarrow> nat \<Rightarrow> bool" where
  "placed virt base \<longleftrightarrow> 16 dvd base \<and> base + 20480 < 2 ^ 64 \<and> virt (base + 20480) = Ret (base + 20480)"

lemma TSS_eq:
  assumes "placed virt (st_double_fault s)" "placed virt (st_page_fault s)" "placed virt (st_nmi s)"
  shows "TSS virt s = Ret [st_double_fault s + 20480, st_page_fault s + 20480, st_nmi s + 20480, 0, 0, 0, 0]"
proof -
  have "stack_top virt base = Ret (base + 20480)" if "placed virt base" for base
    using that by (simp add: placed_def stack_top_def EMERGENCY_STACK_SIZE_def add64_Ret)
  moreover have "replicate 7 (0 :: nat) = [0, 0, 0, 0, 0, 0, 0]" by (simp add: eval_nat_numeral)
  ultimately show ?thesis
    using assms by (simp add: TSS_def DOUBLE_FAULT_IST_INDEX_def PAGE_FAULT_IST_INDEX_def NMI_IST_INDEX_def numeral_2_eq_2)
qed

text \<open>
  C39. The faults that can strike on a broken stack are handled on a stack of their own. With the three stacks disjoint and aligned, the
  handlers of the non-maskable interrupt, the double fault and the page fault, and no others, are entered with the aligned top of their
  own stack, whatever the processor reports, and no two of them share a byte of stack, so none overwrites the frame of another
  when they nest.
\<close>

theorem faults_have_their_stacks:
  assumes disjoint: "stack_bytes (st_double_fault s) \<inter> stack_bytes (st_page_fault s) = {}"
      "stack_bytes (st_double_fault s) \<inter> stack_bytes (st_nmi s) = {}" "stack_bytes (st_page_fault s) \<inter> stack_bytes (st_nmi s) = {}"
    and ok: "placed virt (st_double_fault s)" "placed virt (st_page_fault s)" "placed virt (st_nmi s)"
  shows "\<exists>ist. TSS virt s = Ret ist \<and>
    (\<forall>v. case IDT user address cause code v of
       Some (e, Some i) \<Rightarrow> i < length ist \<and> 16 dvd ist ! i \<and> own_stack s v = Some (ist ! i - 20480)
     | _ \<Rightarrow> own_stack s v = None) \<and>
    (\<forall>v w a b. own_stack s v = Some a \<and> own_stack s w = Some b \<and> v \<noteq> w \<longrightarrow> stack_bytes a \<inter> stack_bytes b = {})"
proof (intro exI conjI)
  let ?ist = "[st_double_fault s + 20480, st_page_fault s + 20480, st_nmi s + 20480, 0, 0, 0, 0]"
  show "TSS virt s = Ret ?ist" by (rule TSS_eq [OF ok])
  have "16 dvd base + 20480" if "placed virt base" for base using that by (simp add: placed_def dvd_add)
  then show "\<forall>v. case IDT user address cause code v of
       Some (e, Some i) \<Rightarrow> i < length ?ist \<and> 16 dvd ?ist ! i \<and> own_stack s v = Some (?ist ! i - 20480)
     | _ \<Rightarrow> own_stack s v = None"
    using ok by (simp add: IDT_def own_stack_def DOUBLE_FAULT_IST_INDEX_def PAGE_FAULT_IST_INDEX_def NMI_IST_INDEX_def split: Vector.split)
  show "\<forall>v w a b. own_stack s v = Some a \<and> own_stack s w = Some b \<and> v \<noteq> w \<longrightarrow> stack_bytes a \<inter> stack_bytes b = {}"
  proof (intro allI impI; elim conjE)
    fix v w a b
    assume o: "own_stack s v = Some a" "own_stack s w = Some b" "v \<noteq> w"
    have swap: "stack_bytes (st_page_fault s) \<inter> stack_bytes (st_double_fault s) = {}"
      "stack_bytes (st_nmi s) \<inter> stack_bytes (st_double_fault s) = {}" "stack_bytes (st_nmi s) \<inter> stack_bytes (st_page_fault s) = {}"
      using disjoint by blast+
    show "stack_bytes a \<inter> stack_bytes b = {}"
      using o by (cases v; cases w; simp add: own_stack_def; metis disjoint swap)
  qed
qed

text \<open>Three stacks in a row, at an address that every value of which is canonical.\<close>

theorem faults_have_their_stacks_witness:
  "\<exists>ist. TSS Some \<lparr>st_double_fault = 0x1000, st_page_fault = 0x6000, st_nmi = 0xB000\<rparr> = Ret ist \<and> 16 dvd ist ! 0"
proof -
  let ?s = "\<lparr>st_double_fault = 0x1000, st_page_fault = 0x6000, st_nmi = 0xB000\<rparr>"
  have d: "stack_bytes (st_double_fault ?s) \<inter> stack_bytes (st_page_fault ?s) = {}"
    "stack_bytes (st_double_fault ?s) \<inter> stack_bytes (st_nmi ?s) = {}" "stack_bytes (st_page_fault ?s) \<inter> stack_bytes (st_nmi ?s) = {}"
    by (simp_all add: stack_bytes_def EMERGENCY_STACK_SIZE_def)
  have p: "placed Some (st_double_fault ?s)" "placed Some (st_page_fault ?s)" "placed Some (st_nmi ?s)"
    by (simp_all add: placed_def)
  have i: "IDT True [] [] 0 VectorDoubleFault = Some (DoubleFault, Some 0)" by (simp add: IDT_def DOUBLE_FAULT_IST_INDEX_def)
  from faults_have_their_stacks [OF d p, of True "[]" "[]" 0] obtain ist where "TSS Some ?s = Ret ist"
    "\<forall>v. case IDT True [] [] 0 v of
       Some (e, Some i) \<Rightarrow> i < length ist \<and> 16 dvd ist ! i \<and> own_stack ?s v = Some (ist ! i - 20480)
     | _ \<Rightarrow> own_stack ?s v = None" by blast
  moreover from this(2) have "16 dvd ist ! 0" using i by (auto dest: spec [of _ VectorDoubleFault])
  ultimately show ?thesis by blast
qed

end
