(* ===== verification/Xtask_Budget.thy ===== *)
theory Xtask_Budget
  imports Xtask_Host
begin

text \<open>
  Measuring the build against the size budget, \<^verbatim>\<open>src/tools/xtask/src/budget.rs\<close>. The percentage, a formatted
  floating-point number, is a parameter.
\<close>

definition BASE_OS_BUDGET_BYTES :: nat where
  "BASE_OS_BUDGET_BYTES = 2 * 1024 * 1024 * 1024"

definition BASE_OS_COMPONENTS :: "(rstr \<times> rstr) list" where
  "BASE_OS_COMPONENTS =
     [(str ''bootloader'', str ''built''),
      (str ''kernel'', str ''built''),
      (str ''drivers'', str ''not built yet''),
      (str ''core services'', str ''not built yet''),
      (str ''graphics stack'', str ''not built yet''),
      (str ''compositor'', str ''not built yet''),
      (str ''window manager'', str ''not built yet''),
      (str ''desktop shell'', str ''not built yet''),
      (str ''Linder'', str ''not built yet''),
      (str ''Lowser'', str ''not built yet''),
      (str ''Loko AI runtime'', str ''not built yet''),
      (str ''Loko Settings'', str ''not built yet''),
      (str ''Loko Terminal'', str ''not built yet''),
      (str ''Loko Store client'', str ''not built yet''),
      (str ''Loko Update'', str ''not built yet''),
      (str ''fonts and icons'', str ''not built yet'')]"

section \<open>Sizes for people\<close>

definition UNITS :: "(rstr \<times> nat) list" where
  "UNITS = [(str ''GiB'', 1024 * 1024 * 1024), (str ''MiB'', 1024 * 1024), (str ''KiB'', 1024), (str ''bytes'', 1)]"

fun human_size_in :: "(rstr \<times> nat) list \<Rightarrow> nat \<Rightarrow> rstr" where
  "human_size_in [] bytes = dec bytes @ str '' bytes''"
| "human_size_in ((unit, scale) # units) bytes =
     (if bytes \<ge> scale
      then if scale = 1 then dec bytes @ 32 # unit
           else dec (bytes div scale) @ str ''.'' @ dec (bytes mod scale * 10 div scale) @ 32 # unit
      else human_size_in units bytes)"

definition human_size :: "nat \<Rightarrow> rstr" where
  "human_size bytes = human_size_in UNITS bytes"

section \<open>The report\<close>

definition two_columns :: "rstr \<Rightarrow> rstr \<Rightarrow> rstr" where
  "two_columns a b = pad_right 22 a @ 32 # pad_left 14 b"

text \<open>The loop over the components, with the total so far.\<close>

fun report_rows :: "Host \<Rightarrow> (rstr \<times> rstr) list \<Rightarrow> (rstr \<times> rstr) list \<Rightarrow> nat \<Rightarrow> nat task" where
  "report_rows host artifacts [] measured = t_ok measured"
| "report_rows host artifacts ((name, status) # components) measured =
     (case find (\<lambda>(a, _). a = name) artifacts of
        Some (_, path) \<Rightarrow>
          t_bind (t_ask (\<lambda>events. h_len host events path)) (\<lambda>r. case r of
            Inl e \<Rightarrow> t_err (str ''could not measure '' @ path @ str '': '' @ e)
          | Inr len \<Rightarrow>
              t_bind (t_run (add64 measured len)) (\<lambda>measured.
              t_then (t_say (two_columns name (human_size len) @ str ''   '' @ status))
                (report_rows host artifacts components measured)))
      | None \<Rightarrow>
          t_then (t_say (two_columns name (str ''-'') @ str ''   '' @ status))
            (report_rows host artifacts components measured))"

definition over_budget_message :: rstr where
  "over_budget_message = str ''the measured base OS already exceeds the 2 GB budget''"

definition budget_report :: "Host \<Rightarrow> (rstr \<times> rstr) list \<Rightarrow> unit task" where
  "budget_report host artifacts =
     t_then (t_say (10 # str ''LokoOS base OS size, measured against the 2 GB target'' @ [10]))
    (t_then (t_say (two_columns (str ''Component'') (str ''Size'') @ str ''   Status''))
    (t_then (t_say (two_columns (str ''---------'') (str ''----'') @ str ''   ------''))
    (t_bind (report_rows host artifacts BASE_OS_COMPONENTS 0) (\<lambda>measured.
     t_then (t_say (10 # two_columns (str ''Measured total'') (human_size measured)))
    (t_then (t_say (two_columns (str ''Budget'') (human_size BASE_OS_BUDGET_BYTES)))
    (t_then (t_say (pad_right 22 (str ''Budget used'') @ 32 # h_percent host measured @ str ''%''))
    (t_then (t_say (10 # dec (length (filter (\<lambda>(_, status). status = str ''built'') BASE_OS_COMPONENTS)) @ str '' of '' @
         dec (length BASE_OS_COMPONENTS) @ str '' base-OS components exist. This figure covers only what has'' @ 10 #
         str ''been built; it is not a projection of the finished system's size.''))
    (t_then (t_say (10 # str ''Excluded from this budget, per requirement 2: optional applications, the'' @ 10 #
         str ''Windows and macOS compatibility runtimes, AI models, user files, browser and'' @ 10 #
         str ''application caches, recovery images, developer toolchains and language packs.''))
    (if measured > BASE_OS_BUDGET_BYTES then t_err over_budget_message else t_ok ())))))))))"

section \<open>Correctness\<close>

text \<open>What a size cut to a tenth of a unit says.\<close>

definition shown_in :: "rstr \<Rightarrow> nat \<Rightarrow> nat \<Rightarrow> bool" where
  "shown_in unit scale bytes \<longleftrightarrow> (\<exists>whole tenths.
     human_size bytes = dec whole @ str ''.'' @ dec tenths @ 32 # unit \<and> 1 \<le> whole \<and> tenths < 10 \<and>
     (whole * 10 + tenths) * scale \<le> bytes * 10 \<and> bytes * 10 < (whole * 10 + tenths + 1) * scale)"

lemma shown_inI:
  assumes "1 < scale" "scale \<le> bytes"
    and "human_size bytes = dec (bytes div scale) @ str ''.'' @ dec (bytes mod scale * 10 div scale) @ 32 # unit"
  shows "shown_in unit scale bytes"
  unfolding shown_in_def
proof (intro exI conjI)
  show "human_size bytes = dec (bytes div scale) @ str ''.'' @ dec (bytes mod scale * 10 div scale) @ 32 # unit" by (rule assms(3))
  have b: "bytes * 10 = bytes div scale * 10 * scale + bytes mod scale * 10"
    using div_mult_mod_eq [of bytes scale] by (metis add_mult_distrib mult.assoc mult.commute)
  have t: "bytes mod scale * 10 div scale * scale \<le> bytes mod scale * 10"
    "bytes mod scale * 10 < scale + scale * (bytes mod scale * 10 div scale)"
    using assms(1) by (simp_all add: dividend_less_times_div)
  show "(bytes div scale * 10 + bytes mod scale * 10 div scale) * scale \<le> bytes * 10"
    "bytes * 10 < (bytes div scale * 10 + bytes mod scale * 10 div scale + 1) * scale"
    using b t by (simp_all add: algebra_simps)
  have "bytes mod scale * 10 < scale * 10" using assms(1) by simp
  then show "bytes mod scale * 10 div scale < 10" by (metis less_mult_imp_div_less mult.commute)
  show "1 \<le> bytes div scale" using assms(1,2) by (simp add: Suc_le_eq div_greater_zero_iff)
qed

text \<open>
  A size is shown in the largest unit it fills, cut, not rounded, to a tenth: what is shown never exceeds the size, and falls
  short of it by less than a tenth of the unit. Below a kibibyte the size is shown exactly.
\<close>

theorem human_size_exact:
  "if bytes < 1024 then human_size bytes = dec bytes @ str '' bytes''
   else if bytes < 1024 ^ 2 then shown_in (str ''KiB'') 1024 bytes
   else if bytes < 1024 ^ 3 then shown_in (str ''MiB'') (1024 ^ 2) bytes
   else shown_in (str ''GiB'') (1024 ^ 3) bytes"
proof -
  have small: "human_size bytes = dec bytes @ str '' bytes''" if "bytes < 1024"
    using that by (cases "bytes = 0") (simp_all add: human_size_def UNITS_def str_def)
  have "shown_in (str ''KiB'') 1024 bytes" if "1024 \<le> bytes" "bytes < 1024 ^ 2"
    by (rule shown_inI) (use that in \<open>simp_all add: human_size_def UNITS_def\<close>)
  moreover have "shown_in (str ''MiB'') (1024 ^ 2) bytes" if "1024 ^ 2 \<le> bytes" "bytes < 1024 ^ 3"
    by (rule shown_inI) (use that in \<open>simp_all add: human_size_def UNITS_def\<close>)
  moreover have "shown_in (str ''GiB'') (1024 ^ 3) bytes" if "1024 ^ 3 \<le> bytes"
    by (rule shown_inI) (use that in \<open>simp_all add: human_size_def UNITS_def\<close>)
  ultimately show ?thesis using small by (simp only: not_less split: if_split) blast
qed

lemma report_rows_sum:
  assumes "\<forall>(name, path) \<in> set artifacts. \<forall>events. h_len host events path = Inr (len path)"
    and "measured + (\<Sum>(name, status) \<leftarrow> components. case find (\<lambda>(a, _). a = name) artifacts of Some (_, path) \<Rightarrow> len path | None \<Rightarrow> 0) < 2 ^ 64"
  shows "\<exists>events'. report_rows host artifacts components measured events =
    Some (events', Inr (measured + (\<Sum>(name, status) \<leftarrow> components.
      case find (\<lambda>(a, _). a = name) artifacts of Some (_, path) \<Rightarrow> len path | None \<Rightarrow> 0)))"
  using assms(2)
proof (induction components arbitrary: measured events)
  case (Cons c components)
  obtain name status where c: "c = (name, status)" by (cases c)
  show ?case
  proof (cases "find (\<lambda>(a, _). a = name) artifacts")
    case None
    then show ?thesis using Cons c by simp
  next
    case (Some p)
    obtain a path where p: "p = (a, path)" by (cases p)
    have "p \<in> set artifacts" using Some by (metis find_Some_iff nth_mem)
    then have len: "h_len host events path = Inr (len path)" for events using assms(1) p by auto
    have fits: "add64 measured (len path) = Ret (measured + len path)" using Cons.prems c Some p by simp
    then have run: "t_run (add64 measured (len path)) events = Some (events, Inr (measured + len path))" for events
      by (simp only: t_run_def option.case)
    show ?thesis using Cons.IH [of "measured + len path"] Cons.prems c Some p len by (simp add: run add.assoc)
  qed
qed simp

definition counted :: "(rstr \<times> rstr) list \<Rightarrow> (rstr \<Rightarrow> nat) \<Rightarrow> nat" where
  "counted artifacts len = (\<Sum>(name, status) \<leftarrow> BASE_OS_COMPONENTS.
     case find (\<lambda>(a, _). a = name) artifacts of Some (_, path) \<Rightarrow> len path | None \<Rightarrow> 0)"

text \<open>
  The size report fails exactly when it should. If the artefacts can be measured and their sizes stay below \<open>2 ^ 64\<close> together, each
  component that has been built is counted once, whatever the order of the artefacts, and the report fails exactly if the sum is over the budget.
\<close>

theorem budget_verdict:
  assumes "\<forall>(name, path) \<in> set artifacts. \<forall>events. h_len host events path = Inr (len path)"
    and "counted artifacts len < 2 ^ 64"
  shows "\<exists>events'. budget_report host artifacts events =
    Some (events', if counted artifacts len > 2 * 1024 ^ 3 then Inl over_budget_message else Inr ())"
proof -
  have rows: "\<exists>events'. report_rows host artifacts BASE_OS_COMPONENTS 0 events = Some (events', Inr (counted artifacts len))" for events
    using report_rows_sum [OF assms(1), of 0 BASE_OS_COMPONENTS events] assms(2) by (simp add: counted_def)
  obtain events' where "report_rows host artifacts BASE_OS_COMPONENTS 0
      (((events @ [Said (10 # str ''LokoOS base OS size, measured against the 2 GB target'' @ [10])]) @
       [Said (two_columns (str ''Component'') (str ''Size'') @ str ''   Status'')]) @
       [Said (two_columns (str ''---------'') (str ''----'') @ str ''   ------'')]) = Some (events', Inr (counted artifacts len))"
    using rows by blast
  then show ?thesis
    by (cases "counted artifacts len > 2 * 1024 ^ 3") (simp_all add: budget_report_def BASE_OS_BUDGET_BYTES_def)
qed

text \<open>A host on which every file is 3 MiB long and nothing can be started.\<close>

definition plain_host :: Host where
  "plain_host = \<lparr>h_root = str ''/src'', h_env = (\<lambda>name. None), h_windows = False, h_run = (\<lambda>events binary args. NotStarted []),
     h_exists = (\<lambda>events path. True), h_make_dir = (\<lambda>events path. None), h_remove_dir = (\<lambda>events path. None),
     h_remove_file = (\<lambda>events path. None),
     h_copy = (\<lambda>events source target. None), h_len = (\<lambda>events path. Inr 0x300000), h_read = (\<lambda>events path. Inr []),
     h_node = (\<lambda>events path. Dir []), h_spawn = (\<lambda>events binary args. Inl []), h_percent = dec\<rparr>"

theorem budget_verdict_witness:
  "\<exists>events'. budget_report plain_host [(str ''kernel'', str ''/src/kernel''), (str ''bootloader'', str ''/src/boot'')] [] = Some (events', Inr ())"
proof -
  let ?artifacts = "[(str ''kernel'', str ''/src/kernel''), (str ''bootloader'', str ''/src/boot'')]"
  have "\<forall>(name, path) \<in> set ?artifacts. \<forall>events. h_len plain_host events path = Inr ((\<lambda>path. 0x300000) path)"
    by (simp add: plain_host_def)
  moreover have "counted ?artifacts (\<lambda>path. 0x300000) = 0x600000"
    by (simp add: counted_def BASE_OS_COMPONENTS_def str_def)
  ultimately show ?thesis using budget_verdict [of ?artifacts plain_host "\<lambda>path. 0x300000" "[]"] by simp
qed

end
