(* ===== verification/Xtask_Iso.thy ===== *)
theory Xtask_Iso
  imports Xtask_Budget "HOL-Library.List_Lexorder" "HOL-Library.Multiset"
begin

text \<open>
  Building the bootable image, \<^verbatim>\<open>src/tools/xtask/src/iso.rs\<close>: the checks, the sequence of external commands, and the
  walk over the directory tree that becomes the EFI system partition. Names are compared by their code points, which is how
  their UTF-8 bytes compare.
\<close>

section \<open>External tools\<close>

definition VOLUME_LABEL :: rstr where
  "VOLUME_LABEL = str ''LOKOOS''"

definition ESP_SLACK_BYTES :: nat where
  "ESP_SLACK_BYTES = 6 * 1024 * 1024"

definition ESP_MINIMUM_BYTES :: nat where
  "ESP_MINIMUM_BYTES = 16 * 1024 * 1024"

record Tool =
  tl_binary :: rstr
  tl_package :: rstr

definition REQUIRED_TOOLS :: "Tool list" where
  "REQUIRED_TOOLS =
     [\<lparr>tl_binary = str ''mkfs.vfat'', tl_package = str ''dosfstools''\<rparr>,
      \<lparr>tl_binary = str ''mmd'', tl_package = str ''mtools''\<rparr>,
      \<lparr>tl_binary = str ''mcopy'', tl_package = str ''mtools''\<rparr>,
      \<lparr>tl_binary = str ''xorriso'', tl_package = str ''xorriso''\<rparr>]"

definition tool_present :: "Host \<Rightarrow> rstr \<Rightarrow> bool task" where
  "tool_present host binary = t_bind (t_command host binary [str ''--help'']) (\<lambda>x. t_ok (started x))"

text \<open>The filter that tries every tool in turn.\<close>

fun missing_tools :: "Host \<Rightarrow> Tool list \<Rightarrow> Tool list task" where
  "missing_tools host [] = t_ok []"
| "missing_tools host (t # ts) =
     t_bind (tool_present host (tl_binary t)) (\<lambda>present.
     t_bind (missing_tools host ts) (\<lambda>missing. t_ok (if present then missing else t # missing)))"

definition missing_message :: "Tool list \<Rightarrow> rstr" where
  "missing_message missing =
     (let names = map tl_binary missing; packages = join_str (str '' '') (remdups_adj (sort (map tl_package missing))) in
      str ''building an ISO needs these tools, which are not on PATH: '' @ join_str (str '', '') names @ [10, 10] @
      str ''On Debian or Ubuntu:  sudo apt-get install -y '' @ packages @ 10 #
      str ''On Fedora:            sudo dnf install -y '' @ packages @ 10 #
      str ''On macOS:             brew install '' @ packages @ [10, 10] @
      str ''None of them exist for Windows in a usable form, which is why LokoOS'' @ 10 #
      str ''builds its ISO in CI. Push the branch and the `iso` workflow produces'' @ 10 #
      str ''one; see .github/workflows/iso.yml.'')"

definition check_tools :: "Host \<Rightarrow> unit task" where
  "check_tools host =
     t_bind (missing_tools host REQUIRED_TOOLS) (\<lambda>missing.
       if missing = [] then t_ok () else t_err (missing_message missing))"

text \<open>\<^verbatim>\<open>run\<close>, with \<^verbatim>\<open>MTOOLS_SKIP_CHECK\<close> set in the command's environment.\<close>

definition run_tool :: "Host \<Rightarrow> rstr \<Rightarrow> rstr list \<Rightarrow> unit task" where
  "run_tool host binary args =
     t_bind (t_command host binary args) (\<lambda>x. case x of
       NotStarted e \<Rightarrow> t_err (str ''could not run `'' @ binary @ str ''`: '' @ e)
     | Exited success status out err \<Rightarrow>
         if success then t_ok ()
         else t_err (str ''`'' @ binary @ str '' '' @ join_str (str '' '') args @ str ''` failed ('' @ status @ str '')'' @ 10 #
                trim err @ trim out))"

section \<open>Directory trees\<close>

text \<open>
  The total is a checked \<^verbatim>\<open>u64\<close> sum. The recursive function is \<open>tree_size\<close> on the entry of a directory, whatever it is; it is called for
  a directory. The metadata of an entry does not follow a symbolic link, so a link counts with its own length, even if it leads to a
  directory; the copies ask \<^verbatim>\<open>path.is_dir()\<close>, which follows it.
\<close>

definition not_a_directory :: rstr where
  "not_a_directory = str ''Not a directory (os error 20)''"

fun tree_size :: "rstr \<Rightarrow> Node \<Rightarrow> (rstr + nat) run"
  and entries_size :: "rstr \<Rightarrow> (rstr \<times> Node) list \<Rightarrow> nat \<Rightarrow> (rstr + nat) run" where
  "tree_size dir (File len) = Ret (Inr len)"
| "tree_size dir (Dir entries) = entries_size dir entries 0"
| "tree_size dir (Link len node) = Ret (Inr len)"
| "tree_size dir (Unreadable e) = Ret (Inl (str ''could not read '' @ dir @ str '': '' @ e))"
| "entries_size dir [] acc = Ret (Inr acc)"
| "entries_size dir ((name, node) # entries) acc = do {
     r \<leftarrow> tree_size (join_path dir name) node;
     case r of
       Inl e \<Rightarrow> Ret (Inl e)
     | Inr len \<Rightarrow> do { acc \<leftarrow> add64 acc len; entries_size dir entries acc }
   }"

definition t_tree_size :: "Host \<Rightarrow> rstr \<Rightarrow> nat task" where
  "t_tree_size host dir events =
     (case resolve (h_node host events dir) of
        File _ \<Rightarrow> Some (events, Inl (str ''could not read '' @ dir @ str '': '' @ not_a_directory))
      | node \<Rightarrow> (case tree_size dir node of None \<Rightarrow> None | Some r \<Rightarrow> Some (events, r)))"

fun is_dir :: "Node \<Rightarrow> bool" where
  "is_dir (File len) = False"
| "is_dir (Dir entries) = True"
| "is_dir (Unreadable e) = True"
| "is_dir (Link len node) = is_dir node"

lemma size_entries: "(name, node) \<in> set entries \<Longrightarrow> size node < Suc (size_list (size_prod (\<lambda>x. 0) size) entries)"
  by (induction entries) auto

lemma t_for_cong [fundef_cong]:
  "xs = ys \<Longrightarrow> (\<And>x. x \<in> set ys \<Longrightarrow> f x = g x) \<Longrightarrow> t_for f xs = t_for g ys"
  by (induction xs arbitrary: ys) auto

lemma resolved_entries: "resolve node = Dir entries \<Longrightarrow> Suc (size_list (size_prod (\<lambda>x. 0) size) entries) \<le> size node"
  using size_resolve [of node] by simp

text \<open>The walk that fills the FAT image: entries in the order of their names, a directory before what is in it.\<close>

function copy_tree_into_fat :: "Host \<Rightarrow> rstr \<Rightarrow> rstr \<Rightarrow> rstr \<Rightarrow> Node \<Rightarrow> unit task" where
  "copy_tree_into_fat host img dir prefix (Unreadable e) = t_err (str ''could not read '' @ dir @ str '': '' @ e)"
| "copy_tree_into_fat host img dir prefix (File len) = t_err (str ''could not read '' @ dir @ str '': '' @ not_a_directory)"
| "copy_tree_into_fat host img dir prefix (Dir entries) =
     t_for (\<lambda>(name, node).
       let target = join_path prefix name; path = join_path dir name in
       if is_dir node
       then t_then (run_tool host (str ''mmd'') [str ''-i'', img, target]) (copy_tree_into_fat host img path target node)
       else run_tool host (str ''mcopy'') [str ''-i'', img, path, target])
     (sort_key fst entries)"
| "copy_tree_into_fat host img dir prefix (Link len node) = copy_tree_into_fat host img dir prefix node"
  by pat_completeness auto

termination
  by (relation "measure (\<lambda>(host, img, dir, prefix, node). size node)") (auto dest: size_entries)

section \<open>The EFI system partition\<close>

definition esp_size :: "nat \<Rightarrow> nat run" where
  "esp_size payload = do {
     twice \<leftarrow> mul64 payload 2;
     needed \<leftarrow> add64 twice ESP_SLACK_BYTES;
     let mib = div_ceil64 (max needed ESP_MINIMUM_BYTES) (1024 * 1024);
     kib \<leftarrow> mul64 mib 1024;
     mul64 kib 1024
   }"

definition mkfs_args :: "rstr \<Rightarrow> nat \<Rightarrow> rstr list" where
  "mkfs_args img blocks =
     [str ''-F'', str ''16'', str ''-n'', VOLUME_LABEL, str ''-i'', str ''10C0050F'', str ''-C'', img, dec blocks]"

definition build_esp_image :: "Host \<Rightarrow> rstr \<Rightarrow> rstr \<Rightarrow> rstr task" where
  "build_esp_image host esp_tree out_dir =
     t_bind (t_tree_size host esp_tree) (\<lambda>payload.
     t_bind (t_run (esp_size payload)) (\<lambda>len.
     let path = join_path out_dir (str ''esp.img'') in
     t_then (t_try (\<lambda>events. h_remove_file host events path) (RemovedFile path))
    (t_then (run_tool host (str ''mkfs.vfat'') (mkfs_args path (len div 1024)))
    (t_then (t_bind (t_ask (\<lambda>events. h_node host events esp_tree)) (copy_tree_into_fat host path esp_tree (str ''::'')))
    (t_then (t_say (str ''  EFI system partition  '' @ human_size len @ str '' image, '' @ human_size payload @ str '' payload, FAT16''))
    (t_ok path))))))"

section \<open>The image\<close>

function copy_tree :: "Host \<Rightarrow> rstr \<Rightarrow> rstr \<Rightarrow> Node \<Rightarrow> unit task" where
  "copy_tree host from_dir to_dir node =
     t_then (t_file (\<lambda>events. h_make_dir host events to_dir) (MadeDir to_dir)
               (\<lambda>e. str ''could not create '' @ to_dir @ str '': '' @ e))
     (case resolve node of
        Unreadable e \<Rightarrow> t_err (str ''could not read '' @ from_dir @ str '': '' @ e)
      | Dir entries \<Rightarrow>
          t_for (\<lambda>(name, node).
            let source = join_path from_dir name; destination = join_path to_dir name in
            if is_dir node then copy_tree host source destination node
            else t_file (\<lambda>events. h_copy host events source destination) (CopiedFile source destination)
                   (\<lambda>e. str ''could not copy '' @ source @ str '' to '' @ destination @ str '': '' @ e))
          entries
      | _ \<Rightarrow> t_err (str ''could not read '' @ from_dir @ str '': '' @ not_a_directory))"
  by pat_completeness auto

termination
  by (relation "measure (\<lambda>(host, source, target, node). size node)") (auto dest!: size_entries resolved_entries)

declare copy_tree.simps [simp del]

definition PVD_OFFSET :: nat where
  "PVD_OFFSET = 16 * 2048"

text \<open>The checks of \<^verbatim>\<open>verify\<close> on the bytes of the image.\<close>

definition verify :: "Host \<Rightarrow> rstr \<Rightarrow> unit task" where
  "verify host iso_file =
     t_bind (t_ask (\<lambda>events. h_read host events iso_file)) (\<lambda>r. case r of
       Inl e \<Rightarrow> t_err (str ''could not read '' @ iso_file @ str '': '' @ e)
     | Inr data \<Rightarrow>
         if length data < PVD_OFFSET + 6
         then t_err (iso_file @ str '' is too small to be an ISO ('' @ dec (length data) @ str '' bytes)'')
         else if take 5 (drop (PVD_OFFSET + 1) data) \<noteq> str ''CD001''
         then t_err (iso_file @ str '' has no ISO 9660 volume descriptor: xorriso reported success but produced something else'')
         else if data ! 510 \<noteq> 0x55 \<or> data ! 511 \<noteq> 0xAA
         then t_err (iso_file @ str '' has no partition table signature, so it would not boot from USB'')
         else t_say (str ''  verified: ISO 9660 volume descriptor and partition table signature both present''))"

definition xorriso_args :: "rstr \<Rightarrow> rstr \<Rightarrow> rstr list" where
  "xorriso_args iso_file iso_root =
     [str ''-as'', str ''mkisofs'', str ''-R'', str ''-J'', str ''-joliet-long'', str ''-V'', VOLUME_LABEL,
      str ''--efi-boot'', str ''boot/esp.img'', str ''-efi-boot-part'', str ''--efi-boot-image'',
      str ''--protective-msdos-label'', str ''-o'', iso_file, iso_root]"

text \<open>\<^verbatim>\<open>build\<close>, from the staging of the partition image on.\<close>

definition iso_write :: "Host \<Rightarrow> rstr \<Rightarrow> rstr \<Rightarrow> rstr \<Rightarrow> rstr task" where
  "iso_write host esp_image iso_root iso_file =
     (let staged_esp = join_path iso_root (str ''boot/esp.img'') in
      t_then (t_file (\<lambda>events. h_copy host events esp_image staged_esp) (CopiedFile esp_image staged_esp)
                (\<lambda>e. str ''could not stage the EFI system partition: '' @ e))
     (t_then (t_try (\<lambda>events. h_remove_file host events iso_file) (RemovedFile iso_file))
     (t_then (run_tool host (str ''xorriso'') (xorriso_args iso_file iso_root))
     (t_then (verify host iso_file)
     (t_ok iso_file)))))"

text \<open>The staging tree: cleared, filled with the files of the partition, and given a directory for the partition image.\<close>

definition iso_stage :: "Host \<Rightarrow> rstr \<Rightarrow> rstr \<Rightarrow> rstr \<Rightarrow> unit task" where
  "iso_stage host esp_tree iso_root boot =
     t_then (t_bind (t_ask (\<lambda>events. h_exists host events iso_root)) (\<lambda>present.
       if present
       then t_file (\<lambda>events. h_remove_dir host events iso_root) (RemovedDir iso_root)
              (\<lambda>e. str ''could not clear '' @ iso_root @ str '': '' @ e)
       else t_ok ()))
    (t_then (t_bind (t_ask (\<lambda>events. h_node host events esp_tree)) (copy_tree host esp_tree iso_root))
    (t_file (\<lambda>events. h_make_dir host events boot) (MadeDir boot)
       (\<lambda>e. str ''could not create the boot directory: '' @ e)))"

definition iso_build :: "Host \<Rightarrow> rstr \<Rightarrow> rstr \<Rightarrow> rstr \<Rightarrow> rstr task" where
  "iso_build host esp_tree out_dir version =
     t_then (check_tools host)
    (t_then (t_file (\<lambda>events. h_make_dir host events out_dir) (MadeDir out_dir)
               (\<lambda>e. str ''could not create '' @ out_dir @ str '': '' @ e))
    (t_bind (build_esp_image host esp_tree out_dir) (\<lambda>esp_image.
     let iso_root = join_path out_dir (str ''iso_root''); boot = join_path iso_root (str ''boot'');
         iso_file = join_path out_dir (str ''lokoos-'' @ version @ str ''-x86_64.iso'') in
     t_then (iso_stage host esp_tree iso_root boot)
    (iso_write host esp_image iso_root iso_file))))"

section \<open>The partition holds the tree\<close>

definition mmd :: "rstr \<Rightarrow> rstr \<Rightarrow> Event" where
  "mmd img target = Ran (str ''mmd'') [str ''-i'', img, target]"

definition mcopy :: "rstr \<Rightarrow> rstr \<Rightarrow> rstr \<Rightarrow> Event" where
  "mcopy img source target = Ran (str ''mcopy'') [str ''-i'', img, source, target]"

lemma mmd_mcopy [simp]: "mmd img t \<noteq> mcopy img' s t'" "mcopy img' s t' \<noteq> mmd img t"
  "mmd img t = mmd img' t' \<longleftrightarrow> img = img' \<and> t = t'"
  "mcopy img s t = mcopy img' s' t' \<longleftrightarrow> img = img' \<and> s = s' \<and> t = t'"
  by (auto simp: mmd_def mcopy_def)

text \<open>Everything below a directory: where it comes from, where it goes, and whether it is a directory.\<close>

function below :: "rstr \<Rightarrow> rstr \<Rightarrow> Node \<Rightarrow> (rstr \<times> rstr \<times> bool) set" where
  "below dir prefix (Dir entries) = (\<Union>(name, node) \<in> set entries.
     insert (join_path dir name, join_path prefix name, is_dir node) (below (join_path dir name) (join_path prefix name) node))"
| "below dir prefix (File len) = {}"
| "below dir prefix (Unreadable e) = {}"
| "below dir prefix (Link len node) = below dir prefix node"
  by pat_completeness auto

termination
  by (relation "measure (\<lambda>(dir, prefix, node). size node)") (auto dest: size_entries)

text \<open>The commands that fill the image, and that each puts something into a directory that is there.\<close>

function fat_script :: "rstr \<Rightarrow> rstr \<Rightarrow> rstr \<Rightarrow> Node \<Rightarrow> Event list" where
  "fat_script img dir prefix (Dir entries) = concat (map (\<lambda>(name, node).
     if is_dir node then mmd img (join_path prefix name) # fat_script img (join_path dir name) (join_path prefix name) node
     else [mcopy img (join_path dir name) (join_path prefix name)]) (sort_key fst entries))"
| "fat_script img dir prefix (File len) = []"
| "fat_script img dir prefix (Unreadable e) = []"
| "fat_script img dir prefix (Link len node) = fat_script img dir prefix node"
  by pat_completeness auto

termination
  by (relation "measure (\<lambda>(img, dir, prefix, node). size node)") (auto dest: size_entries)

inductive parents_first :: "rstr set \<Rightarrow> Event list \<Rightarrow> bool" where
  pf_done: "parents_first made []"
| pf_mmd: "parent \<in> made \<Longrightarrow> parents_first (insert (join_path parent name) made) script \<Longrightarrow>
     parents_first made (mmd img (join_path parent name) # script)"
| pf_mcopy: "parent \<in> made \<Longrightarrow> parents_first made script \<Longrightarrow> parents_first made (mcopy img source (join_path parent name) # script)"

lemma parents_first_mono: "parents_first made script \<Longrightarrow> made \<subseteq> made' \<Longrightarrow> parents_first made' script"
proof (induction arbitrary: made' rule: parents_first.induct)
  case (pf_mmd parent made name script img)
  have "parents_first (insert (join_path parent name) made') script" by (rule pf_mmd.IH) (use pf_mmd.prems in blast)
  then show ?case using pf_mmd by (blast intro: parents_first.pf_mmd)
qed (blast intro: parents_first.intros)+

lemma parents_first_append: "parents_first made a \<Longrightarrow> parents_first made b \<Longrightarrow> parents_first made (a @ b)"
proof (induction rule: parents_first.induct)
  case (pf_mmd parent made name script img)
  have "parents_first (insert (join_path parent name) made) b" by (rule parents_first_mono [OF pf_mmd.prems]) blast
  with pf_mmd show ?case by (simp add: parents_first.pf_mmd)
qed (simp_all add: parents_first.pf_mcopy)

lemma parents_first_concat: "(\<And>s. s \<in> set scripts \<Longrightarrow> parents_first made s) \<Longrightarrow> parents_first made (concat scripts)"
  by (induction scripts) (simp_all add: parents_first_append pf_done)

lemma fat_script_parents: "parents_first {prefix} (fat_script img dir prefix node)"
proof (induction img dir prefix node rule: fat_script.induct)
  case (1 img dir prefix entries)
  have "parents_first {prefix} (if is_dir node
      then mmd img (join_path prefix name) # fat_script img (join_path dir name) (join_path prefix name) node
      else [mcopy img (join_path dir name) (join_path prefix name)])" if "(name, node) \<in> set (sort_key fst entries)" for name node
  proof (cases "is_dir node")
    case True
    have "parents_first {join_path prefix name} (fat_script img (join_path dir name) (join_path prefix name) node)"
      by (rule "1.IH" [OF that refl True])
    then have "parents_first (insert (join_path prefix name) {prefix}) (fat_script img (join_path dir name) (join_path prefix name) node)"
      by (rule parents_first_mono) simp
    with True show ?thesis by (simp add: pf_mmd)
  qed (simp add: pf_mcopy pf_done)
  then show ?case unfolding fat_script.simps by (intro parents_first_concat) auto
qed (simp_all add: pf_done)

lemma fat_script_set:
  "set (fat_script img dir prefix node) =
     {mmd img target | source target. (source, target, True) \<in> below dir prefix node} \<union>
     {mcopy img source target | source target. (source, target, False) \<in> below dir prefix node}"
proof (induction img dir prefix node rule: fat_script.induct)
  case (1 img dir prefix entries)
  have "\<not> is_dir node \<Longrightarrow> below d p node = {}" for d p node by (induction node) simp_all
  then show ?case using "1.IH" by (fastforce simp: split: if_splits)
qed simp_all

lemma run_tool_Inr: "run_tool host binary args events = Some (events', Inr ()) \<Longrightarrow> events' = events @ [Ran binary args]"
  by (auto simp: run_tool_def split: Exit.splits if_splits)

lemma t_for_events:
  assumes "\<And>x events events'. x \<in> set xs \<Longrightarrow> f x events = Some (events', Inr ()) \<Longrightarrow> events' = events @ s x"
    and "t_for f xs events = Some (events', Inr ())"
  shows "events' = events @ concat (map s xs)"
  using assms
proof (induction xs arbitrary: events)
  case (Cons x xs)
  from Cons.prems(2) obtain e where e: "f x events = Some (e, Inr ())" "t_for f xs e = Some (events', Inr ())"
    by (auto elim: t_bind_InrE)
  show ?case using Cons.IH [OF Cons.prems(1) e(2)] Cons.prems(1) [OF _ e(1)] by simp
qed simp

lemma copy_tree_into_fat_events:
  "copy_tree_into_fat host img dir prefix node events = Some (events', Inr ()) \<Longrightarrow> events' = events @ fat_script img dir prefix node"
proof (induction host img dir prefix node arbitrary: events events' rule: copy_tree_into_fat.induct)
  case (3 host img dir prefix entries)
  show ?case
    unfolding fat_script.simps
  proof (rule t_for_events [OF _ "3.prems" [unfolded copy_tree_into_fat.simps]])
    fix x e e'
    assume x: "x \<in> set (sort_key fst entries)" and run: "(case x of (name, node) \<Rightarrow>
        let target = join_path prefix name; path = join_path dir name in
        if is_dir node then t_then (run_tool host (str ''mmd'') [str ''-i'', img, target]) (copy_tree_into_fat host img path target node)
        else run_tool host (str ''mcopy'') [str ''-i'', img, path, target]) e = Some (e', Inr ())"
    obtain name node where [simp]: "x = (name, node)" by (cases x)
    show "e' = e @ (case x of (name, node) \<Rightarrow> if is_dir node
        then mmd img (join_path prefix name) # fat_script img (join_path dir name) (join_path prefix name) node
        else [mcopy img (join_path dir name) (join_path prefix name)])"
    proof (cases "is_dir node")
      case True
      with run obtain d where d: "run_tool host (str ''mmd'') [str ''-i'', img, join_path prefix name] e = Some (d, Inr ())"
        "copy_tree_into_fat host img (join_path dir name) (join_path prefix name) node d = Some (e', Inr ())"
        by (auto simp: Let_def elim: t_bind_InrE)
      show ?thesis
        using "3.IH" [OF x, of name node, OF _ refl refl True d(2)] run_tool_Inr [OF d(1)] True by (simp add: mmd_def)
    next
      case False
      with run have "run_tool host (str ''mcopy'') [str ''-i'', img, join_path dir name, join_path prefix name] e = Some (e', Inr ())"
        by (simp add: Let_def)
      from run_tool_Inr [OF this] False show ?thesis by (simp add: mcopy_def)
    qed
  qed
qed simp_all

text \<open>
  C28. The partition image holds the whole tree, and every copy has somewhere to go. When the walk succeeds, the commands it has run
  make exactly the directories and copy exactly the files below the tree, each to its place under the prefix, and every one of
  them puts its target into the root or into a directory made before.
\<close>

theorem fat_copy_complete:
  assumes "copy_tree_into_fat host img dir prefix node events = Some (events', Inr ())"
  shows "\<exists>script. events' = events @ script \<and> parents_first {prefix} script \<and>
    set script = {mmd img target | source target. (source, target, True) \<in> below dir prefix node} \<union>
      {mcopy img source target | source target. (source, target, False) \<in> below dir prefix node}"
  by (intro exI conjI, rule copy_tree_into_fat_events [OF assms], rule fat_script_parents, rule fat_script_set)

section \<open>Reproducible images\<close>

text \<open>The same tree, with the entries of a directory in any order.\<close>

inductive same_tree :: "Node \<Rightarrow> Node \<Rightarrow> bool" where
  "same_tree (File len) (File len)"
| "same_tree (Unreadable e) (Unreadable e)"
| "same_tree a b \<Longrightarrow> same_tree (Link len a) (Link len b)"
| "distinct (map fst entries) \<Longrightarrow> list_all2 (rel_prod (=) same_tree) entries permuted \<Longrightarrow> mset permuted = mset listed \<Longrightarrow>
     same_tree (Dir entries) (Dir listed)"

inductive_simps same_tree_simps: "same_tree (File len) node" "same_tree (Unreadable e) node" "same_tree (Dir entries) node"
  "same_tree (Link len a) node"

lemma same_tree_is_dir: "same_tree a b \<Longrightarrow> is_dir a = is_dir b"
  by (induction rule: same_tree.induct) auto

lemma sort_related:
  assumes "list_all2 (rel_prod (=) r) xs ys"
  shows "list_all2 (rel_prod (=) r) (sort_key fst xs) (sort_key fst ys)"
proof -
  have insort: "list_all2 (rel_prod (=) r) (insort_key fst x us) (insort_key fst y vs)"
    if xy: "rel_prod (=) r x y" and lists: "list_all2 (rel_prod (=) r) us vs" for x y and us vs
  proof -
    obtain n a b where pair: "x = (n, a)" "y = (n, b)" "r a b" using xy by (auto elim: rel_prod.cases)
    from lists show ?thesis by (induction rule: list_all2_induct) (auto simp: pair elim!: rel_prod.cases)
  qed
  show ?thesis using assms by induction (simp_all add: insort)
qed

lemma t_for_related:
  assumes "list_all2 r xs ys" "\<And>x y. r x y \<Longrightarrow> x \<in> set xs \<Longrightarrow> f x = g y"
  shows "t_for f xs = t_for g ys"
  using assms by (induction) auto

lemma copy_same_tree:
  "same_tree node node' \<Longrightarrow> copy_tree_into_fat host img dir prefix node = copy_tree_into_fat host img dir prefix node'"
proof (induction host img dir prefix node arbitrary: node' rule: copy_tree_into_fat.induct)
  case (3 host img dir prefix entries)
  from "3.prems" obtain es es' where es: "node' = Dir es'" "distinct (map fst entries)"
    "list_all2 (rel_prod (=) same_tree) entries es" "mset es = mset es'" by (auto simp: same_tree_simps)
  have "map fst es = map fst entries" using es(3) by induction auto
  then have "inj_on fst (set es)" using es(2) by (metis distinct_map)
  then have sorted: "sort_key fst es = sort_key fst es'" by (intro sort_key_inj_key_eq) (simp_all add: es(4))
  show ?case
    unfolding es(1) copy_tree_into_fat.simps sorted [symmetric]
  proof (rule t_for_related [OF sort_related [OF es(3)]])
    fix x y
    assume r: "rel_prod (=) same_tree x y" "x \<in> set (sort_key fst entries)"
    obtain name a b where x: "x = (name, a)" "y = (name, b)" "same_tree a b" using r(1) by (cases x; cases y) auto
    show "(case x of (name, node) \<Rightarrow>
        let target = join_path prefix name; path = join_path dir name in
        if is_dir node then t_then (run_tool host (str ''mmd'') [str ''-i'', img, target]) (copy_tree_into_fat host img path target node)
        else run_tool host (str ''mcopy'') [str ''-i'', img, path, target]) =
      (case y of (name, node) \<Rightarrow>
        let target = join_path prefix name; path = join_path dir name in
        if is_dir node then t_then (run_tool host (str ''mmd'') [str ''-i'', img, target]) (copy_tree_into_fat host img path target node)
        else run_tool host (str ''mcopy'') [str ''-i'', img, path, target])"
      using "3.IH" [OF r(2) x(1) [symmetric] refl refl _ x(3)] same_tree_is_dir [OF x(3)] x(1,2) by (simp add: Let_def)
  qed
qed (auto simp: same_tree_simps)

text \<open>
  C29. Images are reproducible. The walk runs the same commands with the same results whatever the order in which the file system
  lists the entries of the directories, at every level of the tree.
\<close>

theorem fat_copy_reproducible:
  assumes "same_tree node node'"
  shows "copy_tree_into_fat host img dir prefix node = copy_tree_into_fat host img dir prefix node'"
  by (rule copy_same_tree [OF assms])

text \<open>A host on which every command succeeds, and the tree of an EFI system partition, as a file system might list it.\<close>

definition willing_host :: Host where
  "willing_host = plain_host\<lparr>h_run := (\<lambda>events binary args. Exited True [] [] [])\<rparr>"

definition demo_tree :: Node where
  "demo_tree = Dir [(str ''README'', File 10), (str ''EFI'', Dir [(str ''LOKO'', File 30), (str ''BOOT'', Dir [(str ''BOOTX64.EFI'', File 20)])])]"

definition demo_copy :: "unit task" where
  "demo_copy = copy_tree_into_fat willing_host (str ''esp.img'') (str ''esp'') (str ''::'') demo_tree"

lemma demo_copy_succeeds: "\<exists>events'. demo_copy [] = Some (events', Inr ())"
proof -
  have run: "run_tool willing_host binary args events = Some (events @ [Ran binary args], Inr ())" for binary args events
    by (simp add: run_tool_def willing_host_def)
  have "\<exists>events'. copy_tree_into_fat willing_host img dir prefix node events = Some (events', Inr ())"
    if "node = demo_tree" for img dir prefix node events
    using that by (simp add: demo_tree_def run str_def Let_def)
  then show ?thesis by (simp add: demo_copy_def)
qed

theorem fat_copy_complete_witness:
  "\<exists>script. demo_copy [] = Some (script, Inr ()) \<and> parents_first {str ''::''} script \<and>
     mcopy (str ''esp.img'') (str ''esp/README'') (str ''::/README'') \<in> set script"
proof -
  obtain events' where e: "demo_copy [] = Some (events', Inr ())" using demo_copy_succeeds by blast
  from fat_copy_complete [OF e [unfolded demo_copy_def]]
  have "parents_first {str ''::''} events'" "set events' = {mmd (str ''esp.img'') target | source target.
        (source, target, True) \<in> below (str ''esp'') (str ''::'') demo_tree} \<union>
      {mcopy (str ''esp.img'') source target | source target. (source, target, False) \<in> below (str ''esp'') (str ''::'') demo_tree}"
    by auto
  moreover have "(str ''esp/README'', str ''::/README'', False) \<in> below (str ''esp'') (str ''::'') demo_tree"
    by (simp add: demo_tree_def join_path_def str_def)
  ultimately show ?thesis using e by blast
qed

theorem fat_copy_reproducible_witness:
  "copy_tree_into_fat willing_host [] [] [] (Dir [(str ''b'', File 1), (str ''a'', File 2)]) =
   copy_tree_into_fat willing_host [] [] [] (Dir [(str ''a'', File 2), (str ''b'', File 1)])"
proof (rule fat_copy_reproducible)
  have "list_all2 (rel_prod (=) same_tree) [(str ''b'', File 1), (str ''a'', File 2)] [(str ''b'', File 1), (str ''a'', File 2)]"
    by (simp add: same_tree.intros)
  then show "same_tree (Dir [(str ''b'', File 1), (str ''a'', File 2)]) (Dir [(str ''a'', File 2), (str ''b'', File 1)])"
    by (rule same_tree.intros(4) [rotated]) (simp_all add: str_def)
qed

section \<open>The size of the partition\<close>

lemma div_ceil64_least:
  assumes "0 < b"
  shows "a \<le> div_ceil64 a b * b" "a \<le> k * b \<Longrightarrow> div_ceil64 a b \<le> k"
proof -
  have a: "a = a div b * b + a mod b" by simp
  show "a \<le> div_ceil64 a b * b"
    using assms dividend_less_times_div [of b a] by (auto simp: div_ceil64_def algebra_simps)
  assume "a \<le> k * b"
  then have le: "a div b \<le> k" using assms div_le_mono [of a "k * b" b] by simp
  show "div_ceil64 a b \<le> k"
  proof (cases "a mod b = 0")
    case False
    then have "a div b \<noteq> k" using a \<open>a \<le> k * b\<close> by (metis add_diff_cancel_left' diff_is_0_eq)
    with le show ?thesis by (simp add: div_ceil64_def)
  qed (simp add: div_ceil64_def le)
qed

text \<open>
  C40. The partition is big enough for what it holds. Unless the computation of its size overflows, which takes a payload of almost
  \<open>2 ^ 63\<close> bytes, the size leaves the payload's own length and the slack free, is at least the minimum, is a whole number of mebibytes, and is
  the smallest such size.
\<close>

theorem esp_size_correct:
  "if payload * 2 + 7 * 1024 ^ 2 \<le> 2 ^ 64
   then \<exists>mib. esp_size payload = Ret (mib * 1024 ^ 2) \<and> 2 * payload + 6 * 1024 ^ 2 \<le> mib * 1024 ^ 2 \<and> 16 \<le> mib \<and>
     (\<forall>other. 2 * payload + 6 * 1024 ^ 2 \<le> other * 1024 ^ 2 \<and> 16 \<le> other \<longrightarrow> mib \<le> other)
   else esp_size payload = Panic"
proof -
  define need where "need = max (payload * 2 + 6291456) 16777216"
  define mib where "mib = div_ceil64 need 1048576"
  have ceil: "need \<le> mib * 1048576" "\<And>k. need \<le> k * 1048576 \<Longrightarrow> mib \<le> k"
    unfolding mib_def by (rule div_ceil64_least; simp)+
  have least: "mib \<le> other" if "2 * payload + 6 * 1024 ^ 2 \<le> other * 1024 ^ 2" "16 \<le> other" for other
    by (rule ceil(2)) (use that in \<open>simp add: need_def\<close>)
  have eq: "esp_size payload = do {
     twice \<leftarrow> mul64 payload 2;
     needed \<leftarrow> add64 twice 6291456;
     kib \<leftarrow> mul64 (div_ceil64 (max needed 16777216) 1048576) 1024;
     mul64 kib 1024
   }" by (simp add: esp_size_def ESP_SLACK_BYTES_def ESP_MINIMUM_BYTES_def Let_def)
  show ?thesis
  proof (cases "payload * 2 + 7 * 1024 ^ 2 \<le> (2 ^ 64 :: nat)")
    case True
    have "mib \<le> 2 ^ 44 - 1" by (rule ceil(2)) (use True in \<open>simp add: need_def\<close>)
    then have "mib * 1024 < 2 ^ 64" "mib * 1024 * 1024 < 2 ^ 64" by simp_all
    then have "esp_size payload = Ret (mib * 1024 * 1024)"
      using True unfolding eq by (simp add: mul64_Ret add64_Ret need_def [symmetric] mib_def [symmetric])
    moreover have "16 \<le> mib" using ceil(1) by (simp add: need_def)
    moreover have "2 * payload + 6 * 1024 ^ 2 \<le> mib * 1024 ^ 2" using ceil(1) by (simp add: need_def)
    ultimately show ?thesis using True least by (simp only: if_True) (intro exI [of _ mib], simp)
  next
    case False
    have "2 ^ 44 \<le> mib"
    proof (rule ccontr)
      assume "\<not> 2 ^ 44 \<le> mib"
      then have "mib * 1048576 \<le> 2 ^ 64 - 1048576" by simp
      with ceil(1) False show False by (simp add: need_def)
    qed
    have "esp_size payload = Panic"
    proof (rule ccontr)
      assume "esp_size payload \<noteq> Panic"
      then obtain len where "esp_size payload = Ret len" by blast
      then have "mib * 1024 * 1024 < 2 ^ 64" unfolding eq by (auto simp: bind_eq_Some_conv need_def mib_def)
      with \<open>2 ^ 44 \<le> mib\<close> show False by simp
    qed
    with False show ?thesis by simp
  qed
qed

theorem esp_size_correct_witness: "esp_size 20000000 = Ret (45 * 1024 ^ 2)"
proof -
  from esp_size_correct [of 20000000] obtain mib where
    m: "esp_size 20000000 = Ret (mib * 1024 ^ 2)" "2 * 20000000 + 6 * 1024 ^ 2 \<le> mib * 1024 ^ 2"
      "\<And>other. 2 * 20000000 + 6 * 1024 ^ 2 \<le> other * 1024 ^ 2 \<Longrightarrow> 16 \<le> other \<Longrightarrow> mib \<le> other"
    by (auto split: if_splits)
  have "mib \<le> 45" by (rule m(3)) simp_all
  moreover have "45 \<le> mib" using m(2) by simp
  ultimately show ?thesis using m(1) by simp
qed

section \<open>What a built image is\<close>

definition verified_text :: rstr where
  "verified_text = str ''  verified: ISO 9660 volume descriptor and partition table signature both present''"

text \<open>The two checks: a volume descriptor in sector 16, a signature at the end of sector 0.\<close>

definition passes_checks :: "nat list \<Rightarrow> bool" where
  "passes_checks data \<longleftrightarrow> 16 * 2048 + 6 \<le> length data \<and> take 5 (drop (16 * 2048 + 1) data) = str ''CD001'' \<and>
     data ! 510 = 0x55 \<and> data ! 511 = 0xAA"

text \<open>An option of a command line and its argument.\<close>

fun has_pair :: "rstr \<Rightarrow> rstr \<Rightarrow> rstr list \<Rightarrow> bool" where
  "has_pair a b (x # y # rest) = ((x = a \<and> y = b) \<or> has_pair a b (y # rest))"
| "has_pair a b _ = False"

lemma xorriso_options:
  "has_pair (str ''--efi-boot'') (str ''boot/esp.img'') (xorriso_args iso_file iso_root)"
  "has_pair (str ''-o'') iso_file (xorriso_args iso_file iso_root)"
  by (simp_all add: xorriso_args_def)

text \<open>Tasks that only add to the events.\<close>

definition grows :: "'a task \<Rightarrow> bool" where
  "grows m \<longleftrightarrow> (\<forall>events events' r. m events = Some (events', r) \<longrightarrow> (\<exists>new. events' = events @ new))"

lemma growsD: "grows m \<Longrightarrow> m events = Some (events', r) \<Longrightarrow> \<exists>new. events' = events @ new"
  unfolding grows_def by blast

named_theorems grows_rules \<open>tasks that only add to the events, construct by construct\<close>

lemma grows_base [grows_rules]:
  "grows (t_ok x)" "grows (t_err message)" "grows (t_ask question)" "grows (t_file attempt e m)" "grows (t_try attempt e)"
  by (auto simp: grows_def t_file_def split: option.splits)

lemma grows_bind [grows_rules]: "grows m \<Longrightarrow> (\<And>x. grows (f x)) \<Longrightarrow> grows (t_bind m f)"
  unfolding grows_def t_bind_def by (fastforce split: option.splits sum.splits)

lemma grows_for [grows_rules]: "(\<And>x. x \<in> set xs \<Longrightarrow> grows (f x)) \<Longrightarrow> grows (t_for f xs)"
  by (induction xs) (auto intro: grows_rules)

lemma grows_copy_tree [grows_rules]: "grows (copy_tree host from_dir to_dir node)"
proof (induction host from_dir to_dir node rule: copy_tree.induct)
  case (1 host from_dir to_dir node)
  show ?case
    unfolding copy_tree.simps [of host from_dir to_dir node] Let_def
    by (cases "resolve node") (auto intro!: grows_rules "1.IH")
qed

lemma verify_Inr:
  assumes "verify host iso_file events = Some (events', Inr ())"
  shows "\<exists>data. h_read host events iso_file = Inr data \<and> passes_checks data \<and> events' = events @ [Said verified_text]"
proof (cases "h_read host events iso_file")
  case (Inr data)
  then show ?thesis
    using assms by (auto simp: verify_def passes_checks_def PVD_OFFSET_def verified_text_def not_less split: if_splits)
qed (use assms in \<open>simp add: verify_def\<close>)

lemma run_tool_success:
  assumes "run_tool host binary args events = Some (events', Inr ())"
  shows "\<exists>status out err. h_run host events binary args = Exited True status out err"
  using assms by (auto simp: run_tool_def split: Exit.splits if_splits)

text \<open>The partition image: formatted, then filled with the tree that is found.\<close>

lemma build_esp_image_Inr:
  assumes "build_esp_image host esp_tree out_dir events = Some (events', Inr img)"
  shows "img = join_path out_dir (str ''esp.img'') \<and> (\<exists>earlier blocks text. let made = earlier @ [Ran (str ''mkfs.vfat'') (mkfs_args img blocks)] in
    events' = made @ fat_script img esp_tree (str ''::'') (h_node host made esp_tree) @ [Said text])"
proof -
  let ?img = "join_path out_dir (str ''esp.img'')"
  obtain len e e1 e2 node e3 e4 said where run: "run_tool host (str ''mkfs.vfat'') (mkfs_args ?img (len div 1024)) e = Some (e1, Inr ())"
    "t_ask (\<lambda>events. h_node host events esp_tree) e1 = Some (e2, Inr node)"
    "copy_tree_into_fat host ?img esp_tree (str ''::'') node e2 = Some (e3, Inr ())"
    "t_say said e3 = Some (e4, Inr ())" "t_ok ?img e4 = Some (events', Inr img)"
    using assms unfolding build_esp_image_def Let_def by (elim t_then_InrE t_bind_InrE) (rule that)
  then have img: "img = ?img" "e2 = e1" "node = h_node host e1 esp_tree" "events' = e3 @ [Said said]" by auto
  have "events' = e1 @ fat_script ?img esp_tree (str ''::'') (h_node host e1 esp_tree) @ [Said said]"
    using copy_tree_into_fat_events [OF run(3)] unfolding img by simp
  then show ?thesis
    unfolding img(1) run_tool_Inr [OF run(1)] Let_def by blast
qed

lemma iso_write_Inr:
  assumes "iso_write host esp_image iso_root iso_file events = Some (events', Inr result)"
  shows "\<exists>staged old status out err data. result = iso_file \<and>
    staged = events @ [CopiedFile esp_image (join_path iso_root (str ''boot/esp.img''))] \<and>
    old = (if h_remove_file host staged iso_file = None then [RemovedFile iso_file] else []) \<and>
    h_run host (staged @ old) (str ''xorriso'') (xorriso_args iso_file iso_root) = Exited True status out err \<and>
    h_read host (staged @ old @ [Ran (str ''xorriso'') (xorriso_args iso_file iso_root)]) iso_file = Inr data \<and> passes_checks data \<and>
    events' = staged @ old @ [Ran (str ''xorriso'') (xorriso_args iso_file iso_root), Said verified_text]"
proof -
  let ?staged = "events @ [CopiedFile esp_image (join_path iso_root (str ''boot/esp.img''))]"
  let ?old = "if h_remove_file host ?staged iso_file = None then [RemovedFile iso_file] else []"
  obtain e1 e2 e e3 where run: "t_file (\<lambda>events. h_copy host events esp_image (join_path iso_root (str ''boot/esp.img'')))
      (CopiedFile esp_image (join_path iso_root (str ''boot/esp.img'')))
      (\<lambda>e. str ''could not stage the EFI system partition: '' @ e) events = Some (e1, Inr ())"
    "t_try (\<lambda>events. h_remove_file host events iso_file) (RemovedFile iso_file) e1 = Some (e2, Inr ())"
    "run_tool host (str ''xorriso'') (xorriso_args iso_file iso_root) e2 = Some (e, Inr ())"
    and v: "verify host iso_file e = Some (e3, Inr ())" "t_ok iso_file e3 = Some (events', Inr result)"
    using assms unfolding iso_write_def Let_def by (elim t_then_InrE) (rule that)
  have result: "result = iso_file" "e3 = events'" using v(2) by simp_all
  have e1: "e1 = ?staged" using run(1) by (rule t_file_InrE)
  have e2: "e2 = ?staged @ ?old" using run(2) unfolding e1 t_try_eq by simp
  note e = run(3) [unfolded e2]
  obtain status out err where tool: "h_run host (?staged @ ?old) (str ''xorriso'') (xorriso_args iso_file iso_root) = Exited True status out err"
    using run_tool_success [OF e] by blast
  obtain data where data: "h_read host e iso_file = Inr data" "passes_checks data" "events' = e @ [Said verified_text]"
    using verify_Inr [OF v(1)] unfolding result by blast
  note data = data [unfolded run_tool_Inr [OF e] append_assoc append_Cons append_Nil]
  show ?thesis
    by (rule exI [of _ ?staged], rule exI [of _ ?old], intro exI conjI, rule result(1), rule refl, rule refl, rule tool)
      (use data in \<open>simp_all only: append_assoc append_Cons append_Nil\<close>)
qed


text \<open>A host whose commands succeed and whose image files pass the checks.\<close>

definition image_bytes :: "nat list" where
  "image_bytes = replicate 510 0 @ [0x55, 0xAA] @ replicate 32257 0 @ str ''CD001'' @ [1]"

lemma image_bytes: "passes_checks image_bytes" "length image_bytes = 32775"
  by (simp_all add: passes_checks_def image_bytes_def str_def nth_append)

definition building_host :: Host where
  "building_host = willing_host\<lparr>h_read := (\<lambda>events path. Inr image_bytes), h_node := (\<lambda>events path. Dir [])\<rparr>"

lemma building_host:
  "run_tool building_host binary args events = Some (events @ [Ran binary args], Inr ())"
  "tool_present building_host binary events = Some (events @ [Ran binary [str ''--help'']], Inr True)"
  "h_make_dir building_host events path = None" "h_remove_dir building_host events path = None"
  "h_copy building_host events source path = None" "h_exists building_host events path"
  "h_node building_host events path = Dir []"
  "verify building_host path events = Some (events @ [Said verified_text], Inr ())"
  using image_bytes
  by (simp_all add: run_tool_def tool_present_def started_def building_host_def willing_host_def plain_host_def verify_def
    passes_checks_def PVD_OFFSET_def verified_text_def)

lemma building_succeeds:
  "\<exists>events'. iso_build building_host esp out version events =
     Some (events', Inr (join_path out (str ''lokoos-'' @ version @ str ''-x86_64.iso'')))"
proof -
  have size: "esp_size 0 = Ret 16777216"
    by (simp add: esp_size_def ESP_SLACK_BYTES_def ESP_MINIMUM_BYTES_def Let_def mul64_Ret add64_Ret div_ceil64_def)
  have "t_run (esp_size 0) events = Some (events, Inr 16777216)" for events by (simp add: t_run_def size)
  then have esp: "\<exists>events'. build_esp_image building_host esp out events = Some (events', Inr (join_path out (str ''esp.img'')))" for events
    by (simp add: build_esp_image_def t_tree_size_def building_host Let_def)
  show ?thesis
    using esp [of "(((events @ [Ran (str ''mkfs.vfat'') [str ''--help'']]) @ [Ran (str ''mmd'') [str ''--help'']]) @
        [Ran (str ''mcopy'') [str ''--help'']] @ [Ran (str ''xorriso'') [str ''--help''], MadeDir out])"]
    by (auto simp: iso_build_def check_tools_def REQUIRED_TOOLS_def t_file_def building_host Let_def copy_tree.simps iso_stage_def iso_write_def)
qed


end
