(* ===== verification/Xtask_Driver.thy ===== *)
theory Xtask_Driver
  imports Xtask_Iso Boot_Test
begin

text \<open>
  The commands of the build driver, \<^verbatim>\<open>src/tools/xtask/src/main.rs\<close>: which \<^verbatim>\<open>cargo\<close> commands each of
  them runs, in which order, and what becomes of the results.
\<close>

section \<open>Running cargo\<close>

definition BARE_METAL_CRATES :: "rstr list" where
  "BARE_METAL_CRATES = [str ''loko-kernel'', str ''loko-boot'']"

definition BUILD_STD :: "rstr list" where
  "BUILD_STD = [str ''-Zbuild-std=core,compiler_builtins,alloc'', str ''-Zbuild-std-features=compiler-builtins-mem'']"

definition cargo :: "Host \<Rightarrow> rstr list \<Rightarrow> unit task" where
  "cargo host args =
     t_bind (select host) (\<lambda>toolchain.
     let full = (case toolchain of Some name \<Rightarrow> [43 # name] | None \<Rightarrow> []) @ args in
     t_then (t_say (10 # str ''> cargo '' @ join_str (str '' '') full))
    (t_bind (t_command host (str ''cargo'') full) (\<lambda>x. case x of
       NotStarted e \<Rightarrow> t_err (str ''could not run cargo: '' @ e @ str ''. Is Rust installed and on PATH?'')
     | Exited success _ _ _ \<Rightarrow>
         if success then t_ok () else t_err (str ''`cargo '' @ join_str (str '' '') full @ str ''` failed''))))"

definition profile_args :: "bool \<Rightarrow> rstr list" where
  "profile_args optimised = (if optimised then [str ''--release''] else [])"

definition profile_dir :: "bool \<Rightarrow> rstr" where
  "profile_dir optimised = (if optimised then str ''release'' else str ''debug'')"

section \<open>Building\<close>

definition kernel_args :: "bool \<Rightarrow> rstr list" where
  "kernel_args optimised =
     [str ''build'', str ''-p'', str ''loko-kernel'', str ''--target'', str ''x86_64-unknown-none''] @ BUILD_STD @ profile_args optimised"

definition kernel_file :: "Host \<Rightarrow> bool \<Rightarrow> rstr" where
  "kernel_file host optimised =
     join_path (join_path (join_path (h_root host) (str ''target/x86_64-unknown-none'')) (profile_dir optimised)) (str ''loko-kernel'')"

definition build_kernel :: "Host \<Rightarrow> bool \<Rightarrow> rstr task" where
  "build_kernel host optimised =
     t_then (cargo host (kernel_args optimised))
    (let path = kernel_file host optimised in
     t_bind (t_ask (\<lambda>events. h_exists host events path)) (\<lambda>present.
     if \<not> present then t_err (str ''the kernel did not appear at '' @ path) else t_ok path))"

definition bootloader_args :: "bool \<Rightarrow> rstr list" where
  "bootloader_args optimised =
     [str ''build'', str ''-p'', str ''loko-boot'', str ''--target'', str ''x86_64-unknown-uefi''] @ BUILD_STD @ profile_args optimised"

definition bootloader_file :: "Host \<Rightarrow> bool \<Rightarrow> rstr" where
  "bootloader_file host optimised =
     join_path (join_path (join_path (h_root host) (str ''target/x86_64-unknown-uefi'')) (profile_dir optimised)) (str ''loko-boot.efi'')"

definition build_bootloader :: "Host \<Rightarrow> bool \<Rightarrow> rstr task" where
  "build_bootloader host optimised =
     t_then (cargo host (bootloader_args optimised))
    (let path = bootloader_file host optimised in
     t_bind (t_ask (\<lambda>events. h_exists host events path)) (\<lambda>present.
     if \<not> present then t_err (str ''the bootloader did not appear at '' @ path) else t_ok path))"

definition file_len :: "Host \<Rightarrow> rstr \<Rightarrow> nat task" where
  "file_len host path = t_ask (\<lambda>events. case h_len host events path of Inr len \<Rightarrow> len | Inl _ \<Rightarrow> 0)"

definition describe :: "Host \<Rightarrow> rstr \<Rightarrow> rstr task" where
  "describe host path = t_bind (file_len host path) (\<lambda>len. t_ok (path @ str ''  ('' @ human_size len @ str '')''))"

definition build_all :: "Host \<Rightarrow> bool \<Rightarrow> unit task" where
  "build_all host optimised =
     t_bind (build_bootloader host optimised) (\<lambda>bootloader.
     t_bind (build_kernel host optimised) (\<lambda>kernel.
     t_bind (describe host bootloader) (\<lambda>text.
     t_then (t_say (10 # str ''bootloader  '' @ text))
    (t_bind (describe host kernel) (\<lambda>text.
     t_say (str ''kernel      '' @ text))))))"

section \<open>Images\<close>

definition esp_dir :: "Host \<Rightarrow> rstr" where
  "esp_dir host = join_path (h_root host) (str ''build/esp'')"

definition image_files :: "Host \<Rightarrow> rstr \<Rightarrow> rstr \<Rightarrow> (rstr \<times> rstr) list" where
  "image_files host bootloader kernel_path =
     (let boot_dir = join_path (esp_dir host) (str ''EFI/BOOT''); loko_dir = join_path (esp_dir host) (str ''EFI/LOKO'') in
      [(bootloader, join_path boot_dir (str ''BOOTX64.EFI'')),
       (bootloader, join_path loko_dir (str ''loko-boot.efi'')),
       (kernel_path, join_path loko_dir (str ''loko-kernel''))])"

definition esp_image :: "Host \<Rightarrow> bool \<Rightarrow> rstr task" where
  "esp_image host optimised =
     t_bind (build_bootloader host optimised) (\<lambda>bootloader.
     t_bind (build_kernel host optimised) (\<lambda>kernel.
     let esp = esp_dir host in
     t_then (t_for (\<lambda>dir. t_file (\<lambda>events. h_make_dir host events dir) (MadeDir dir)
                (\<lambda>e. str ''could not create '' @ dir @ str '': '' @ e))
              [join_path esp (str ''EFI/BOOT''), join_path esp (str ''EFI/LOKO'')])
    (t_then (t_for (\<lambda>(source, destination). t_file (\<lambda>events. h_copy host events source destination) (CopiedFile source destination)
                (\<lambda>e. str ''could not copy '' @ source @ str '' to '' @ destination @ str '': '' @ e))
              (image_files host bootloader kernel))
    (t_then (t_say (10 # str ''EFI system partition laid out at '' @ esp))
    (t_then (t_say (str ''  EFI/BOOT/BOOTX64.EFI   the bootloader, under the name firmware looks for''))
    (t_then (t_say (str ''  EFI/LOKO/loko-boot.efi the same binary, under its own name''))
    (t_then (t_say (str ''  EFI/LOKO/loko-kernel   the kernel''))
    (t_then (t_say (10 # str ''This is a directory tree, not a disk image. `cargo xtask iso` turns it'' @ 10 #
       str ''into a bootable hybrid ISO; copying it onto an already-formatted EFI'' @ 10 # str ''system partition works too.''))
    (t_ok esp)))))))))"

definition build_iso :: "Host \<Rightarrow> bool \<Rightarrow> rstr task" where
  "build_iso host optimised =
     t_bind (esp_image host optimised) (\<lambda>esp.
     let out_dir = join_path (h_root host) (str ''build'') in
     t_then (t_say (10 # str ''Building a bootable ISO''))
    (t_bind (iso_build host esp out_dir VERSION) (\<lambda>iso_file.
     t_bind (file_len host iso_file) (\<lambda>len.
     t_then (t_say (10 # str ''ISO written to '' @ iso_file @ str ''  ('' @ human_size len @ str '')''))
    (t_then (t_say (10 # str ''Boot it with:'' @ 10 # str ''    qemu-system-x86_64 -cpu max -m 512M -cdrom '' @ iso_file @
       str '' -serial stdio -display none'' @ 10 # str ''or write it to a USB stick with dd. It is a hybrid image, so both work.''))
    (t_ok iso_file))))))"

definition boot_test_command :: "Host \<Rightarrow> bool \<Rightarrow> unit task" where
  "boot_test_command host optimised =
     t_bind (build_iso host optimised) (\<lambda>iso_file. qemu_run host iso_file (join_path (h_root host) (str ''build/boot-test'')))"

definition size_command :: "Host \<Rightarrow> bool \<Rightarrow> unit task" where
  "size_command host optimised =
     t_bind (build_bootloader host optimised) (\<lambda>bootloader.
     t_bind (build_kernel host optimised) (\<lambda>kernel.
     budget_report host [(str ''bootloader'', bootloader), (str ''kernel'', kernel)]))"

section \<open>Checks\<close>

definition host_exclusions :: "rstr list" where
  "host_exclusions = concat (map (\<lambda>c. [str ''--exclude'', c]) BARE_METAL_CRATES)"

definition test_args :: "rstr list" where
  "test_args = [str ''test'', str ''--workspace''] @ host_exclusions"

definition test_command :: "Host \<Rightarrow> unit task" where
  "test_command host = cargo host test_args"

definition clippy_workspace_args :: "rstr list" where
  "clippy_workspace_args =
     [str ''clippy'', str ''--workspace'', str ''--all-targets''] @ host_exclusions @ [str ''--'', str ''-Dwarnings'']"

definition clippy_package_args :: "rstr \<Rightarrow> rstr \<Rightarrow> rstr list" where
  "clippy_package_args package target =
     [str ''clippy'', str ''-p'', package, str ''--target'', target] @ BUILD_STD @ [str ''--'', str ''-Dwarnings'']"

definition clippy :: "Host \<Rightarrow> unit task" where
  "clippy host =
     t_then (cargo host clippy_workspace_args)
       (t_for (\<lambda>(package, target). cargo host (clippy_package_args package target))
          [(str ''loko-kernel'', str ''x86_64-unknown-none''), (str ''loko-boot'', str ''x86_64-unknown-uefi'')])"

definition fmt_args :: "bool \<Rightarrow> rstr list" where
  "fmt_args check = [str ''fmt'', str ''--all''] @ (if check then [str ''--check''] else [])"

definition fmt :: "Host \<Rightarrow> bool \<Rightarrow> unit task" where
  "fmt host check = cargo host (fmt_args check)"

definition check_everything :: "Host \<Rightarrow> unit task" where
  "check_everything host =
     t_then (fmt host True) (t_then (clippy host) (t_then (test_command host) (t_then (build_all host False)
       (t_say (10 # str ''Everything passed.'')))))"

section \<open>The command line\<close>

definition print_help :: "unit task" where
  "print_help = t_say (
     str ''LokoOS build driver'' @ [10, 10] @
     str ''USAGE:'' @ 10 #
     str ''    cargo xtask <command> [--release]'' @ [10, 10] @
     str ''COMMANDS:'' @ 10 #
     str ''    build        Build the kernel and the bootloader'' @ 10 #
     str ''    kernel       Build the kernel only'' @ 10 #
     str ''    bootloader   Build the bootloader only'' @ 10 #
     str ''    image        Build both and lay out an EFI system partition in build/esp'' @ 10 #
     str ''    iso          Build a bootable hybrid ISO in build/'' @ 10 #
     str ''    boot-test    Build the ISO and boot it under QEMU, checking the serial log'' @ 10 #
     str ''    size         Build in release and report against the 2 GB base-OS budget'' @ 10 #
     str ''    test         Run the host test suite'' @ 10 #
     str ''    clippy       Lint every crate, for its own target'' @ 10 #
     str ''    fmt          Format every crate (--check to verify without writing)'' @ 10 #
     str ''    check        test + clippy + fmt --check + build. What CI runs.'' @ 10 #
     str ''    help         This message'' @ [10, 10] @
     str ''NOTES:'' @ 10 #
     str ''    The kernel and bootloader are cross-compiled and are excluded from host'' @ 10 #
     str ''    commands automatically. On a Windows machine without Visual Studio, the'' @ 10 #
     str ''    driver selects the GNU toolchain so that linking works without an external'' @ 10 #
     str ''    linker; set LOKO_TOOLCHAIN to override.'')"

definition dispatch_command :: "Host \<Rightarrow> rstr list \<Rightarrow> unit task" where
  "dispatch_command host args =
     (let command = (case args of [] \<Rightarrow> str ''help'' | c # _ \<Rightarrow> c);
          flags = (case args of [] \<Rightarrow> [] | _ # rest \<Rightarrow> rest);
          optimised = (str ''--release'' \<in> set flags) in
      if command = str ''build'' then build_all host optimised
      else if command = str ''kernel'' then t_bind (build_kernel host optimised) (\<lambda>_. t_ok ())
      else if command = str ''bootloader'' then t_bind (build_bootloader host optimised) (\<lambda>_. t_ok ())
      else if command = str ''image'' then t_bind (esp_image host optimised) (\<lambda>_. t_ok ())
      else if command = str ''iso'' then t_bind (build_iso host optimised) (\<lambda>_. t_ok ())
      else if command = str ''boot-test'' then boot_test_command host optimised
      else if command = str ''size'' then size_command host optimised
      else if command = str ''test'' then test_command host
      else if command = str ''clippy'' then clippy host
      else if command = str ''fmt'' then fmt host (str ''--check'' \<in> set flags)
      else if command = str ''check'' then check_everything host
      else if command \<in> {str ''help'', str ''--help'', str ''-h''} then print_help
      else t_err (str ''unknown command `'' @ command @ str ''`. Run `cargo xtask help` for the list.''))"

text \<open>Whether the driver exits successfully.\<close>

definition xtask_main :: "Host \<Rightarrow> rstr list \<Rightarrow> bool task" where
  "xtask_main host args events =
     (case dispatch_command host args events of
        None \<Rightarrow> None
      | Some (events', Inr _) \<Rightarrow> Some (events', Inr True)
      | Some (events', Inl message) \<Rightarrow> Some (events' @ [Said (10 # str ''xtask: '' @ message)], Inr False))"

section \<open>The bare-metal crates\<close>

text \<open>A task that causes only events of a kind.\<close>

definition emits :: "(Event \<Rightarrow> bool) \<Rightarrow> 'a task \<Rightarrow> bool" where
  "emits q m \<longleftrightarrow> (\<forall>events events' r. m events = Some (events', r) \<longrightarrow> (\<forall>e \<in> set events'. e \<in> set events \<or> q e))"

named_theorems emits_rules \<open>which events a task causes, construct by construct\<close>

lemma emits_base [emits_rules]:
  "emits q (t_ok x)" "emits q (t_err message)" "emits q (t_ask question)" "emits q (t_run m)"
  by (auto simp: emits_def t_run_def split: option.splits)

lemma emits_do [emits_rules]:
  "q e \<Longrightarrow> emits q (t_do e)" "q (Said text) \<Longrightarrow> emits q (t_say text)" "q e \<Longrightarrow> emits q (t_file attempt e message)"
  "q (Ran binary args) \<Longrightarrow> emits q (t_command host binary args)" "q e \<Longrightarrow> emits q (t_try attempt e)"
  by (auto simp: emits_def t_file_def split: option.splits)

lemma emits_bind [emits_rules]: "emits q m \<Longrightarrow> (\<And>x. emits q (f x)) \<Longrightarrow> emits q (t_bind m f)"
  unfolding emits_def t_bind_def by (fastforce split: option.splits sum.splits)

lemma emits_for [emits_rules]: "(\<And>x. x \<in> set xs \<Longrightarrow> emits q (f x)) \<Longrightarrow> emits q (t_for f xs)"
  by (induction xs) (auto intro: emits_rules)

lemma emits_cases [emits_rules]:
  "(b \<Longrightarrow> emits q m) \<Longrightarrow> (\<not> b \<Longrightarrow> emits q n) \<Longrightarrow> emits q (if b then m else n)"
  "(opt = None \<Longrightarrow> emits q m) \<Longrightarrow> (\<And>x. opt = Some x \<Longrightarrow> emits q (f x)) \<Longrightarrow> emits q (case opt of None \<Rightarrow> m | Some x \<Rightarrow> f x)"
  "(\<And>e. s = Inl e \<Longrightarrow> emits q (g e)) \<Longrightarrow> (\<And>x. s = Inr x \<Longrightarrow> emits q (h x)) \<Longrightarrow> emits q (case s of Inl e \<Rightarrow> g e | Inr x \<Rightarrow> h x)"
  "(\<And>a b. p = (a, b) \<Longrightarrow> emits q (k a b)) \<Longrightarrow> emits q (case p of (a, b) \<Rightarrow> k a b)"
  "(\<And>e. x = NotStarted e \<Longrightarrow> emits q (u e)) \<Longrightarrow> (\<And>a b c d. x = Exited a b c d \<Longrightarrow> emits q (v a b c d)) \<Longrightarrow>
     emits q (case x of NotStarted e \<Rightarrow> u e | Exited a b c d \<Rightarrow> v a b c d)"
  by (auto split: option.split sum.split prod.split Exit.split)

lemma emits_Let [emits_rules]: "emits q (f x) \<Longrightarrow> emits q (let y = x in f y)"
  by simp

text \<open>
  A \<^verbatim>\<open>cargo\<close> command that keeps the bare-metal crates away from the host: a command for the whole workspace excludes both, and
  a command for one of them names its own target.
\<close>

definition keeps_targets :: "rstr list \<Rightarrow> bool" where
  "keeps_targets args \<longleftrightarrow> (\<forall>(crate, target) \<in> {(str ''loko-kernel'', str ''x86_64-unknown-none''), (str ''loko-boot'', str ''x86_64-unknown-uefi'')}.
     (str ''--workspace'' \<in> set args \<longrightarrow> has_pair (str ''--exclude'') crate args) \<and>
     (has_pair (str ''-p'') crate args \<longrightarrow> has_pair (str ''--target'') target args))"

definition sound_event :: "Event \<Rightarrow> bool" where
  "sound_event e \<longleftrightarrow> (\<forall>args. e = Ran (str ''cargo'') args \<longrightarrow> keeps_targets args)"

lemma sound_event_simps [simp]:
  "sound_event (Said text)" "sound_event (MadeDir path)" "sound_event (CopiedFile source path)" "sound_event (RemovedFile path)"
  "sound_event (RemovedDir path)" "binary \<noteq> str ''cargo'' \<Longrightarrow> sound_event (Ran binary args)"
  by (simp_all add: sound_event_def)

lemma binary_names [simp]:
  "str ''link.exe'' \<noteq> str ''cargo''" "str ''rustup'' \<noteq> str ''cargo''" "str ''mmd'' \<noteq> str ''cargo''" "str ''mcopy'' \<noteq> str ''cargo''"
  "str ''mkfs.vfat'' \<noteq> str ''cargo''" "str ''xorriso'' \<noteq> str ''cargo''" "str ''qemu-system-x86_64'' \<noteq> str ''cargo''"
  by (simp_all add: str_def)

lemma has_pair_Cons: "has_pair a b args \<Longrightarrow> has_pair a b (x # args)" "x \<noteq> a \<Longrightarrow> has_pair a b (x # args) = has_pair a b args"
  by (cases args; simp)+

lemma keeps_targets_toolchain:
  assumes "keeps_targets args"
  shows "keeps_targets ((case toolchain of Some name \<Rightarrow> [43 # name] | None \<Rightarrow> []) @ args)"
proof (cases toolchain)
  case (Some name)
  have "str ''--workspace'' \<noteq> 43 # name" "43 # name \<noteq> str ''-p''" by (simp_all add: str_def)
  then show ?thesis using assms Some by (auto simp: keeps_targets_def has_pair_Cons)
qed (use assms in simp)

lemma emits_select [emits_rules]: "emits sound_event (select host)"
proof -
  have "sound_event (Ran (str ''link.exe'') args)" "sound_event (Ran (str ''rustup'') args)" for args by simp_all
  then show ?thesis unfolding emits_def
  proof (intro allI impI ballI)
    fix events events' r e
    assume "select host events = Some (events', r)" "e \<in> set events'"
    with select_events [of host events] show "e \<in> set events \<or> sound_event e" by fastforce
  qed
qed

lemma emits_cargo: "keeps_targets args \<Longrightarrow> emits sound_event (cargo host args)"
  unfolding cargo_def Let_def
  by (intro emits_rules) (simp_all add: sound_event_def keeps_targets_toolchain)

lemma command_lines_keep:
  "keeps_targets (kernel_args optimised)" "keeps_targets (bootloader_args optimised)" "keeps_targets test_args"
  "keeps_targets clippy_workspace_args" "keeps_targets (fmt_args check)"
  "keeps_targets (clippy_package_args (str ''loko-kernel'') (str ''x86_64-unknown-none''))"
  "keeps_targets (clippy_package_args (str ''loko-boot'') (str ''x86_64-unknown-uefi''))"
  by (simp_all add: keeps_targets_def kernel_args_def bootloader_args_def test_args_def clippy_workspace_args_def fmt_args_def
    clippy_package_args_def host_exclusions_def BARE_METAL_CRATES_def BUILD_STD_def profile_args_def str_def)

lemma emits_builds [emits_rules]:
  "emits sound_event (build_kernel host optimised)" "emits sound_event (build_bootloader host optimised)"
  unfolding build_kernel_def build_bootloader_def Let_def
  by (intro emits_rules emits_cargo command_lines_keep)+

lemma emits_file_len [emits_rules]: "emits q (file_len host path)"
  by (simp add: file_len_def emits_rules)

lemma emits_describe [emits_rules]: "emits q (describe host path)"
  unfolding describe_def by (intro emits_rules)

lemma emits_build_all [emits_rules]: "emits sound_event (build_all host optimised)"
  unfolding build_all_def by (intro emits_rules; simp)

lemma emits_esp_image [emits_rules]: "emits sound_event (esp_image host optimised)"
  unfolding esp_image_def Let_def by (intro emits_rules; simp)

lemma emits_run_tool [emits_rules]: "q (Ran binary args) \<Longrightarrow> emits q (run_tool host binary args)"
  unfolding run_tool_def by (intro emits_rules)

lemma emits_missing_tools [emits_rules]:
  "(\<And>t. t \<in> set tools \<Longrightarrow> q (Ran (tl_binary t) [str ''--help''])) \<Longrightarrow> emits q (missing_tools host tools)"
  by (induction tools) (auto simp: tool_present_def intro!: emits_rules)

lemma emits_check_tools [emits_rules]: "emits sound_event (check_tools host)"
  unfolding check_tools_def by (intro emits_rules) (auto simp: REQUIRED_TOOLS_def)

lemma emits_copy_into_fat [emits_rules]: "emits sound_event (copy_tree_into_fat host img dir prefix node)"
proof (induction host img dir prefix node rule: copy_tree_into_fat.induct)
  case (3 host img dir prefix entries)
  show ?case
    unfolding copy_tree_into_fat.simps Let_def
    by (intro emits_rules "3.IH"; (assumption | simp))
qed (simp_all only: copy_tree_into_fat.simps emits_base)

lemma emits_copy_tree [emits_rules]: "emits sound_event (copy_tree host from_dir to_dir node)"
proof (induction host from_dir to_dir node rule: copy_tree.induct)
  case (1 host from_dir to_dir node)
  show ?case
    unfolding copy_tree.simps [of host from_dir to_dir node] Let_def
    by (cases "resolve node") (auto intro!: emits_rules "1.IH")
qed

lemma emits_tree_size [emits_rules]: "emits q (t_tree_size host dir)"
  by (auto simp: emits_def t_tree_size_def split: Node.splits option.splits)

lemma emits_iso_build [emits_rules]: "emits sound_event (iso_build host esp out version)"
  unfolding iso_build_def iso_stage_def iso_write_def build_esp_image_def verify_def Let_def by (intro emits_rules; simp)

lemma emits_build_iso [emits_rules]: "emits sound_event (build_iso host optimised)"
  unfolding build_iso_def Let_def by (intro emits_rules; simp)

lemma emits_spawn [emits_rules]: "emits sound_event (spawn_qemu host iso_file code vars serial_log)"
  by (auto simp: emits_def spawn_qemu_def Let_def split: sum.splits)

lemma emits_watch [emits_rules]: "emits sound_event (t_watch machine timeout)"
  by (auto simp: emits_def t_watch_def split: option.splits)

lemma emits_qemu_run [emits_rules]: "emits sound_event (qemu_run host iso_file out_dir)"
  unfolding qemu_run_def judge_def boot_test_def command_exists_def find_firmware_def Let_def by (intro emits_rules; simp)

lemma emits_report_rows [emits_rules]: "emits sound_event (report_rows host artifacts components measured)"
proof (induction components arbitrary: measured)
  case (Cons c components)
  obtain name status where c: "c = (name, status)" by (cases c)
  show ?case unfolding c report_rows.simps by (intro emits_rules Cons.IH; simp)
qed (simp add: emits_rules)

lemma emits_budget [emits_rules]: "emits sound_event (budget_report host artifacts)"
  unfolding budget_report_def by (intro emits_rules; simp)

lemma emits_clippy [emits_rules]: "emits sound_event (clippy host)"
  unfolding clippy_def by (intro emits_rules emits_cargo command_lines_keep) (auto intro: emits_cargo command_lines_keep)

text \<open>
  C30. The freestanding crates are never built, linted or tested for the host. Whatever the command line, and whatever the host answers, every
  \<^verbatim>\<open>cargo\<close> command the driver runs that covers the workspace excludes the kernel and the bootloader, and every one that names one of
  them names its bare-metal target too; the toolchain prefix cannot change that.
\<close>

theorem freestanding_crates_kept:
  assumes "xtask_main host args [] = Some (events, r)" "Ran (str ''cargo'') line \<in> set events"
  shows "keeps_targets line"
proof -
  have "emits sound_event (dispatch_command host args)"
    unfolding dispatch_command_def Let_def boot_test_command_def size_command_def test_command_def fmt_def check_everything_def print_help_def
    by (intro emits_rules emits_cargo command_lines_keep; simp)
  then have "\<forall>e \<in> set events. sound_event e"
    using assms(1) by (fastforce simp: emits_def xtask_main_def split: option.splits sum.splits prod.splits)
  then show ?thesis using assms(2) by (simp add: sound_event_def)
qed

lemma willing_select: "select willing_host events = Some (events, Inr None)"
  by (simp add: select_def willing_host_def plain_host_def)

lemma willing_run: "h_run willing_host events binary args = Exited True [] [] []"
  by (simp add: willing_host_def)

lemma willing_cargo:
  "cargo willing_host args events = Some (events @ [Said (10 # str ''> cargo '' @ join_str (str '' '') args), Ran (str ''cargo'') args], Inr ())"
  by (simp add: cargo_def Let_def willing_select willing_run)

theorem freestanding_crates_kept_witness:
  "\<exists>events. xtask_main willing_host [str ''test''] [] = Some (events, Inr True) \<and> Ran (str ''cargo'') test_args \<in> set events \<and>
     keeps_targets test_args"
proof -
  have run: "xtask_main willing_host [str ''test''] [] =
      Some ([Said (10 # str ''> cargo '' @ join_str (str '' '') test_args), Ran (str ''cargo'') test_args], Inr True)"
    by (simp add: xtask_main_def dispatch_command_def Let_def test_command_def willing_cargo str_def)
  from freestanding_crates_kept [OF run] run show ?thesis by simp
qed

section \<open>What passing the checks means\<close>

text \<open>The \<^verbatim>\<open>cargo\<close> commands among the events, without the choice of a toolchain, and that all of them succeeded.\<close>

definition without_toolchain :: "rstr list \<Rightarrow> rstr list" where
  "without_toolchain args = (if args \<noteq> [] \<and> take 1 (hd args) = str ''+'' then tl args else args)"

fun cargo_log :: "Event list \<Rightarrow> rstr list list" where
  "cargo_log [] = []"
| "cargo_log (Ran binary args # events) =
     (if binary = str ''cargo'' then without_toolchain args # cargo_log events else cargo_log events)"
| "cargo_log (_ # events) = cargo_log events"

fun all_passed :: "Host \<Rightarrow> Event list \<Rightarrow> Event list \<Rightarrow> bool" where
  "all_passed host before [] = True"
| "all_passed host before (event # events) =
     ((case event of Ran binary args \<Rightarrow>
         binary = str ''cargo'' \<longrightarrow> (\<exists>status out err. h_run host before binary args = Exited True status out err)
       | _ \<Rightarrow> True) \<and> all_passed host (before @ [event]) events)"

lemma cargo_log_append [simp]: "cargo_log (a @ b) = cargo_log a @ cargo_log b"
  by (induction a rule: cargo_log.induct) auto

lemma all_passed_append: "all_passed host before (a @ b) = (all_passed host before a \<and> all_passed host (before @ a) b)"
  by (induction a arbitrary: before) auto

text \<open>A task that runs a list of commands, in order, up to the first that fails.\<close>

definition follows :: "Host \<Rightarrow> rstr list list \<Rightarrow> 'a task \<Rightarrow> bool" where
  "follows host plan m \<longleftrightarrow> (\<forall>events events' r. m events = Some (events', r) \<longrightarrow>
     (\<exists>new n. events' = events @ new \<and> n \<le> length plan \<and> cargo_log new = take n plan \<and>
        (\<forall>x. r = Inr x \<longrightarrow> n = length plan \<and> all_passed host events new)))"

lemma followsD:
  "follows host plan m \<Longrightarrow> m events = Some (events', r) \<Longrightarrow> \<exists>new n. events' = events @ new \<and> n \<le> length plan \<and>
     cargo_log new = take n plan \<and> (\<forall>x. r = Inr x \<longrightarrow> n = length plan \<and> all_passed host events new)"
  by (simp only: follows_def)

lemma follows_bind:
  assumes "follows host plan m" "\<And>x. follows host rest (f x)"
  shows "follows host (plan @ rest) (t_bind m f)"
  unfolding follows_def
proof (intro allI impI)
  fix events events'' r
  assume run: "t_bind m f events = Some (events'', r)"
  then obtain events' r' where m: "m events = Some (events', r')" by (cases "m events") (auto simp: t_bind_def)
  from followsD [OF assms(1) m] obtain new n where n: "events' = events @ new" "n \<le> length plan" "cargo_log new = take n plan"
    "\<forall>x. r' = Inr x \<longrightarrow> n = length plan \<and> all_passed host events new" by (elim exE conjE)
  show "\<exists>new n. events'' = events @ new \<and> n \<le> length (plan @ rest) \<and> cargo_log new = take n (plan @ rest) \<and>
      (\<forall>x. r = Inr x \<longrightarrow> n = length (plan @ rest) \<and> all_passed host events new)"
  proof (cases r')
    case (Inl e)
    then have r: "r = Inl e" "events'' = events'" using run m by (simp_all add: t_bind_def)
    show ?thesis by (rule exI [of _ new], rule exI [of _ n]) (simp add: r n(1,2,3) trans_le_add1)
  next
    case (Inr x)
    then have "f x events' = Some (events'', r)" using run m by (simp add: t_bind_def)
    from followsD [OF assms(2) this] obtain new' n' where n': "events'' = events' @ new'" "n' \<le> length rest" "cargo_log new' = take n' rest"
      "\<forall>x. r = Inr x \<longrightarrow> n' = length rest \<and> all_passed host events' new'" by (elim exE conjE)
    show ?thesis
    proof (intro exI conjI)
      show "events'' = events @ new @ new'" using n(1) n'(1) by simp
      show "length plan + n' \<le> length (plan @ rest)" using n'(2) by simp
      show "cargo_log (new @ new') = take (length plan + n') (plan @ rest)" using n(2-4) n'(3) Inr by simp
      show "\<forall>y. r = Inr y \<longrightarrow> length plan + n' = length (plan @ rest) \<and> all_passed host events (new @ new')"
        using n(1,4) n'(4) Inr by (auto simp: all_passed_append)
    qed
  qed
qed

lemma follows_steps:
  "follows host [] (t_ok x)" "follows host [] (t_err message)" "follows host [] (t_ask question)" "follows host [] (t_say text)"
  by (simp_all add: follows_def)

lemma follows_select: "follows host [] (select host)"
  unfolding follows_def
proof (intro allI impI)
  fix events events' r
  assume "select host events = Some (events', r)"
  with select_events [of host events] obtain new where new: "events' = events @ new"
    "set new \<subseteq> {Ran (str ''link.exe'') [str ''/?''], Ran (str ''rustup'') [str ''toolchain'', str ''list'']}" by auto
  from new(2) have "cargo_log new = [] \<and> all_passed host before new" for before
    by (induction new arbitrary: before) auto
  then show "\<exists>new n. events' = events @ new \<and> n \<le> length [] \<and> cargo_log new = take n [] \<and>
      (\<forall>x. r = Inr x \<longrightarrow> n = length [] \<and> all_passed host events new)"
    using new(1) by auto
qed

lemma follows_cargo:
  assumes "without_toolchain args = args"
  shows "follows host [args] (cargo host args)"
proof -
  have strip: "without_toolchain ((case toolchain of Some name \<Rightarrow> [43 # name] | None \<Rightarrow> []) @ args) = args" for toolchain
    using assms by (cases toolchain) (simp_all add: without_toolchain_def str_def)
  have "follows host ([] @ [args]) (cargo host args)"
    unfolding cargo_def
  proof (rule follows_bind [OF follows_select])
    fix toolchain
    let ?full = "(case toolchain of Some name \<Rightarrow> [43 # name] | None \<Rightarrow> []) @ args"
    show "follows host [args] (let full = ?full in
        t_then (t_say (10 # str ''> cargo '' @ join_str (str '' '') full))
       (t_bind (t_command host (str ''cargo'') full) (\<lambda>x. case x of
          NotStarted e \<Rightarrow> t_err (str ''could not run cargo: '' @ e @ str ''. Is Rust installed and on PATH?'')
        | Exited success _ _ _ \<Rightarrow>
            if success then t_ok () else t_err (str ''`cargo '' @ join_str (str '' '') full @ str ''` failed''))))"
      unfolding follows_def Let_def
    proof (intro allI impI)
      fix events events' r
      let ?said = "Said (10 # str ''> cargo '' @ join_str (str '' '') ?full)"
      assume "t_then (t_say (10 # str ''> cargo '' @ join_str (str '' '') ?full))
         (t_bind (t_command host (str ''cargo'') ?full) (\<lambda>x. case x of
            NotStarted e \<Rightarrow> t_err (str ''could not run cargo: '' @ e @ str ''. Is Rust installed and on PATH?'')
          | Exited success _ _ _ \<Rightarrow>
              if success then t_ok () else t_err (str ''`cargo '' @ join_str (str '' '') ?full @ str ''` failed''))) events =
        Some (events', r)"
      then have e: "events' = events @ [?said, Ran (str ''cargo'') ?full]"
        "\<forall>x. r = Inr x \<longrightarrow> (\<exists>status out err. h_run host (events @ [?said]) (str ''cargo'') ?full = Exited True status out err)"
        by (cases "h_run host (events @ [?said]) (str ''cargo'') ?full"; force split: if_splits)+
      show "\<exists>new n. events' = events @ new \<and> n \<le> length [args] \<and> cargo_log new = take n [args] \<and>
          (\<forall>x. r = Inr x \<longrightarrow> n = length [args] \<and> all_passed host events new)"
        using e strip by (intro exI [of _ "[?said, Ran (str ''cargo'') ?full]"] exI [of _ 1]) simp
    qed
  qed
  then show ?thesis by simp
qed

lemma without_toolchain_lines:
  "without_toolchain (kernel_args optimised) = kernel_args optimised" "without_toolchain (bootloader_args optimised) = bootloader_args optimised"
  "without_toolchain test_args = test_args" "without_toolchain clippy_workspace_args = clippy_workspace_args"
  "without_toolchain (fmt_args check) = fmt_args check" "without_toolchain (clippy_package_args package target) = clippy_package_args package target"
  by (simp_all add: without_toolchain_def kernel_args_def bootloader_args_def test_args_def clippy_workspace_args_def fmt_args_def
    clippy_package_args_def str_def)

lemma follows_nil: "follows host [] m \<Longrightarrow> (\<And>x. follows host rest (f x)) \<Longrightarrow> follows host rest (t_bind m f)"
  using follows_bind [of host "[]" m rest f] by simp

lemma follows_last: "follows host plan m \<Longrightarrow> (\<And>x. follows host [] (f x)) \<Longrightarrow> follows host plan (t_bind m f)"
  using follows_bind [of host plan m "[]" f] by simp

lemma follows_build:
  "follows host [kernel_args optimised] (build_kernel host optimised)"
  "follows host [bootloader_args optimised] (build_bootloader host optimised)"
  unfolding build_kernel_def build_bootloader_def Let_def
  by (rule follows_last [OF follows_cargo], rule without_toolchain_lines, rule follows_nil, rule follows_steps, simp add: follows_steps)+

lemma follows_describe: "follows host [] (describe host path)"
  unfolding describe_def file_len_def by (intro follows_nil follows_steps)

lemma follows_build_all: "follows host ([bootloader_args optimised] @ [kernel_args optimised]) (build_all host optimised)"
  unfolding build_all_def
  by (intro follows_bind follows_build follows_last [OF follows_build(1)] follows_nil follows_describe follows_steps)

lemma follows_clippy:
  "follows host ([clippy_workspace_args] @ [clippy_package_args (str ''loko-kernel'') (str ''x86_64-unknown-none'')] @
     [clippy_package_args (str ''loko-boot'') (str ''x86_64-unknown-uefi'')]) (clippy host)"
  unfolding clippy_def t_for.simps prod.case
  by (intro follows_bind follows_last follows_cargo without_toolchain_lines follows_steps)

definition check_plan :: "rstr list list" where
  "check_plan =
     [[str ''fmt'', str ''--all'', str ''--check''],
      clippy_workspace_args,
      clippy_package_args (str ''loko-kernel'') (str ''x86_64-unknown-none''),
      clippy_package_args (str ''loko-boot'') (str ''x86_64-unknown-uefi''),
      test_args,
      bootloader_args False,
      kernel_args False]"

text \<open>
  C31. Passing the checks means that every check has passed. The commands that \<^verbatim>\<open>check\<close> runs are a beginning of a fixed list: formatting, the three
  lints, the tests, the two builds, in that order, each at most once; if it reports success it has run all of them and each of them
  succeeded; and it reports failure otherwise.
\<close>

theorem check_means_all_passed:
  assumes "check_everything host events = Some (events', r)"
  shows "\<exists>new n. events' = events @ new \<and> n \<le> 7 \<and> cargo_log new = take n check_plan \<and>
    (r = Inr () \<longrightarrow> n = 7 \<and> all_passed host events new)"
proof -
  have "follows host ([fmt_args True] @ ([clippy_workspace_args] @ [clippy_package_args (str ''loko-kernel'') (str ''x86_64-unknown-none'')] @
      [clippy_package_args (str ''loko-boot'') (str ''x86_64-unknown-uefi'')]) @ [test_args] @ ([bootloader_args False] @ [kernel_args False]))
      (check_everything host)"
    unfolding check_everything_def fmt_def test_command_def
    by (intro follows_bind follows_cargo without_toolchain_lines follows_clippy follows_last [OF follows_build_all] follows_steps)
  then have "follows host check_plan (check_everything host)" by (simp add: check_plan_def fmt_args_def)
  note run = followsD [OF this assms]
  have "length check_plan = 7" by (simp add: check_plan_def)
  with run obtain new n where "events' = events @ new" "n \<le> 7" "cargo_log new = take n check_plan"
    "r = Inr () \<longrightarrow> n = 7 \<and> all_passed host events new" by auto
  then show ?thesis by (intro exI conjI)
qed

lemma willing_exists: "h_exists willing_host events path" "h_len willing_host events path = Inr 0x300000"
  "h_make_dir willing_host events path = None" "h_copy willing_host events source path = None"
  by (simp_all add: willing_host_def plain_host_def)

lemma willing_builds:
  "\<exists>new. build_kernel willing_host optimised events = Some (events @ new, Inr (kernel_file willing_host optimised))"
  "\<exists>new. build_bootloader willing_host optimised events = Some (events @ new, Inr (bootloader_file willing_host optimised))"
  by (simp_all add: build_kernel_def build_bootloader_def willing_cargo willing_exists Let_def)

lemma willing_build_all: "\<exists>events'. build_all willing_host optimised events = Some (events', Inr ())"
proof -
  obtain new where b: "build_bootloader willing_host optimised events = Some (events @ new, Inr (bootloader_file willing_host optimised))"
    using willing_builds(2) by blast
  obtain more where k: "build_kernel willing_host optimised (events @ new) = Some ((events @ new) @ more, Inr (kernel_file willing_host optimised))"
    using willing_builds(1) by blast
  show ?thesis by (simp add: build_all_def b k describe_def file_len_def willing_exists)
qed

lemma willing_then:
  assumes "\<And>events. \<exists>events'. m events = Some (events', Inr ())" "\<And>events. \<exists>events'. n events = Some (events', Inr ())"
  shows "\<exists>events'. t_then m n events = Some (events', Inr ())"
proof -
  obtain e where "m events = Some (e, Inr ())" using assms(1) by blast
  then show ?thesis using assms(2) by simp
qed

theorem check_means_all_passed_witness:
  "\<exists>events'. check_everything willing_host [] = Some (events', Inr ()) \<and> cargo_log events' = check_plan"
proof -
  have "\<exists>events'. check_everything willing_host events = Some (events', Inr ())" for events
    unfolding check_everything_def fmt_def clippy_def test_command_def t_for.simps prod.case
    by (intro willing_then willing_build_all) (simp_all add: willing_cargo)
  then obtain events' where e: "check_everything willing_host [] = Some (events', Inr ())" by blast
  from check_means_all_passed [OF e] e show ?thesis by (auto simp: check_plan_def)
qed

section \<open>The bootloader finds the kernel\<close>

text \<open>The path the bootloader opens on the partition it was loaded from, and the same path in the tree laid out here.\<close>

definition KERNEL_PATH :: rstr where
  "KERNEL_PATH = 92 # str ''EFI'' @ 92 # str ''LOKO'' @ 92 # str ''loko-kernel''"

definition on_partition :: "rstr \<Rightarrow> rstr \<Rightarrow> rstr" where
  "on_partition esp path = esp @ map (\<lambda>c. if c = 92 then 47 else c) path"

text \<open>
  The kernel is where the bootloader looks for it. When the system partition has been laid out, the kernel that was just built, for the profile asked
  for, has been copied to the path the bootloader opens, and the bootloader to the name firmware starts and to its own.
\<close>

theorem kernel_installed:
  assumes "esp_image host optimised events = Some (events', Inr esp)"
  shows "CopiedFile (kernel_file host optimised) (on_partition esp KERNEL_PATH) \<in> set events' \<and>
    CopiedFile (bootloader_file host optimised) (esp @ str ''/EFI/BOOT/BOOTX64.EFI'') \<in> set events' \<and>
    CopiedFile (bootloader_file host optimised) (esp @ str ''/EFI/LOKO/loko-boot.efi'') \<in> set events'"
proof -
  from assms obtain e1 bootloader where b: "build_bootloader host optimised events = Some (e1, Inr bootloader)"
    by (auto simp: esp_image_def elim: t_bind_InrE)
  from assms b obtain e2 kernel_path where k: "build_kernel host optimised e1 = Some (e2, Inr kernel_path)"
    by (auto simp: esp_image_def elim: t_bind_InrE)
  have names: "bootloader = bootloader_file host optimised" "kernel_path = kernel_file host optimised"
    using b k by (auto simp: build_bootloader_def build_kernel_def Let_def elim!: t_bind_InrE split: if_splits)
  obtain e3 where e3: "t_then (t_for (\<lambda>(source, destination). t_file (\<lambda>events. h_copy host events source destination) (CopiedFile source destination)
                (\<lambda>e. str ''could not copy '' @ source @ str '' to '' @ destination @ str '': '' @ e))
              (image_files host bootloader kernel_path))
    (t_then (t_say (10 # str ''EFI system partition laid out at '' @ esp_dir host))
    (t_then (t_say (str ''  EFI/BOOT/BOOTX64.EFI   the bootloader, under the name firmware looks for''))
    (t_then (t_say (str ''  EFI/LOKO/loko-boot.efi the same binary, under its own name''))
    (t_then (t_say (str ''  EFI/LOKO/loko-kernel   the kernel''))
    (t_then (t_say (10 # str ''This is a directory tree, not a disk image. `cargo xtask iso` turns it'' @ 10 #
       str ''into a bootable hybrid ISO; copying it onto an already-formatted EFI'' @ 10 # str ''system partition works too.''))
    (t_ok (esp_dir host))))))) e3 = Some (events', Inr esp)"
    using assms b k unfolding esp_image_def Let_def by (auto elim: t_bind_InrE)
  then obtain e4 where copies: "t_for (\<lambda>(source, destination). t_file (\<lambda>events. h_copy host events source destination) (CopiedFile source destination)
                (\<lambda>e. str ''could not copy '' @ source @ str '' to '' @ destination @ str '': '' @ e))
              (image_files host bootloader kernel_path) e3 = Some (e4, Inr ())"
    by (auto elim: t_bind_InrE)
  have e4: "e4 = e3 @ concat (map (\<lambda>(source, destination). [CopiedFile source destination]) (image_files host bootloader kernel_path))"
    by (rule t_for_events [OF _ copies]) (auto elim: t_file_InrE)
  have "set e4 \<subseteq> set events' \<and> esp = esp_dir host" using e3 by (auto simp: copies)
  then show ?thesis
    using e4 by (auto simp: image_files_def Let_def names on_partition_def KERNEL_PATH_def join_path_def str_def)
qed

theorem kernel_installed_witness:
  "\<exists>events'. esp_image willing_host True [] = Some (events', Inr (str ''/src/build/esp'')) \<and>
     CopiedFile (str ''/src/target/x86_64-unknown-none/release/loko-kernel'') (str ''/src/build/esp/EFI/LOKO/loko-kernel'') \<in> set events'"
proof -
  obtain new where b: "build_bootloader willing_host True [] = Some (new, Inr (bootloader_file willing_host True))"
    using willing_builds(2) [of True "[]"] by auto
  obtain more where k: "build_kernel willing_host True new = Some (new @ more, Inr (kernel_file willing_host True))"
    using willing_builds(1) by blast
  have names: "esp_dir willing_host = str ''/src/build/esp''"
    "kernel_file willing_host True = str ''/src/target/x86_64-unknown-none/release/loko-kernel''"
    "on_partition (str ''/src/build/esp'') KERNEL_PATH = str ''/src/build/esp/EFI/LOKO/loko-kernel''"
    by (simp_all add: esp_dir_def kernel_file_def on_partition_def KERNEL_PATH_def willing_host_def plain_host_def join_path_def
      profile_dir_def str_def)
  have "\<exists>events'. esp_image willing_host True [] = Some (events', Inr (esp_dir willing_host))"
    by (simp add: esp_image_def Let_def b k image_files_def t_file_def willing_exists)
  then obtain events' where e: "esp_image willing_host True [] = Some (events', Inr (str ''/src/build/esp''))" unfolding names by blast
  from kernel_installed [OF e] e show ?thesis unfolding names by blast
qed

end
