(* ===== verification/Spec2Isabelle.thy ===== *)
theory Spec2Isabelle
  imports Boot_End Abi_Syscall Lko_Policy Lko_Layout Permissions Package_Trust Kernel_Descriptors Xtask_Driver
begin

text \<open>
  \<^bold>\<open>A verification development for LokoOS.\<close> All paths below are under \<open>src/\<close>.

  \<^bold>\<open>The program.\<close> LokoOS is an operating system at an early stage. A UEFI bootloader (\<open>boot/loko-boot\<close>) reads the kernel's ELF
  image, copies its segments, builds page tables, translates the firmware's memory map and jumps to the kernel with a
  \<open>BootInfo\<close> block (\<open>boot/loko-boot-protocol\<close>). The kernel (\<open>kernel/loko-kernel\<close>) validates the block, builds a physical frame
  allocator (\<open>kernel/loko-memory\<close>) and a heap, reports each stage on the serial port and halts; exceptions and panics end in a stop
  screen. Beside it stand the libraries the kernel's future services rest on: the system-call ABI (\<open>sdk/loko-abi\<close>), the file-system
  paths and access policy (\<open>filesystem/lkofs-core\<close>), and application permissions and package trust (\<open>security/loko-security\<close>).
  A host tool (\<open>tools/xtask\<close>) builds kernel and bootloader, writes a bootable image, and boots it under QEMU, where it decides from the
  serial output alone whether the boot succeeded.

  \<^bold>\<open>Conventions.\<close> Both build profiles keep overflow checks on, so a checked operation of Rust is a function into \<open>'a run\<close>
  (\<open>'a option\<close>), whose \<open>None\<close> is a panic: \<open>add64\<close>, \<open>sub64\<close>, \<open>mul64\<close> and their like in \<open>Loko_Prelude\<close>; unsigned integers are \<open>nat\<close> under
  the bounds written in the definitions, \<open>isize\<close> is \<open>int\<close>, bitmaps and flags are words. A \<open>Result\<close> is a sum, the error on the left. A string is
  the list of its code points with UTF-8 lengths (\<open>Rust_Str\<close>, \<open>Rust_Fmt\<close>), so that slicing inside a character panics as it does in Rust.
  Structs are records and enums are datatypes with the constructors of the source; a function has the source's name, with the type's in front
  where two types share it. A loop is a structural recursion or a function with its termination proof, except the polling loop of the boot test, which need not end and
  is a \<open>partial_function\<close>; no definition takes fuel. Everything is executable once the parameters are given.

  \<^bold>\<open>Shared theories.\<close> \<open>Loko_Prelude\<close> has checked arithmetic and \<open>run_simps\<close>; \<open>Bitflags\<close> the operations the \<^verbatim>\<open>bitflags\<close> crate documents,
  as a parameter with laws; \<open>Pool_Spec\<close> the interfaces \<open>bit_array\<close> (a packed array of bits) and \<open>frame_pool\<close> (what a client of an allocator of
  frames relies on), interpreted in \<open>Frame_Allocator\<close>; \<open>Path_Spec\<close> the interface \<open>hierarchy\<close> (containment as a tree order), interpreted
  in \<open>Lko_Path\<close>; \<open>code_table\<close> in \<open>Abi_Error\<close> is the interface of numbered enumerations, interpreted for errors,
  system calls and permissions; \<open>chunk_mapper\<close> and \<open>live_mapper\<close> in \<open>Page_Mapping\<close> are the contract of mapping one page, from which the loops
  over ranges are verified, interpreted for pages of both sizes.

  \<^bold>\<open>From power-on to the kernel.\<close>
  \<^item> \<open>Boot_Protocol\<close>: \<open>boot/loko-boot-protocol/src/lib.rs\<close>. Acceptance of a memory map is equivalent to its
    specification; a pixel's offset is inside the framebuffer.
  \<^item> \<open>Elf_Image\<close>: \<open>boot/loko-boot/src/elf.rs\<close>. No file makes the reader read outside it.
  \<^item> \<open>Paging\<close> (\<open>boot/loko-boot/src/paging.rs\<close>; state: arena and memory), \<open>Page_Tree\<close>, \<open>Page_Mapping\<close>, \<open>Page_Ranges\<close>: the
    specification is the processor's walk \<open>translate\<close>; mapping changes exactly the pages asked for, or reports why not.
  \<^item> \<open>Boot_Loader\<close>: \<open>boot/loko-boot/src/main.rs\<close> over a record \<open>Firmware\<close> of what UEFI answers. \<open>Boot_Memory_Map\<close> has the exact
    translation of the memory map, \<open>Boot_Handover\<close> what a successful run has done, \<open>Boot_Success\<close> when it succeeds, and
    \<open>Boot_Correct\<close> the resulting properties.
  \<^item> \<open>Frame_Allocator\<close>: \<open>kernel/loko-memory/src/lib.rs\<close>, a bitmap of 64-bit words abstracted to a set of free frames.
  \<^item> \<open>Kernel_Memory\<close>: memory and heap set-up and the report of \<open>kernel/loko-kernel/src/main.rs\<close>, without log lines.
    \<open>Boot_Chain\<close> composes it with the bootloader: the kernel never reuses memory the boot still uses, and comes up.
  \<^item> \<open>Kernel_Display\<close> (\<open>framebuffer.rs\<close>), \<open>Kernel_Console\<close> (\<open>log.rs\<close>, \<open>serial.rs\<close>, \<open>arch/idt.rs\<close>, the stops of \<open>main.rs\<close> and \<open>heap.rs\<close>) and
    \<open>Kernel_Descriptors\<close> (\<open>arch/gdt.rs\<close>, the tables of \<open>arch/idt.rs\<close>). The state is \<open>Console\<close>: the serial output, the two locks, the log level and
    the surface; a computation runs on, halts, spins on a lock or panics.
  \<^item> \<open>Kernel_Entry\<close>: \<open>_start\<close> with every line it prints refines \<open>kernel_start\<close>.

  \<^bold>\<open>The libraries.\<close>
  \<^item> \<open>Abi_Error\<close>, \<open>Abi_Syscall\<close>: \<open>sdk/loko-abi/src\<close> and \<open>kernel/loko-kernel/src/syscall.rs\<close>. The register convention round-trips,
    and derivation of handles, an inductive relation, never widens rights.
  \<^item> \<open>Lko_Root\<close>, \<open>Lko_Path\<close>, \<open>Lko_Layout\<close>, \<open>Lko_Policy\<close>: \<open>filesystem/lkofs-core/src\<close>. The parser is equivalent to a grammar of spellings;
    every other operation is characterised on the list of components; the policy's verdict depends on nothing else.
  \<^item> \<open>Permissions\<close>, \<open>Package_Trust\<close>: \<open>security/loko-security/src\<close>. A record runs over any sequence of events;
    no sequence of offered packages makes a version older.

  \<^bold>\<open>The host tool.\<close> \<open>Xtask_Host\<close> models a run as a computation from the list of events so far (commands run, files copied,
  lines printed) over a record \<open>Host\<close> of the answers of the operating system, which may depend on all earlier events, and
  \<open>toolchain.rs\<close>; an operation whose failure the source ignores is an event only if it has succeeded. \<open>Xtask_Budget\<close> is \<open>budget.rs\<close>, \<open>Xtask_Iso\<close> \<open>iso.rs\<close> over directory trees with symbolic links, \<open>Boot_Test\<close> \<open>qemu.rs\<close> and \<open>Xtask_Driver\<close>
  \<open>main.rs\<close>. Lemma collections (\<open>emits_rules\<close>, the \<open>follows\<close> rules) derive what every run does construct by construct. \<open>Boot_Faults\<close> has
  the points of the start-up as a step relation, which the run of \<open>Kernel_Entry\<close> is proved to follow, and composes the
  exception handlers with the boot test; \<open>Boot_End\<close> composes everything from the firmware to the boot test's verdict.

  \<^bold>\<open>Parameters.\<close> What is not in the repository is an argument: the firmware's answers, the host's answers, the
  \<^verbatim>\<open>bitflags\<close> operations, how the \<^verbatim>\<open>x86_64\<close> crate appends descriptors, the bytes the heap has in use, the texts of a page fault.
  The hypotheses on them are named and satisfied by concrete instances in the witnesses:
  \<open>firmware_memory_ok\<close> (allocations are page-aligned and below \<open>2 ^ 47\<close>), \<open>firmware_map_ok\<close> (descriptors are aligned and disjoint),
  \<open>allocations_recorded\<close> (the final map shows the bootloader's allocations), \<open>display_ok\<close> (a row holds its pixels), \<open>machine_ready\<close>
  (files are there and allocations succeed), \<open>appends\<close> (descriptors get consecutive slots). Concurrency is that of one processor: an
  exception may strike at any point, also while a lock is held. The kernel's handlers run from the moment the interrupt descriptor table is loaded;
  before that nothing of the kernel runs, the processor resets, and the emulator, started with \<^verbatim>\<open>-no-reboot\<close>, exits.

  \<^bold>\<open>Bounds.\<close> \<open>FRAME_BITMAP\<close> covers 16 GiB and \<open>ARENA_FRAMES\<close> is the source's; no other bound is added. Mapping loops are bounded by the
  number of pages, the polling loop by the timeout (\<open>watch_terminates\<close>).

  \<^bold>\<open>Not modelled.\<close> The insides of the crates \<^verbatim>\<open>uefi\<close>, \<^verbatim>\<open>x86_64\<close>, \<^verbatim>\<open>uart_16550\<close>, \<^verbatim>\<open>linked_list_allocator\<close>, \<^verbatim>\<open>spin\<close> and \<^verbatim>\<open>bitflags\<close>,
  which are not in the repository; with the allocator, \<open>used\<close> and \<open>free\<close> of \<open>heap.rs\<close>, which only forward to it. The jump instruction and the
  writes to control registers, which have no meaning short of a processor model. \<open>kernel/loko-kernel/build.rs\<close>, two lines printed
  for cargo. The floating-point percentage in the size report and the colours of a terminal. The unit tests inside the source files, and the
  apps, services and documents of the repository that hold no Rust code.
\<close>

end
